(* ===== verification/Go_Prelude.thy ===== *)
theory Go_Prelude
  imports Main "HOL-Library.Word" "HOL-Library.AList" "HOL-Library.Multiset"
    "HOL-Library.Monad_Syntax"
begin

text \<open>
  What the components share: the Go types the code is written over (bytes, strings, maps), the
  convention for run-time panics, the contract of \<^verbatim>\<open>sort.Sort\<close>/\<^verbatim>\<open>sort.Slice\<close> and generic lemmas.

  \<^item> \<^bold>\<open>Panics.\<close> A Go operation that can dereference a nil pointer or slice out of range is
    modelled by a function into \<open>'a option\<close>; \<open>None\<close> is the panic, never an error value.  Error
    values (the \<^verbatim>\<open>error\<close> results of Go) are sums \<open>'e + 'a\<close> with \<open>Inl\<close> the error.
  \<^item> \<^bold>\<open>Maps.\<close> A Go map is an association list with distinct keys.  The order of the list stands
    for one of the (unspecified) iteration orders; the locale \<open>gomap_spec\<close> is the interface the
    clients use, interpreted on the list operations below.
  \<^item> \<^bold>\<open>Sorting.\<close> \<open>sort.Sort\<close> promises a sorted permutation and nothing about ties
    (\<open>sort_contract\<close>).  \<open>go_sort\<close> is one function with that contract; where the keys are distinct
    every function with the contract agrees with it (\<open>sort_contract_unique\<close>).
\<close>

unbundle bit_operations_syntax

named_theorems go_simps \<open>characteristic equations of Go library operations\<close>
named_theorems panic_free \<open>facts that an operation returns normally on well-formed state\<close>
named_theorems wf_intros \<open>preservation of the well-formedness invariants\<close>

type_synonym byte = "8 word"
type_synonym bytes = "byte list"

section \<open>Go maps\<close>

type_synonym ('k, 'v) gomap = "('k \<times> 'v) list"

definition gm_empty :: "('k, 'v) gomap" where
  "gm_empty = []"

definition gm_get :: "('k, 'v) gomap \<Rightarrow> 'k \<Rightarrow> 'v option" where
  "gm_get m k = map_of m k"

definition gm_set :: "'k \<Rightarrow> 'v \<Rightarrow> ('k, 'v) gomap \<Rightarrow> ('k, 'v) gomap" where
  "gm_set k v m = AList.update k v m"

definition gm_del :: "'k \<Rightarrow> ('k, 'v) gomap \<Rightarrow> ('k, 'v) gomap" where
  "gm_del k m = AList.delete k m"

definition gm_keys :: "('k, 'v) gomap \<Rightarrow> 'k list" where
  "gm_keys m = map fst m"

definition gm_len :: "('k, 'v) gomap \<Rightarrow> nat" where
  "gm_len m = length m"

definition gm_wf :: "('k, 'v) gomap \<Rightarrow> bool" where
  "gm_wf m \<longleftrightarrow> distinct (map fst m)"

locale gomap_spec =
  fixes empty :: "'m"
    and get :: "'m \<Rightarrow> 'k \<Rightarrow> 'v option"
    and set_at :: "'k \<Rightarrow> 'v \<Rightarrow> 'm \<Rightarrow> 'm"
    and del :: "'k \<Rightarrow> 'm \<Rightarrow> 'm"
    and keys :: "'m \<Rightarrow> 'k list"
    and len :: "'m \<Rightarrow> nat"
    and invar :: "'m \<Rightarrow> bool"
  assumes get_empty: "get empty k = None"
    and get_set: "get (set_at k v m) k' = (if k' = k then Some v else get m k')"
    and get_del: "invar m \<Longrightarrow> get (del k m) k' = (if k' = k then None else get m k')"
    and keys_iff: "k \<in> set (keys m) \<longleftrightarrow> get m k \<noteq> None"
    and keys_distinct: "invar m \<Longrightarrow> distinct (keys m)"
    and len_keys: "len m = length (keys m)"
    and invar_empty: "invar empty"
    and invar_set: "invar m \<Longrightarrow> invar (set_at k v m)"
    and invar_del: "invar m \<Longrightarrow> invar (del k m)"
begin

lemma set_keys_set_at: "set (keys (set_at k v m)) = insert k (set (keys m))"
  by (auto simp: keys_iff get_set split: if_splits)

lemma set_keys_del: "invar m \<Longrightarrow> set (keys (del k m)) = set (keys m) - {k}"
  by (auto simp: keys_iff get_del split: if_splits)

lemma len_set_at:
  assumes "invar m"
  shows "len (set_at k v m) = (if get m k = None then Suc (len m) else len m)"
proof -
  have "len (set_at k v m) = card (insert k (set (keys m)))"
    using keys_distinct [OF invar_set [OF assms], of k v]
    by (simp add: len_keys distinct_card [symmetric] set_keys_set_at)
  also have "\<dots> = (if k \<in> set (keys m) then card (set (keys m)) else Suc (card (set (keys m))))"
    by (simp add: insert_absorb)
  finally show ?thesis
    using keys_distinct [OF assms] by (auto simp: len_keys distinct_card keys_iff)
qed

lemma len_del:
  assumes "invar m"
  shows "len (del k m) = (if get m k = None then len m else len m - 1)"
proof -
  have "len (del k m) = card (set (keys m) - {k})"
    using keys_distinct [OF invar_del [OF assms], of k]
    by (simp add: len_keys distinct_card [symmetric] set_keys_del [OF assms])
  then show ?thesis
    using keys_distinct [OF assms] by (auto simp: len_keys distinct_card keys_iff)
qed

end

lemma map_of_neq_None_iff: "map_of m k \<noteq> None \<longleftrightarrow> k \<in> fst ` set m"
  by (simp add: map_of_eq_None_iff)

interpretation gm: gomap_spec gm_empty gm_get gm_set gm_del gm_keys gm_len gm_wf
proof unfold_locales
  show "k \<in> set (gm_keys m) \<longleftrightarrow> gm_get m k \<noteq> None" for m :: "('a, 'b) gomap" and k
    by (simp only: gm_keys_def gm_get_def map_of_neq_None_iff set_map)
  show "gm_get (gm_del k m) k' = (if k' = k then None else gm_get m k')"
    for m :: "('a, 'b) gomap" and k k'
    by (simp add: gm_get_def gm_del_def delete_conv')
qed (auto simp: gm_get_def gm_set_def gm_del_def gm_keys_def gm_len_def gm_empty_def gm_wf_def
       update_conv' distinct_update distinct_delete)

declare gm.get_empty [simp] gm.get_set [simp] gm.get_del [simp]
  gm.invar_empty [wf_intros, simp] gm.invar_set [wf_intros] gm.invar_del [wf_intros]

section \<open>Sorting\<close>

text \<open>
  The contract of \<^verbatim>\<open>sort.Sort(data)\<close> and \<^verbatim>\<open>sort.Slice(s, less)\<close>: the result is a permutation
  in which no element is less than an earlier one.
\<close>

definition sort_contract :: "('a \<Rightarrow> 'a \<Rightarrow> bool) \<Rightarrow> 'a list \<Rightarrow> 'a list \<Rightarrow> bool" where
  "sort_contract lt xs ys \<longleftrightarrow> mset ys = mset xs \<and> sorted_wrt (\<lambda>x y. \<not> lt y x) ys"

fun go_insert :: "('a \<Rightarrow> 'a \<Rightarrow> bool) \<Rightarrow> 'a \<Rightarrow> 'a list \<Rightarrow> 'a list" where
  "go_insert lt x [] = [x]"
| "go_insert lt x (y # ys) = (if lt y x then y # go_insert lt x ys else x # y # ys)"

fun go_sort :: "('a \<Rightarrow> 'a \<Rightarrow> bool) \<Rightarrow> 'a list \<Rightarrow> 'a list" where
  "go_sort lt [] = []"
| "go_sort lt (x # xs) = go_insert lt x (go_sort lt xs)"

lemma mset_go_insert [simp]: "mset (go_insert lt x xs) = add_mset x (mset xs)"
  by (induction xs) auto

lemma mset_go_sort [simp]: "mset (go_sort lt xs) = mset xs"
  by (induction xs) auto

lemma set_go_sort [simp]: "set (go_sort lt xs) = set xs"
  by (metis mset_go_sort set_mset_mset)

lemma length_go_sort [simp]: "length (go_sort lt xs) = length xs"
  by (metis mset_go_sort size_mset)

lemma distinct_map_go_sort [simp]: "distinct (map f (go_sort lt xs)) = distinct (map f xs)"
  by (rule mset_eq_imp_distinct_iff) simp

locale keyed_less =
  fixes lt :: "'a \<Rightarrow> 'a \<Rightarrow> bool"
    and key :: "'a \<Rightarrow> 'k::linorder"
    and ok :: "'a \<Rightarrow> bool"
  assumes less_key: "ok x \<Longrightarrow> ok y \<Longrightarrow> lt x y \<longleftrightarrow> key x < key y"
begin

lemma go_insert_insort:
  "ok x \<Longrightarrow> list_all ok xs \<Longrightarrow> go_insert lt x xs = insort_key key x xs"
  by (induction xs) (auto simp: less_key not_less)

lemma go_sort_sort_key: "list_all ok xs \<Longrightarrow> go_sort lt xs = sort_key key xs"
  by (induction xs) (simp_all add: go_insert_insort list_all_iff)

lemma sorted_go_sort: "list_all ok xs \<Longrightarrow> sorted (map key (go_sort lt xs))"
  by (simp add: go_sort_sort_key)

lemma sorted_contract_iff:
  "list_all ok ys \<Longrightarrow> sorted_wrt (\<lambda>x y. \<not> lt y x) ys \<longleftrightarrow> sorted (map key ys)"
  by (induction ys) (auto simp: list_all_iff less_key not_less)

lemma go_sort_contract: "list_all ok xs \<Longrightarrow> sort_contract lt xs (go_sort lt xs)"
  using sorted_contract_iff [of "go_sort lt xs"]
  by (simp add: sort_contract_def sorted_go_sort list_all_iff)

text \<open>Distinct keys make the contract determine the result.\<close>

lemma sort_contract_unique:
  assumes ok: "list_all ok xs" and dist: "distinct (map key xs)"
    and c: "sort_contract lt xs ys"
  shows "ys = go_sort lt xs"
proof -
  have m: "mset ys = mset xs" and s: "sorted_wrt (\<lambda>x y. \<not> lt y x) ys"
    using c by (auto simp: sort_contract_def)
  have oky: "list_all ok ys"
    using ok mset_eq_setD [OF m] by (simp add: list_all_iff)
  have "sort_key key xs = ys"
  proof (rule properties_for_sort_key [OF m])
    fix k assume "k \<in> set ys"
    have dy: "distinct (map key ys)"
      using dist m mset_eq_imp_distinct_iff [of "map key ys" "map key xs"] by simp
    have single: "filter (\<lambda>x. key k = key x) zs = [k]"
      if "distinct (map key zs)" "k \<in> set zs" for zs
      using that by (induction zs) (auto simp: filter_empty_conv image_iff)
    show "filter (\<lambda>x. key k = key x) ys = filter (\<lambda>x. key k = key x) xs"
      using single [OF dy] single [OF dist] \<open>k \<in> set ys\<close> mset_eq_setD [OF m] by simp
  next
    show "sorted (map key ys)"
      using s sorted_contract_iff [OF oky] by simp
  qed
  then show ?thesis using go_sort_sort_key [OF ok] by simp
qed

text \<open>Sorting a permutation (another map iteration order) gives the same list.\<close>

lemma go_sort_perm:
  assumes "list_all ok xs" and "distinct (map key xs)" and "mset xs' = mset xs"
  shows "go_sort lt xs' = go_sort lt xs"
proof (rule sort_contract_unique [OF assms(1,2)])
  have "list_all ok xs'"
    using assms(1) mset_eq_setD [OF assms(3)] by (simp add: list_all_iff)
  then show "sort_contract lt xs (go_sort lt xs')"
    using go_sort_contract [of xs'] assms(3) by (simp add: sort_contract_def)
qed

text \<open>A sorted prefix is at most every element left out.\<close>

lemma take_go_sort_le:
  assumes "list_all ok xs" and "x \<in> set (take n (go_sort lt xs))"
    and "y \<in> set (drop n (go_sort lt xs))"
  shows "key x \<le> key y"
proof -
  have "sorted (map key (take n (go_sort lt xs) @ drop n (go_sort lt xs)))"
    using sorted_go_sort [OF assms(1)] by simp
  then show ?thesis
    using assms(2,3) by (auto simp only: map_append sorted_append set_map)
qed

end

section \<open>Lists\<close>

lemma sorted_distinct_strict:
  fixes xs :: "'a::linorder list"
  shows "sorted xs \<Longrightarrow> distinct xs \<Longrightarrow> sorted_wrt (<) xs"
  by (simp add: strict_sorted_iff)

lemma distinct_map_filterI [intro]: "distinct (map f xs) \<Longrightarrow> distinct (map f (filter P xs))"
  by (induction xs) auto

lemma in_set_takeI: "i < n \<Longrightarrow> i < length xs \<Longrightarrow> xs ! i \<in> set (take n xs)"
  by (auto simp: in_set_conv_nth)

end
