(* ===== verification/Go_Strings.thy ===== *)
theory Go_Strings
  imports Go_Prelude
begin

text \<open>
  The parts of \<^verbatim>\<open>strings\<close>, \<^verbatim>\<open>encoding/hex\<close>, \<^verbatim>\<open>strconv\<close> and \<^verbatim>\<open>fmt\<close> that the program
  uses.  A Go string is a sequence of bytes: \<open>string\<close> here, one \<open>char\<close> per byte.  The case tables of
  Unicode are not part of the model: on strings with a byte above 127, \<^verbatim>\<open>strings.ToLower\<close>,
  \<^verbatim>\<open>ToUpper\<close> and \<^verbatim>\<open>EqualFold\<close> are the fields of \<open>unicode_env\<close>, a parameter of every operation
  that calls them.  White space is complete (the code points of Unicode's White\_Space property in UTF-8).
\<close>

section \<open>Bytes and characters\<close>

definition bytes_of_string :: "string \<Rightarrow> bytes" where
  "bytes_of_string s = map of_char s"

definition string_of_bytes :: "bytes \<Rightarrow> string" where
  "string_of_bytes bs = map (\<lambda>b. char_of (unat b)) bs"

definition is_ascii :: "string \<Rightarrow> bool" where
  "is_ascii s \<longleftrightarrow> list_all (\<lambda>c. (of_char c :: nat) < 128) s"

lemma unat_of_char [simp]: "unat (of_char c :: byte) = of_char c"
proof -
  have "(of_char c :: byte) = word_of_nat (of_char c)"
    by (simp add: of_char_def)
  then show ?thesis
    by (simp add: unat_of_nat)
qed

lemma string_of_bytes_of_string [simp]: "string_of_bytes (bytes_of_string s) = s"
  by (simp add: string_of_bytes_def bytes_of_string_def comp_def)

lemma length_bytes_of_string [simp]: "length (bytes_of_string s) = length s"
  by (simp add: bytes_of_string_def)

lemma bytes_of_string_inj [simp]: "bytes_of_string s = bytes_of_string t \<longleftrightarrow> s = t"
  by (metis string_of_bytes_of_string)

section \<open>Package hex\<close>

definition hex_char :: "nat \<Rightarrow> char" where
  "hex_char n = (if n < 10 then char_of (48 + n) else char_of (87 + n))"

definition from_hex_char :: "char \<Rightarrow> nat option" where
  "from_hex_char c =
     (let n = of_char c :: nat in
      if 48 \<le> n \<and> n \<le> 57 then Some (n - 48)
      else if 97 \<le> n \<and> n \<le> 102 then Some (n - 87)
      else if 65 \<le> n \<and> n \<le> 70 then Some (n - 55)
      else None)"

fun hex_EncodeToString :: "bytes \<Rightarrow> string" where
  "hex_EncodeToString [] = []"
| "hex_EncodeToString (b # bs) =
     hex_char (unat b div 16) # hex_char (unat b mod 16) # hex_EncodeToString bs"

text \<open>
  \<^verbatim>\<open>hex.DecodeString\<close> returns the bytes decoded before an error together with the error; the
  second component is True when there was none.
\<close>

fun hex_DecodeString :: "string \<Rightarrow> bytes \<times> bool" where
  "hex_DecodeString [] = ([], True)"
| "hex_DecodeString [p] = ([], False)"
| "hex_DecodeString (p # q # rest) =
     (case (from_hex_char p, from_hex_char q) of
        (Some a, Some b) \<Rightarrow>
          (let (ds, ok) = hex_DecodeString rest in (word_of_nat (16 * a + b) # ds, ok))
      | _ \<Rightarrow> ([], False))"

lemma from_hex_hex_char [simp]: "n < 16 \<Longrightarrow> from_hex_char (hex_char n) = Some n"
  by (auto simp: from_hex_char_def hex_char_def Let_def)

lemma from_hex_char_less: "from_hex_char c = Some n \<Longrightarrow> n < 16"
  by (auto simp: from_hex_char_def Let_def split: if_splits)

lemma unat_byte_less [simp]: "unat (b :: byte) < 256"
proof -
  have "unat b < 2 ^ LENGTH(8)" by (rule unsigned_less)
  then show ?thesis by simp
qed

lemma unat_byte_div_less [simp]: "unat (b :: byte) div 16 < 16"
  using unat_byte_less [of b] by (simp add: less_mult_imp_div_less del: unat_byte_less)

lemma hex_DecodeString_EncodeToString [simp]:
  "hex_DecodeString (hex_EncodeToString bs) = (bs, True)"
proof (induction bs)
  case (Cons b bs)
  have "16 * (unat b div 16) + unat b mod 16 = unat b"
    by simp
  then have "(word_of_nat (16 * (unat b div 16) + unat b mod 16) :: byte) = b"
    by simp
  with Cons show ?case by simp
qed simp

lemma length_hex_EncodeToString [simp]: "length (hex_EncodeToString bs) = 2 * length bs"
  by (induction bs) auto

lemma hex_EncodeToString_inj [simp]: "hex_EncodeToString bs = hex_EncodeToString cs \<longleftrightarrow> bs = cs"
  by (metis hex_DecodeString_EncodeToString prod.inject)

text \<open>The characters \<^verbatim>\<open>hex.EncodeToString\<close> produces: digits and lower-case letters.\<close>

definition is_lower_hex :: "char \<Rightarrow> bool" where
  "is_lower_hex c \<longleftrightarrow>
     (let n = of_char c :: nat in (48 \<le> n \<and> n \<le> 57) \<or> (97 \<le> n \<and> n \<le> 102))"

lemma is_lower_hex_hex_char [simp]: "n < 16 \<Longrightarrow> is_lower_hex (hex_char n)"
  by (auto simp: is_lower_hex_def hex_char_def Let_def)

lemma hex_EncodeToString_lower: "list_all is_lower_hex (hex_EncodeToString bs)"
  by (induction bs) auto

section \<open>Package strings\<close>

record unicode_env =
  uToLower :: "string \<Rightarrow> string"
  uToUpper :: "string \<Rightarrow> string"
  uEqualFold :: "string \<Rightarrow> string \<Rightarrow> bool"

definition ascii_lower :: "char \<Rightarrow> char" where
  "ascii_lower c =
     (let n = of_char c :: nat in if 65 \<le> n \<and> n \<le> 90 then char_of (n + 32) else c)"

definition ascii_upper :: "char \<Rightarrow> char" where
  "ascii_upper c =
     (let n = of_char c :: nat in if 97 \<le> n \<and> n \<le> 122 then char_of (n - 32) else c)"

definition ToLower :: "'e unicode_env_scheme \<Rightarrow> string \<Rightarrow> string" where
  "ToLower E s = (if is_ascii s then map ascii_lower s else uToLower E s)"

definition ToUpper :: "'e unicode_env_scheme \<Rightarrow> string \<Rightarrow> string" where
  "ToUpper E s = (if is_ascii s then map ascii_upper s else uToUpper E s)"

definition EqualFold :: "'e unicode_env_scheme \<Rightarrow> string \<Rightarrow> string \<Rightarrow> bool" where
  "EqualFold E s t =
     (if is_ascii s \<and> is_ascii t then map ascii_lower s = map ascii_lower t
      else uEqualFold E s t)"

text \<open>
  White space: the ASCII characters TAB, LF, VT, FF, CR and SPACE, and the UTF-8 encodings of
  U+0085, U+00A0, U+1680, U+2000 to U+200A, U+2028, U+2029, U+202F, U+205F and U+3000.
\<close>

definition space_seqs :: "string list" where
  "space_seqs =
     [[CHR 0x09], [CHR 0x0A], [CHR 0x0B], [CHR 0x0C], [CHR 0x0D], [CHR 0x20],
      [CHR 0xC2, CHR 0x85], [CHR 0xC2, CHR 0xA0], [CHR 0xE1, CHR 0x9A, CHR 0x80],
      [CHR 0xE2, CHR 0x81, CHR 0x9F], [CHR 0xE3, CHR 0x80, CHR 0x80]]
     @ map (\<lambda>c. [CHR 0xE2, CHR 0x80, c])
         [CHR 0x80, CHR 0x81, CHR 0x82, CHR 0x83, CHR 0x84, CHR 0x85, CHR 0x86, CHR 0x87, CHR 0x88,
          CHR 0x89, CHR 0x8A, CHR 0xA8, CHR 0xA9, CHR 0xAF]"

fun strip_prefix :: "string \<Rightarrow> string \<Rightarrow> string option" where
  "strip_prefix [] s = Some s"
| "strip_prefix (p # ps) [] = None"
| "strip_prefix (p # ps) (c # cs) = (if p = c then strip_prefix ps cs else None)"

fun strip_any :: "string list \<Rightarrow> string \<Rightarrow> string option" where
  "strip_any [] s = None"
| "strip_any (q # qs) s =
     (case strip_prefix q s of Some r \<Rightarrow> Some r | None \<Rightarrow> strip_any qs s)"

lemma strip_prefix_Some: "strip_prefix p s = Some r \<longleftrightarrow> s = p @ r"
  by (induction p s rule: strip_prefix.induct) auto

lemma strip_any_Some:
  "strip_any qs s = Some r \<Longrightarrow> \<exists>q \<in> set qs. s = q @ r"
  by (induction qs) (auto simp: strip_prefix_Some split: option.splits)

text \<open>
  \<open>trim_left qs\<close> removes sequences of \<open>qs\<close> from the front as long as there is one.  The guard on
  \<open>[]\<close> only keeps the definition total for a list that holds the empty sequence.
\<close>

function trim_left :: "string list \<Rightarrow> string \<Rightarrow> string" where
  "trim_left qs s =
     (case strip_any (filter (\<lambda>q. q \<noteq> []) qs) s of None \<Rightarrow> s | Some r \<Rightarrow> trim_left qs r)"
  by pat_completeness auto
termination
  by (relation "measure (\<lambda>(qs, s). length s)") (auto dest!: strip_any_Some)

declare trim_left.simps [simp del]

definition TrimSpace :: "string \<Rightarrow> string" where
  "TrimSpace s = rev (trim_left (map rev space_seqs) (rev (trim_left space_seqs s)))"

definition TrimRight :: "string \<Rightarrow> string \<Rightarrow> string" where
  "TrimRight s cs = rev (dropWhile (\<lambda>c. c \<in> set cs) (rev s))"

definition Trim :: "string \<Rightarrow> string \<Rightarrow> string" where
  "Trim s cs = TrimRight (dropWhile (\<lambda>c. c \<in> set cs) s) cs"

definition HasPrefix :: "string \<Rightarrow> string \<Rightarrow> bool" where
  "HasPrefix s p = (strip_prefix p s \<noteq> None)"

definition TrimPrefix :: "string \<Rightarrow> string \<Rightarrow> string" where
  "TrimPrefix s p = (case strip_prefix p s of None \<Rightarrow> s | Some r \<Rightarrow> r)"

fun Contains :: "string \<Rightarrow> string \<Rightarrow> bool" where
  "Contains [] sub = (sub = [])"
| "Contains (c # cs) sub = (HasPrefix (c # cs) sub \<or> Contains cs sub)"

fun Split :: "string \<Rightarrow> char \<Rightarrow> string list" where
  "Split [] sep = [[]]"
| "Split (c # cs) sep =
     (if c = sep then [] # Split cs sep
      else (case Split cs sep of [] \<Rightarrow> [[c]] | p # ps \<Rightarrow> (c # p) # ps))"

lemma Split_nonempty [simp]: "Split s sep \<noteq> []"
  by (induction s) (auto split: list.splits)

lemma Split_no_sep: "sep \<notin> set s \<Longrightarrow> Split s sep = [s]"
  by (induction s) auto

lemma Split_append_sep:
  "sep \<notin> set s \<Longrightarrow> Split (s @ sep # t) sep = s # Split t sep"
  by (induction s) auto

lemma Split_pieces_no_sep: "p \<in> set (Split s sep) \<Longrightarrow> sep \<notin> set p"
proof (induction s arbitrary: p)
  case (Cons c cs)
  obtain q qs where q: "Split cs sep = q # qs"
    using Split_nonempty by (meson list.exhaust)
  with Cons show ?case by (cases "c = sep") auto
qed simp

section \<open>TrimSpace on strings without white space\<close>

definition no_space :: "char \<Rightarrow> bool" where
  "no_space c \<longleftrightarrow> (of_char c :: nat) < 128 \<and> 32 < (of_char c :: nat)"

lemma space_seqs_facts:
  "list_all (\<lambda>q. q \<noteq> [] \<and> \<not> no_space (hd q)) space_seqs"
  "list_all (\<lambda>q. q \<noteq> [] \<and> \<not> no_space (hd q)) (map rev space_seqs)"
  by (simp_all add: space_seqs_def no_space_def)

lemma strip_any_no_space:
  "list_all (\<lambda>q. q \<noteq> [] \<and> \<not> no_space (hd q)) qs \<Longrightarrow> no_space c \<Longrightarrow> strip_any qs (c # s) = None"
proof (induction qs)
  case (Cons q qs)
  then obtain d ds where "q = d # ds" by (cases q) auto
  with Cons show ?case by (auto)
qed simp

lemma strip_any_Nil: "list_all (\<lambda>q. q \<noteq> [] \<and> P q) qs \<Longrightarrow> strip_any qs [] = None"
proof (induction qs)
  case (Cons q qs)
  then show ?case by (cases q) auto
qed simp

lemma trim_left_no_space:
  assumes "list_all (\<lambda>q. q \<noteq> [] \<and> \<not> no_space (hd q)) qs" and "s = [] \<or> no_space (hd s)"
  shows "trim_left qs s = s"
proof -
  have f: "filter (\<lambda>q. q \<noteq> []) qs = qs"
    using assms(1) by (auto simp: list_all_iff intro: filter_True)
  show ?thesis
    using assms strip_any_no_space [OF assms(1)] strip_any_Nil [of "\<lambda>q. \<not> no_space (hd q)" qs]
    by (cases s) (auto simp: trim_left.simps [of qs] f)
qed

lemma TrimSpace_id:
  assumes "s = [] \<or> (no_space (hd s) \<and> no_space (last s))"
  shows "TrimSpace s = s"
proof -
  have l: "trim_left space_seqs s = s"
    using assms by (intro trim_left_no_space [OF space_seqs_facts(1)]) auto
  have r: "trim_left (map rev space_seqs) (rev s) = rev s"
    using assms by (intro trim_left_no_space [OF space_seqs_facts(2)]) (auto simp: hd_rev)
  show ?thesis by (simp add: TrimSpace_def l r)
qed

lemma TrimSpace_all_no_space: "list_all no_space s \<Longrightarrow> TrimSpace s = s"
  by (rule TrimSpace_id) (cases s; auto simp: list_all_iff)

lemma is_lower_hex_no_space: "is_lower_hex c \<Longrightarrow> no_space c"
  by (auto simp: is_lower_hex_def no_space_def Let_def)

lemma ToLower_lower_hex: "list_all is_lower_hex s \<Longrightarrow> ToLower E s = s"
proof -
  assume "list_all is_lower_hex s"
  then have a: "is_ascii s" and m: "map ascii_lower s = s"
    by (auto simp: is_ascii_def list_all_iff is_lower_hex_def ascii_lower_def Let_def
        intro!: map_idI)
  then show ?thesis by (simp add: ToLower_def)
qed

lemma norm_hex_id [simp]:
  "ToLower E (TrimSpace (hex_EncodeToString bs)) = hex_EncodeToString bs"
proof -
  have "TrimSpace (hex_EncodeToString bs) = hex_EncodeToString bs"
    using hex_EncodeToString_lower [of bs]
    by (intro TrimSpace_all_no_space) (auto simp: list_all_iff dest: is_lower_hex_no_space)
  then show ?thesis by (simp add: ToLower_lower_hex hex_EncodeToString_lower)
qed

section \<open>TrimSpace gives a normal form\<close>

lemma trim_left_stuck: "strip_any (filter (\<lambda>q. q \<noteq> []) qs) (trim_left qs s) = None"
  by (induction qs s rule: trim_left.induct)
    (subst trim_left.simps, simp split: option.splits)

lemma trim_left_id: "strip_any (filter (\<lambda>q. q \<noteq> []) qs) s = None \<Longrightarrow> trim_left qs s = s"
  by (simp add: trim_left.simps)

lemma strip_any_None_prefix: "strip_any qs (a @ b) = None \<Longrightarrow> strip_any qs a = None"
proof (induction qs)
  case (Cons q qs)
  then have "strip_prefix q (a @ b) = None" "strip_any qs (a @ b) = None"
    by (auto split: option.splits)
  moreover from this(1) have "strip_prefix q a = None"
    using strip_prefix_Some [of q a] strip_prefix_Some [of q "a @ b"]
    by (cases "strip_prefix q a") fastforce+
  ultimately show ?case using Cons.IH by simp
qed simp

lemma trim_left_suffix: "\<exists>p. s = p @ trim_left qs s"
proof (induction qs s rule: trim_left.induct)
  case (1 qs s)
  show ?case
  proof (cases "strip_any (filter (\<lambda>q. q \<noteq> []) qs) s")
    case (Some r)
    then obtain q where q: "s = q @ r" by (auto dest: strip_any_Some)
    from 1 [OF Some] obtain p where "r = p @ trim_left qs r" by blast
    with q Some show ?thesis by (subst trim_left.simps) (metis append_assoc option.simps(5))
  qed (simp add: trim_left_id)
qed

lemma TrimSpace_idem [simp]: "TrimSpace (TrimSpace s) = TrimSpace s"
proof -
  let ?l = "trim_left space_seqs s" and ?r = "trim_left (map rev space_seqs) (rev (trim_left space_seqs s))"
  obtain p where "rev ?l = p @ ?r" using trim_left_suffix by blast
  then have "?l = rev ?r @ rev p" by (metis rev_append rev_rev_ident)
  with trim_left_stuck [of space_seqs s]
  have "strip_any (filter (\<lambda>q. q \<noteq> []) space_seqs) (rev ?r) = None"
    by (metis strip_any_None_prefix)
  then have "trim_left space_seqs (rev ?r) = rev ?r" by (rule trim_left_id)
  moreover have "trim_left (map rev space_seqs) ?r = ?r" by (rule trim_left_id) (rule trim_left_stuck)
  ultimately show ?thesis by (simp add: TrimSpace_def)
qed

end
