(* ===== verification/Kad_ID.thy ===== *)
theory Kad_ID
  imports Go_Strings
begin

text \<open>
  \<^verbatim>\<open>src/kademlia/kademliaid.go\<close>.  A \<open>KademliaID\<close> is Go's \<^verbatim>\<open>[32]byte\<close>: the type of byte lists of
  length 32, so the length is no hypothesis anywhere.  The operations are the code's byte loops; the
  lemmas relate them to the 256-bit number the bytes spell (\<open>id_num\<close>): \<open>Less\<close> is the order of the
  numbers, \<open>CalcDistance\<close> their exclusive or, which is a metric.  SHA-256 is the parameter
  \<open>sha256\<close> of the two constructors that hash.  A nil \<^verbatim>\<open>*KademliaID\<close> is \<open>None\<close>.
\<close>

definition IDLength :: nat where
  "IDLength = 32"

typedef KademliaID = "{bs :: bytes. length bs = IDLength}"
  morphisms id_bytes Abs_KademliaID
  by (rule exI [of _ "replicate IDLength 0"]) simp

declare id_bytes_inverse [code abstype]

lemma length_id_bytes [simp]: "length (id_bytes x) = IDLength"
  using id_bytes [of x] by simp

lemma id_bytes_inject_iff [simp]: "id_bytes x = id_bytes y \<longleftrightarrow> x = y"
  by (rule id_bytes_inject)

text \<open>
  \<^verbatim>\<open>copy(id[:], bs)\<close> into a zeroed array: at most 32 bytes are copied, the rest stays 0.
\<close>

definition mk_id :: "bytes \<Rightarrow> KademliaID" where
  "mk_id bs = Abs_KademliaID (take IDLength (bs @ replicate IDLength 0))"

lemma id_bytes_mk_id [simp, code abstract]:
  "id_bytes (mk_id bs) = take IDLength (bs @ replicate IDLength 0)"
  unfolding mk_id_def by (rule Abs_KademliaID_inverse) simp

definition NewKademliaID :: "string \<Rightarrow> KademliaID" where
  "NewKademliaID data = mk_id (fst (hex_DecodeString data))"

text \<open>The 32 values \<^verbatim>\<open>rand.Intn(256)\<close> draws are the argument.\<close>

definition NewRandomKademliaID :: "(nat \<Rightarrow> byte) \<Rightarrow> KademliaID" where
  "NewRandomKademliaID draw = mk_id (map draw [0..<IDLength])"

definition NewKademliaIDFromAddress :: "(bytes \<Rightarrow> KademliaID) \<Rightarrow> string \<Rightarrow> KademliaID" where
  "NewKademliaIDFromAddress sha256 addr = sha256 (bytes_of_string addr)"

definition NewKademliaIDFromData :: "(bytes \<Rightarrow> KademliaID) \<Rightarrow> bytes \<Rightarrow> KademliaID" where
  "NewKademliaIDFromData sha256 data = sha256 data"

fun bytes_Less :: "bytes \<Rightarrow> bytes \<Rightarrow> bool" where
  "bytes_Less (a # as) (b # bs) = (if a \<noteq> b then a < b else bytes_Less as bs)"
| "bytes_Less _ _ = False"

definition KademliaID_Less :: "KademliaID \<Rightarrow> KademliaID \<Rightarrow> bool" where
  "KademliaID_Less x y = bytes_Less (id_bytes x) (id_bytes y)"

fun bytes_Equals :: "bytes \<Rightarrow> bytes \<Rightarrow> bool" where
  "bytes_Equals (a # as) (b # bs) = (if a \<noteq> b then False else bytes_Equals as bs)"
| "bytes_Equals _ _ = True"

definition KademliaID_Equals :: "KademliaID \<Rightarrow> KademliaID \<Rightarrow> bool" where
  "KademliaID_Equals x y = bytes_Equals (id_bytes x) (id_bytes y)"

definition KademliaID_CalcDistance :: "KademliaID \<Rightarrow> KademliaID \<Rightarrow> KademliaID" where
  "KademliaID_CalcDistance x target =
     Abs_KademliaID (map2 (XOR) (id_bytes x) (id_bytes target))"

lemma id_bytes_CalcDistance [simp, code abstract]:
  "id_bytes (KademliaID_CalcDistance x y) = map2 (XOR) (id_bytes x) (id_bytes y)"
  unfolding KademliaID_CalcDistance_def by (rule Abs_KademliaID_inverse) simp

definition KademliaID_String :: "KademliaID \<Rightarrow> string" where
  "KademliaID_String x = hex_EncodeToString (id_bytes x)"

text \<open>
  Method calls through pointers: the receiver (a value receiver, so the call dereferences it) and
  the argument must both be non-nil.
\<close>

definition Equals_ptr :: "KademliaID option \<Rightarrow> KademliaID option \<Rightarrow> bool option" where
  "Equals_ptr x y = (case (x, y) of (Some a, Some b) \<Rightarrow> Some (KademliaID_Equals a b) | _ \<Rightarrow> None)"

definition Less_ptr :: "KademliaID option \<Rightarrow> KademliaID option \<Rightarrow> bool option" where
  "Less_ptr x y = (case (x, y) of (Some a, Some b) \<Rightarrow> Some (KademliaID_Less a b) | _ \<Rightarrow> None)"

definition CalcDistance_ptr ::
  "KademliaID option \<Rightarrow> KademliaID option \<Rightarrow> KademliaID option" where
  "CalcDistance_ptr x y =
     (case (x, y) of (Some a, Some b) \<Rightarrow> Some (KademliaID_CalcDistance a b) | _ \<Rightarrow> None)"

section \<open>The number the bytes spell\<close>

fun be_nat :: "bytes \<Rightarrow> nat" where
  "be_nat [] = 0"
| "be_nat (b # bs) = unat b * 256 ^ length bs + be_nat bs"

definition id_num :: "KademliaID \<Rightarrow> nat" where
  "id_num x = be_nat (id_bytes x)"

lemma be_nat_less: "be_nat bs < 256 ^ length bs"
proof (induction bs)
  case (Cons b bs)
  have "unat b + 1 \<le> 256" using unat_byte_less [of b] by linarith
  have "be_nat (b # bs) < (unat b + 1) * 256 ^ length bs"
    using Cons by (simp add: algebra_simps)
  also have "\<dots> \<le> 256 * 256 ^ length bs"
    using \<open>unat b + 1 \<le> 256\<close> by (rule mult_le_mono1)
  finally show ?case by simp
qed simp

lemma be_nat_lex:
  assumes "length as = length bs" and "unat a < unat b"
  shows "be_nat (a # as) < be_nat (b # bs)"
proof -
  have "be_nat (a # as) < (unat a + 1) * 256 ^ length as"
    using be_nat_less [of as] by (simp add: algebra_simps)
  also have "\<dots> \<le> unat b * 256 ^ length as"
    using assms(2) by (intro mult_le_mono1) simp
  also have "\<dots> \<le> be_nat (b # bs)" using assms(1) by simp
  finally show ?thesis .
qed

lemma bytes_Less_be_nat:
  "length as = length bs \<Longrightarrow> bytes_Less as bs \<longleftrightarrow> be_nat as < be_nat bs"
proof (induction as bs rule: list_induct2)
  case (Cons a as b bs)
  show ?case
  proof (cases "a = b")
    case False
    then have "unat a < unat b \<or> unat b < unat a"
      by (metis linorder_neqE_nat word_unat_eq_iff)
    with False Cons.hyps show ?thesis
      using be_nat_lex [of as bs a b] be_nat_lex [of bs as b a]
      by (auto simp del: be_nat.simps simp add: word_less_nat_alt)
  qed (use Cons in simp)
qed simp

lemma bytes_Equals_eq: "length as = length bs \<Longrightarrow> bytes_Equals as bs \<longleftrightarrow> as = bs"
  by (induction as bs rule: list_induct2) auto

lemma be_nat_inj: "length as = length bs \<Longrightarrow> be_nat as = be_nat bs \<longleftrightarrow> as = bs"
proof (induction as bs rule: list_induct2)
  case (Cons a as b bs)
  show ?case
  proof (cases "a = b")
    case False
    then have "unat a < unat b \<or> unat b < unat a"
      by (metis linorder_neqE_nat word_unat_eq_iff)
    with False Cons.hyps show ?thesis
      using be_nat_lex [of as bs a b] be_nat_lex [of bs as b a]
      by (auto simp del: be_nat.simps)
  qed (use Cons in simp)
qed simp

lemma KademliaID_Equals_iff [simp]: "KademliaID_Equals x y \<longleftrightarrow> x = y"
  by (simp add: KademliaID_Equals_def bytes_Equals_eq)

lemma KademliaID_Less_num: "KademliaID_Less x y \<longleftrightarrow> id_num x < id_num y"
  by (simp add: KademliaID_Less_def id_num_def bytes_Less_be_nat)

lemma id_num_inj [simp]: "id_num x = id_num y \<longleftrightarrow> x = y"
  by (simp add: id_num_def be_nat_inj)

lemma id_num_bound: "id_num x < 2 ^ 256"
  using be_nat_less [of "id_bytes x"] by (simp add: id_num_def IDLength_def)

instantiation KademliaID :: linorder
begin

definition less_KademliaID :: "KademliaID \<Rightarrow> KademliaID \<Rightarrow> bool" where
  "less_KademliaID = KademliaID_Less"

definition less_eq_KademliaID :: "KademliaID \<Rightarrow> KademliaID \<Rightarrow> bool" where
  "less_eq_KademliaID x y \<longleftrightarrow> x = y \<or> KademliaID_Less x y"

instance
  by standard (auto simp: less_KademliaID_def less_eq_KademliaID_def KademliaID_Less_num)

end

instantiation KademliaID :: equal
begin

definition equal_KademliaID :: "KademliaID \<Rightarrow> KademliaID \<Rightarrow> bool" where
  "equal_KademliaID x y \<longleftrightarrow> id_bytes x = id_bytes y"

instance
  by standard (simp add: equal_KademliaID_def)

end

instance KademliaID :: finite
proof
  have "finite {bs :: bytes. set bs \<subseteq> UNIV \<and> length bs = IDLength}"
    by (rule finite_lists_length_eq) simp
  then have "finite (range id_bytes)"
    by (rule rev_finite_subset) auto
  moreover have "inj id_bytes" by (simp add: inj_on_def)
  ultimately show "finite (UNIV :: KademliaID set)"
    by (rule finite_imageD)
qed

lemma less_id_num: "x < y \<longleftrightarrow> id_num x < id_num y" for x y :: KademliaID
  by (simp add: less_KademliaID_def KademliaID_Less_num)

lemma le_id_num: "x \<le> y \<longleftrightarrow> id_num x \<le> id_num y" for x y :: KademliaID
  using id_num_inj [of x y] by (auto simp: less_eq_KademliaID_def KademliaID_Less_num)

section \<open>XOR distance\<close>

lemma nat_split_bits:
  assumes "lo < 2 ^ n"
  shows "take_bit n (hi * 2 ^ n + lo) = (lo :: nat)" and "drop_bit n (hi * 2 ^ n + lo) = hi"
  using assms by (simp_all add: take_bit_eq_mod drop_bit_eq_div)

lemma nat_eq_by_parts:
  fixes x y :: nat
  assumes "take_bit n x = take_bit n y" and "drop_bit n x = drop_bit n y"
  shows "x = y"
  using assms by (metis bits_ident)

lemma xor_less_exp: "x < 2 ^ n \<Longrightarrow> y < 2 ^ n \<Longrightarrow> x XOR y < (2 :: nat) ^ n"
  by (metis take_bit_nat_eq_self_iff take_bit_xor)

lemma xor_shift_add:
  fixes b d :: nat
  assumes "b < 2 ^ n" and "d < 2 ^ n"
  shows "(a * 2 ^ n + b) XOR (c * 2 ^ n + d) = (a XOR c) * 2 ^ n + (b XOR d)"
  by (rule nat_eq_by_parts [of n])
    (simp_all add: assms nat_split_bits xor_less_exp drop_bit_xor)

lemma be_nat_map2_xor:
  "length as = length bs \<Longrightarrow> be_nat (map2 (XOR) as bs) = be_nat as XOR be_nat bs"
proof (induction as bs rule: list_induct2)
  case (Cons a as b bs)
  have pw: "(256 :: nat) ^ length as = 2 ^ (8 * length as)"
    by (simp add: power_mult)
  have lo: "be_nat as < 2 ^ (8 * length as)" "be_nat bs < 2 ^ (8 * length as)"
    using be_nat_less [of as] be_nat_less [of bs] Cons.hyps pw by simp_all
  show ?case
    using Cons.IH xor_shift_add [OF lo, of "unat a" "unat b"]
    by (simp add: unsigned_xor_eq Cons.hyps pw [symmetric, unfolded Cons.hyps])
qed simp

lemma id_num_CalcDistance: "id_num (KademliaID_CalcDistance x y) = id_num x XOR id_num y"
  by (simp add: id_num_def be_nat_map2_xor)

lemma xor_le_add: "x XOR y \<le> x + (y :: nat)"
proof (induction x arbitrary: y rule: less_induct)
  case (less x)
  show ?case
  proof (cases "x = 0")
    case False
    then have "(x div 2) XOR (y div 2) \<le> x div 2 + y div 2" by (intro less) simp
    then show ?thesis by (subst xor_nat_rec) (auto simp: of_bool_def; presburger)
  qed simp
qed

lemma CalcDistance_commute: "KademliaID_CalcDistance x y = KademliaID_CalcDistance y x"
  by (simp add: id_num_inj [symmetric] id_num_CalcDistance xor.commute del: id_num_inj)

lemma CalcDistance_cancel [simp]:
  "KademliaID_CalcDistance x (KademliaID_CalcDistance x y) = y"
  by (simp add: id_num_inj [symmetric] id_num_CalcDistance xor.assoc [symmetric]
      del: id_num_inj)

lemma CalcDistance_inj_left [simp]:
  "KademliaID_CalcDistance x t = KademliaID_CalcDistance y t \<longleftrightarrow> x = y"
  by (metis CalcDistance_cancel CalcDistance_commute)

lemma CalcDistance_zero: "id_num (KademliaID_CalcDistance x y) = 0 \<longleftrightarrow> x = y"
  by (metis CalcDistance_cancel CalcDistance_commute id_num_CalcDistance id_num_inj xor_self_eq
      xor.right_neutral)

lemma CalcDistance_triangle:
  "id_num (KademliaID_CalcDistance x z)
     \<le> id_num (KademliaID_CalcDistance x y) + id_num (KademliaID_CalcDistance y z)"
proof -
  have "id_num x XOR id_num z = (id_num x XOR id_num y) XOR (id_num y XOR id_num z)"
    by (simp add: xor.assoc) (simp add: xor.assoc [symmetric])
  then show ?thesis by (simp add: id_num_CalcDistance xor_le_add)
qed

section \<open>Hexadecimal strings\<close>

lemma mk_id_id_bytes [simp]: "mk_id (id_bytes x) = x"
  by (simp flip: id_bytes_inject_iff)

lemma NewKademliaID_String [simp]: "NewKademliaID (KademliaID_String x) = x"
  by (simp add: NewKademliaID_def KademliaID_String_def)

lemma KademliaID_String_inj [simp]: "KademliaID_String x = KademliaID_String y \<longleftrightarrow> x = y"
  by (simp add: KademliaID_String_def)

lemma length_KademliaID_String [simp]: "length (KademliaID_String x) = 64"
  by (simp add: KademliaID_String_def IDLength_def)

end
