(* ===== verification/Kad_Contact.thy ===== *)
theory Kad_Contact
  imports Kad_ID
begin

text \<open>
  \<^verbatim>\<open>src/kademlia/contact.go\<close> and \<^verbatim>\<open>src/kademlia/bucket.go\<close>.  A bucket is the list of contacts of
  its \<^verbatim>\<open>container/list\<close>, front (most recently seen) first.  The methods that call through the
  \<^verbatim>\<open>ID\<close> and \<^verbatim>\<open>distance\<close> pointers may panic on nil; \<open>bucket_wf\<close> is the invariant under which they
  do not, and every operation keeps it.
\<close>

section \<open>Contacts\<close>

record Contact =
  ID :: "KademliaID option"
  Address :: string
  distance :: "KademliaID option"

definition NewContact :: "KademliaID option \<Rightarrow> string \<Rightarrow> Contact" where
  "NewContact i address = \<lparr>ID = i, Address = address, distance = None\<rparr>"

definition Contact_CalcDistance :: "Contact \<Rightarrow> KademliaID option \<Rightarrow> Contact option" where
  "Contact_CalcDistance contact target =
     (case CalcDistance_ptr (ID contact) target of
        None \<Rightarrow> None
      | Some d \<Rightarrow> Some (contact\<lparr>distance := Some d\<rparr>))"

definition Contact_Less :: "Contact \<Rightarrow> Contact \<Rightarrow> bool option" where
  "Contact_Less contact otherContact = Less_ptr (distance contact) (distance otherContact)"

text \<open>
  \<^verbatim>\<open>fmt.Sprintf\<close> with \<^verbatim>\<open>%s\<close> on a nil \<^verbatim>\<open>*KademliaID\<close> prints \<^verbatim>\<open><nil>\<close> (the panic of its String
  method on a nil receiver is caught by fmt).
\<close>

definition Contact_String :: "Contact \<Rightarrow> string" where
  "Contact_String contact =
     ''contact('' @ [CHR 0x22]
       @ (case ID contact of None \<Rightarrow> ''<nil>'' | Some i \<Rightarrow> KademliaID_String i)
       @ [CHR 0x22] @ '', '' @ [CHR 0x22] @ Address contact @ [CHR 0x22] @ '')''"

section \<open>Candidates\<close>

type_synonym ContactCandidates = "Contact list"

definition ContactCandidates_Append ::
  "ContactCandidates \<Rightarrow> Contact list \<Rightarrow> ContactCandidates" where
  "ContactCandidates_Append candidates contacts = candidates @ contacts"

text \<open>
  \<^verbatim>\<open>candidates.contacts[:count]\<close> panics for a negative count and for one beyond the capacity; a
  count between length and capacity, which no caller passes, is a panic here too.
\<close>

definition ContactCandidates_GetContacts ::
  "ContactCandidates \<Rightarrow> int \<Rightarrow> Contact list option" where
  "ContactCandidates_GetContacts candidates cnt =
     (if 0 \<le> cnt \<and> cnt \<le> int (length candidates) then Some (take (nat cnt) candidates)
      else None)"

definition ContactCandidates_Len :: "ContactCandidates \<Rightarrow> int" where
  "ContactCandidates_Len candidates = int (length candidates)"

definition ContactCandidates_Swap ::
  "ContactCandidates \<Rightarrow> nat \<Rightarrow> nat \<Rightarrow> ContactCandidates option" where
  "ContactCandidates_Swap candidates i j =
     (if i < length candidates \<and> j < length candidates
      then Some (candidates[i := candidates ! j, j := candidates ! i]) else None)"

definition ContactCandidates_Less :: "ContactCandidates \<Rightarrow> nat \<Rightarrow> nat \<Rightarrow> bool option" where
  "ContactCandidates_Less candidates i j =
     (if i < length candidates \<and> j < length candidates
      then Contact_Less (candidates ! i) (candidates ! j) else None)"

text \<open>
  \<^verbatim>\<open>sort.Sort\<close> compares every element of a slice of two or more, so a nil distance among them
  panics; the comparison below is the one it makes where both distances are there.
\<close>

definition dist_less :: "Contact \<Rightarrow> Contact \<Rightarrow> bool" where
  "dist_less a b = (Contact_Less a b = Some True)"

definition ContactCandidates_Sort :: "ContactCandidates \<Rightarrow> ContactCandidates option" where
  "ContactCandidates_Sort candidates =
     (if 2 \<le> length candidates \<and> \<not> list_all (\<lambda>c. distance c \<noteq> None) candidates then None
      else Some (go_sort dist_less candidates))"

section \<open>Buckets\<close>

type_synonym bucket = "Contact list"

definition bucketSize :: nat where
  "bucketSize = 10"

definition newBucket :: bucket where
  "newBucket = []"

text \<open>
  The loop of \<^verbatim>\<open>AddContact\<close> runs over the whole list and remembers the last match, as its index.
\<close>

fun AddContact_scan ::
  "KademliaID option \<Rightarrow> Contact list \<Rightarrow> nat \<Rightarrow> nat option \<Rightarrow> nat option option" where
  "AddContact_scan cid [] i element = Some element"
| "AddContact_scan cid (e # es) i element =
     (case Equals_ptr cid (ID e) of
        None \<Rightarrow> None
      | Some b \<Rightarrow> AddContact_scan cid es (Suc i) (if b then Some i else element))"

definition MoveToFront :: "nat \<Rightarrow> 'a list \<Rightarrow> 'a list" where
  "MoveToFront i xs = xs ! i # (take i xs @ drop (Suc i) xs)"

definition bucket_AddContact :: "bucket \<Rightarrow> Contact \<Rightarrow> (bucket \<times> bool) option" where
  "bucket_AddContact b contact =
     (case AddContact_scan (ID contact) b 0 None of
        None \<Rightarrow> None
      | Some None \<Rightarrow>
          (if length b < bucketSize then Some (contact # b, True) else Some (b, False))
      | Some (Some i) \<Rightarrow> Some (MoveToFront i b, True))"

fun RemoveContact_loop :: "KademliaID \<Rightarrow> Contact list \<Rightarrow> Contact list \<times> bool" where
  "RemoveContact_loop cid [] = ([], False)"
| "RemoveContact_loop cid (e # es) =
     (if ID e \<noteq> None \<and> Equals_ptr (Some cid) (ID e) = Some True then (es, True)
      else (let (es', r) = RemoveContact_loop cid es in (e # es', r)))"

definition bucket_RemoveContact :: "bucket \<Rightarrow> Contact \<Rightarrow> bucket \<times> bool" where
  "bucket_RemoveContact b contact =
     (case ID contact of None \<Rightarrow> (b, False) | Some cid \<Rightarrow> RemoveContact_loop cid b)"

definition bucket_GetOldestContact :: "bucket \<Rightarrow> Contact option" where
  "bucket_GetOldestContact b = (if length b = 0 then None else Some (last b))"

fun bucket_GetContactAndCalcDistance ::
  "bucket \<Rightarrow> KademliaID option \<Rightarrow> Contact list option" where
  "bucket_GetContactAndCalcDistance [] target = Some []"
| "bucket_GetContactAndCalcDistance (e # es) target =
     (case Contact_CalcDistance e target of
        None \<Rightarrow> None
      | Some c \<Rightarrow> map_option ((#) c) (bucket_GetContactAndCalcDistance es target))"

definition bucket_Len :: "bucket \<Rightarrow> nat" where
  "bucket_Len b = length b"

section \<open>Facts about contacts\<close>

abbreviation cid :: "Contact \<Rightarrow> KademliaID" where
  "cid c \<equiv> the (ID c)"

abbreviation cdist :: "Contact \<Rightarrow> KademliaID" where
  "cdist c \<equiv> the (distance c)"

text \<open>The contact with its distance to \<open>t\<close> filled in.\<close>

definition with_dist :: "KademliaID \<Rightarrow> Contact \<Rightarrow> Contact" where
  "with_dist t c = c\<lparr>distance := Some (KademliaID_CalcDistance (cid c) t)\<rparr>"

lemma with_dist_simps [simp]:
  "ID (with_dist t c) = ID c" "Address (with_dist t c) = Address c"
  "distance (with_dist t c) = Some (KademliaID_CalcDistance (cid c) t)"
  by (simp_all add: with_dist_def)

lemma Contact_CalcDistance_Some [simp]:
  "ID c \<noteq> None \<Longrightarrow> Contact_CalcDistance c (Some t) = Some (with_dist t c)"
  by (auto simp: Contact_CalcDistance_def CalcDistance_ptr_def with_dist_def)

lemma dist_less_iff:
  "distance a \<noteq> None \<Longrightarrow> distance b \<noteq> None \<Longrightarrow> dist_less a b \<longleftrightarrow> cdist a < cdist b"
  by (auto simp: dist_less_def Contact_Less_def Less_ptr_def less_KademliaID_def)

interpretation by_dist: keyed_less dist_less cdist "\<lambda>c. distance c \<noteq> None"
  by unfold_locales (rule dist_less_iff)

section \<open>The bucket invariant\<close>

definition bucket_wf :: "bucket \<Rightarrow> bool" where
  "bucket_wf b \<longleftrightarrow>
     length b \<le> bucketSize \<and> list_all (\<lambda>c. ID c \<noteq> None) b \<and> distinct (map cid b)"

lemma bucket_wf_new [simp, wf_intros]: "bucket_wf newBucket"
  by (simp add: bucket_wf_def newBucket_def)

lemma Equals_ptr_Some [simp]:
  "ID e \<noteq> None \<Longrightarrow> Equals_ptr (Some k) (ID e) = Some (cid e = k)"
  by (auto simp: Equals_ptr_def)

lemma AddContact_scan_absent:
  "list_all (\<lambda>e. ID e \<noteq> None) es \<Longrightarrow> k \<notin> cid ` set es \<Longrightarrow>
   AddContact_scan (Some k) es i el = Some el"
  by (induction es arbitrary: i el) auto

lemma AddContact_scan_present:
  "list_all (\<lambda>e. ID e \<noteq> None) (xs @ y # ys) \<Longrightarrow> cid y = k \<Longrightarrow> k \<notin> cid ` set ys \<Longrightarrow>
   AddContact_scan (Some k) (xs @ y # ys) i el = Some (Some (i + length xs))"
  by (induction xs arbitrary: i el) (auto simp: AddContact_scan_absent)

text \<open>The three outcomes of \<^verbatim>\<open>AddContact\<close> on a well-formed bucket.\<close>

lemma bucket_AddContact_new:
  assumes "bucket_wf b" and "ID c = Some k" and "k \<notin> cid ` set b"
  shows "bucket_AddContact b c =
    (if length b < bucketSize then Some (c # b, True) else Some (b, False))"
  using assms by (simp add: bucket_AddContact_def bucket_wf_def AddContact_scan_absent)

lemma bucket_AddContact_known:
  assumes "bucket_wf (xs @ y # ys)" and "ID c = Some (cid y)"
  shows "bucket_AddContact (xs @ y # ys) c = Some (y # xs @ ys, True)"
proof -
  have "AddContact_scan (Some (cid y)) (xs @ y # ys) 0 None = Some (Some (0 + length xs))"
    using assms(1) by (intro AddContact_scan_present) (auto simp: bucket_wf_def)
  then show ?thesis
    unfolding bucket_AddContact_def assms(2) by (simp add: MoveToFront_def)
qed

lemma bucket_split:
  assumes "k \<in> cid ` set b"
  obtains xs y ys where "b = xs @ y # ys" and "cid y = k"
  using assms by (metis imageE split_list)

lemma bucket_AddContact_cases [consumes 2, case_names room full known]:
  assumes "bucket_wf b" and "ID c = Some k"
  obtains
    (room) "k \<notin> cid ` set b" "length b < bucketSize"
      "bucket_AddContact b c = Some (c # b, True)"
  | (full) "k \<notin> cid ` set b" "length b = bucketSize"
      "bucket_AddContact b c = Some (b, False)"
  | (known) xs y ys where "b = xs @ y # ys" "cid y = k"
      "bucket_AddContact b c = Some (y # xs @ ys, True)"
proof (cases "k \<in> cid ` set b")
  case True
  then obtain xs y ys where "b = xs @ y # ys" and "cid y = k" by (rule bucket_split)
  with assms known show thesis by (simp add: bucket_AddContact_known)
next
  case False
  with assms show thesis
    using bucket_AddContact_new [OF assms False] room full
    by (cases "length b < bucketSize") (auto simp: bucket_wf_def)
qed

lemma bucket_AddContact_no_panic [panic_free]:
  "bucket_wf b \<Longrightarrow> ID c \<noteq> None \<Longrightarrow> \<exists>b' r. bucket_AddContact b c = Some (b', r)"
  by (auto elim!: bucket_AddContact_cases)

lemma bucket_AddContact_wf [wf_intros]:
  assumes "bucket_wf b" and "ID c \<noteq> None" and "bucket_AddContact b c = Some (b', r)"
  shows "bucket_wf b'"
proof -
  from assms(2) obtain k where k: "ID c = Some k" by auto
  with assms(1) show ?thesis
  proof (cases rule: bucket_AddContact_cases)
    case room
    with assms k show ?thesis by (auto simp: bucket_wf_def)
  next
    case full
    with assms show ?thesis by simp
  next
    case (known xs y ys)
    with assms show ?thesis by (auto simp: bucket_wf_def)
  qed
qed

lemma bucket_AddContact_ids:
  assumes "bucket_wf b" and "ID c = Some k" and "bucket_AddContact b c = Some (b', r)"
  shows "cid ` set b' = (if r then insert k (cid ` set b) else cid ` set b)"
    and "set b' \<subseteq> insert c (set b)" and "\<not> r \<Longrightarrow> b' = b"
    and "r \<Longrightarrow> b' \<noteq> [] \<and> cid (hd b') = k"
  using assms(1,2)
  by (cases rule: bucket_AddContact_cases; use assms(2,3) in auto)+

lemma RemoveContact_loop_filter:
  assumes "list_all (\<lambda>e. ID e \<noteq> None) b" and "distinct (map cid b)"
  shows "RemoveContact_loop k b = (filter (\<lambda>e. cid e \<noteq> k) b, k \<in> cid ` set b)"
  using assms
proof (induction b)
  case (Cons e es)
  have "filter (\<lambda>e. cid e \<noteq> k) es = es" if "k \<notin> cid ` set es"
    using that by (intro filter_True) auto
  with Cons show ?case by auto
qed simp

lemma bucket_RemoveContact_eq:
  assumes "bucket_wf b" and "ID c = Some k"
  shows "bucket_RemoveContact b c = (filter (\<lambda>e. cid e \<noteq> k) b, k \<in> cid ` set b)"
  using assms by (simp add: bucket_RemoveContact_def bucket_wf_def RemoveContact_loop_filter)

lemma bucket_filter_wf: "bucket_wf b \<Longrightarrow> bucket_wf (filter P b)"
  by (auto simp: bucket_wf_def list_all_iff intro: le_trans [OF length_filter_le])

lemma bucket_RemoveContact_wf [wf_intros]:
  "bucket_wf b \<Longrightarrow> bucket_wf (fst (bucket_RemoveContact b c))"
  by (cases "ID c")
    (simp_all add: bucket_RemoveContact_eq bucket_filter_wf, simp add: bucket_RemoveContact_def)

lemma bucket_GetContactAndCalcDistance_eq:
  "list_all (\<lambda>e. ID e \<noteq> None) b \<Longrightarrow>
   bucket_GetContactAndCalcDistance b (Some t) = Some (map (with_dist t) b)"
  by (induction b) auto

lemma ContactCandidates_Sort_eq:
  "list_all (\<lambda>c. distance c \<noteq> None) cs \<Longrightarrow>
   ContactCandidates_Sort cs = Some (go_sort dist_less cs)"
  by (simp add: ContactCandidates_Sort_def)

end
