(* ===== verification/Kad_Shortlist.thy ===== *)
theory Kad_Shortlist
  imports Kad_Contact
begin

text \<open>
  The shortlist of an iterative lookup (\<^verbatim>\<open>src/kademlia/shortlist.go\<close>): the candidates discovered so
  far, keyed by the hex form of their identifier, with their query status.  The Go code sorts the
  values of a map; the lemmas show that the order in which the map is walked does not matter.
\<close>

section \<open>Data and operations\<close>

datatype CandidateStatus = StatusUnqueried | StatusQueried | StatusUnresponsive

record Candidate =
  cand_Contact :: Contact
  cand_Status :: CandidateStatus

record Shortlist =
  sl_target :: "KademliaID option"
  sl_meID :: "KademliaID option"
  candidates :: "(string, Candidate) gomap"

definition NewShortlist :: "KademliaID option \<Rightarrow> KademliaID option \<Rightarrow> Shortlist" where
  "NewShortlist target meID = \<lparr>sl_target = target, sl_meID = meID, candidates = gm_empty\<rparr>"

text \<open>The body of the loop of \<^verbatim>\<open>Add\<close>; a \<open>None\<close> is the panic of \<^verbatim>\<open>CalcDistance\<close> on a nil target.\<close>

definition Shortlist_Add1 :: "Shortlist \<Rightarrow> Contact \<Rightarrow> Shortlist option" where
  "Shortlist_Add1 s c =
     (case ID c of
        None \<Rightarrow> Some s
      | Some i \<Rightarrow>
          if sl_meID s \<noteq> None \<and> Equals_ptr (ID c) (sl_meID s) = Some True then Some s
          else if gm_get (candidates s) (KademliaID_String i) \<noteq> None then Some s
          else map_option
            (\<lambda>c'. s\<lparr>candidates := gm_set (KademliaID_String i)
               \<lparr>cand_Contact = c', cand_Status = StatusUnqueried\<rparr> (candidates s)\<rparr>)
            (Contact_CalcDistance c (sl_target s)))"

fun Shortlist_Add :: "Shortlist \<Rightarrow> Contact list \<Rightarrow> Shortlist option" where
  "Shortlist_Add s [] = Some s"
| "Shortlist_Add s (c # cs) = Option.bind (Shortlist_Add1 s c) (\<lambda>s1. Shortlist_Add s1 cs)"

definition set_status :: "CandidateStatus \<Rightarrow> Shortlist \<Rightarrow> KademliaID option \<Rightarrow> Shortlist" where
  "set_status st s i =
     (case i of
        None \<Rightarrow> s
      | Some x \<Rightarrow>
          (case gm_get (candidates s) (KademliaID_String x) of
             None \<Rightarrow> s
           | Some cand \<Rightarrow> s\<lparr>candidates :=
               gm_set (KademliaID_String x) (cand\<lparr>cand_Status := st\<rparr>) (candidates s)\<rparr>))"

definition MarkQueried :: "Shortlist \<Rightarrow> KademliaID option \<Rightarrow> Shortlist" where
  "MarkQueried = set_status StatusQueried"

definition MarkUnresponsive :: "Shortlist \<Rightarrow> KademliaID option \<Rightarrow> Shortlist" where
  "MarkUnresponsive = set_status StatusUnresponsive"

text \<open>\<^verbatim>\<open>sort.Slice\<close> by \<^verbatim>\<open>Contact.Less\<close>; a missing distance panics as in \<^verbatim>\<open>ContactCandidates.Sort\<close>.\<close>

definition cand_less :: "Candidate \<Rightarrow> Candidate \<Rightarrow> bool" where
  "cand_less a b = dist_less (cand_Contact a) (cand_Contact b)"

definition sort_candidates :: "Candidate list \<Rightarrow> Candidate list option" where
  "sort_candidates cs =
     (if 2 \<le> length cs \<and> \<not> list_all (\<lambda>c. distance (cand_Contact c) \<noteq> None) cs then None
      else Some (go_sort cand_less cs))"

definition GetActiveCandidates :: "Shortlist \<Rightarrow> Candidate list option" where
  "GetActiveCandidates s =
     sort_candidates (filter (\<lambda>c. cand_Status c \<noteq> StatusUnresponsive) (map snd (candidates s)))"

fun unqueried_loop :: "Candidate list \<Rightarrow> int \<Rightarrow> Contact list \<Rightarrow> Contact list" where
  "unqueried_loop [] cnt result = result"
| "unqueried_loop (c # cs) cnt result =
     (if int (length result) < cnt
      then unqueried_loop cs cnt
        (if cand_Status c = StatusUnqueried then result @ [cand_Contact c] else result)
      else result)"

definition GetClosestUnqueried :: "Shortlist \<Rightarrow> int \<Rightarrow> int \<Rightarrow> Contact list option" where
  "GetClosestUnqueried s cnt withinK = do {
     active \<leftarrow> GetActiveCandidates s;
     let limit = min withinK (int (length active)) in
     Some (unqueried_loop (take (nat limit) active) cnt [])
   }"

definition HasUnqueriedInTopK :: "Shortlist \<Rightarrow> int \<Rightarrow> bool option" where
  "HasUnqueriedInTopK s k = do {
     active \<leftarrow> GetActiveCandidates s;
     let limit = min k (int (length active)) in
     Some (list_ex (\<lambda>c. cand_Status c = StatusUnqueried) (take (nat limit) active))
   }"

definition GetClosestQueried :: "Shortlist \<Rightarrow> int \<Rightarrow> Contact list option" where
  "GetClosestQueried s k = do {
     queried \<leftarrow> sort_candidates
       (filter (\<lambda>c. cand_Status c = StatusQueried) (map snd (candidates s)));
     let limit = min k (int (length queried)) in
     if limit < 0 then None else Some (map cand_Contact (take (nat limit) queried))
   }"

definition getCandidate :: "Shortlist \<Rightarrow> KademliaID option \<Rightarrow> Candidate option" where
  "getCandidate s i =
     (case i of None \<Rightarrow> None | Some x \<Rightarrow> gm_get (candidates s) (KademliaID_String x))"

definition Shortlist_Len :: "Shortlist \<Rightarrow> nat" where
  "Shortlist_Len s = gm_len (candidates s)"

section \<open>The invariant\<close>

text \<open>The entry under identifier \<open>i\<close>.\<close>

definition cand_ok :: "KademliaID \<Rightarrow> KademliaID option \<Rightarrow> string \<Rightarrow> Candidate \<Rightarrow> bool" where
  "cand_ok t m k cand \<longleftrightarrow>
     (case ID (cand_Contact cand) of
        None \<Rightarrow> False
      | Some i \<Rightarrow> k = KademliaID_String i \<and> m \<noteq> Some i \<and>
          distance (cand_Contact cand) = Some (KademliaID_CalcDistance i t))"

definition sl_wf :: "KademliaID \<Rightarrow> Shortlist \<Rightarrow> bool" where
  "sl_wf t s \<longleftrightarrow>
     sl_target s = Some t \<and> gm_wf (candidates s) \<and>
     list_all (\<lambda>(k, cand). cand_ok t (sl_meID s) k cand) (candidates s)"

abbreviation entry :: "Shortlist \<Rightarrow> KademliaID \<Rightarrow> Candidate option" where
  "entry s i \<equiv> gm_get (candidates s) (KademliaID_String i)"

lemma gm_get_in: "gm_get m k = Some v \<Longrightarrow> (k, v) \<in> set m"
  by (simp add: gm_get_def map_of_SomeD)

lemma in_gm_get: "gm_wf m \<Longrightarrow> (k, v) \<in> set m \<Longrightarrow> gm_get m k = Some v"
  by (simp add: gm_get_def gm_wf_def)

lemma set_gm_set: "gm_wf m \<Longrightarrow> set (gm_set k v m) \<subseteq> insert (k, v) (set m)"
proof
  fix e assume wf: "gm_wf m" and "e \<in> set (gm_set k v m)"
  then have "gm_get (gm_set k v m) (fst e) = Some (snd e)"
    by (intro in_gm_get gm.invar_set) auto
  then show "e \<in> insert (k, v) (set m)"
    by (cases e) (auto dest: gm_get_in split: if_splits)
qed

lemma sl_wf_update:
  assumes "sl_wf t s" and "cand_ok t (sl_meID s) k cand"
  shows "sl_wf t (s\<lparr>candidates := gm_set k cand (candidates s)\<rparr>)"
  using assms set_gm_set [of "candidates s" k cand]
  by (auto simp: sl_wf_def list_all_iff gm.invar_set)

lemma sl_wf_New [wf_intros]: "sl_wf t (NewShortlist (Some t) m)"
  by (simp add: sl_wf_def NewShortlist_def gm_empty_def gm_wf_def)

lemma sl_wf_entry: "sl_wf t s \<Longrightarrow> gm_get (candidates s) k = Some cand \<Longrightarrow> cand_ok t (sl_meID s) k cand"
  by (auto simp: sl_wf_def list_all_iff dest!: gm_get_in)

lemma cand_ok_status [simp]: "cand_ok t m k (c\<lparr>cand_Status := st\<rparr>) \<longleftrightarrow> cand_ok t m k c"
  by (cases "ID (cand_Contact c)") (simp_all add: cand_ok_def)

lemma set_status_wf [wf_intros]: "sl_wf t s \<Longrightarrow> sl_wf t (set_status st s i)"
  by (auto simp: set_status_def split: option.splits intro!: sl_wf_update dest: sl_wf_entry)

text \<open>What the operations do to the entries.\<close>

lemma set_status_entry:
  "entry (set_status st s (Some i)) j =
     (if j = i then map_option (\<lambda>c. c\<lparr>cand_Status := st\<rparr>) (entry s i) else entry s j)"
  by (auto simp: set_status_def KademliaID_String_inj split: option.splits)

lemma set_status_frame [simp]:
  "sl_target (set_status st s i) = sl_target s" "sl_meID (set_status st s i) = sl_meID s"
  by (auto simp: set_status_def split: option.splits)

lemma Equals_ptr_iff [simp]: "Equals_ptr (Some i) (Some j) = Some (i = j)"
  by (simp add: Equals_ptr_def)

lemma Shortlist_Add1_eq:
  assumes "sl_target s = Some t"
  shows "Shortlist_Add1 s c =
    Some (case ID c of
        None \<Rightarrow> s
      | Some i \<Rightarrow> if sl_meID s = Some i \<or> entry s i \<noteq> None then s
         else s\<lparr>candidates := gm_set (KademliaID_String i)
               \<lparr>cand_Contact = with_dist t c, cand_Status = StatusUnqueried\<rparr> (candidates s)\<rparr>)"
  using assms by (auto simp: Shortlist_Add1_def split: option.splits)

lemma Shortlist_Add1_wf:
  assumes "sl_wf t s"
  shows "\<exists>s'. Shortlist_Add1 s c = Some s' \<and> sl_wf t s' \<and> sl_meID s' = sl_meID s"
proof -
  have "sl_target s = Some t" using assms by (simp add: sl_wf_def)
  note Shortlist_Add1_eq [OF this, of c]
  then show ?thesis
    using assms sl_wf_update [OF assms]
    by (auto simp: cand_ok_def split: option.splits)
qed

lemma Shortlist_Add_wf [wf_intros]:
  "sl_wf t s \<Longrightarrow> \<exists>s'. Shortlist_Add s cs = Some s' \<and> sl_wf t s' \<and> sl_meID s' = sl_meID s"
proof (induction cs arbitrary: s)
  case (Cons c cs)
  obtain s1 where "Shortlist_Add1 s c = Some s1" "sl_wf t s1" "sl_meID s1 = sl_meID s"
    using Shortlist_Add1_wf [OF Cons.prems] by blast
  with Cons.IH [of s1] show ?case by auto
qed simp

text \<open>The identifiers in the shortlist, and the contact an addition files under an identifier.\<close>

definition first_with :: "KademliaID \<Rightarrow> Contact list \<Rightarrow> Contact option" where
  "first_with i cs = find (\<lambda>c. ID c = Some i) cs"

lemma first_with_simps [simp]:
  "first_with i [] = None"
  "first_with i (c # cs) = (if ID c = Some i then Some c else first_with i cs)"
  by (simp_all add: first_with_def)

lemma Shortlist_Add1_entry:
  assumes "sl_target s = Some t" and "Shortlist_Add1 s c = Some s'"
  shows "entry s' i = (if entry s i = None \<and> sl_meID s \<noteq> Some i \<and> ID c = Some i
      then Some \<lparr>cand_Contact = with_dist t c, cand_Status = StatusUnqueried\<rparr> else entry s i)"
  using assms(2) Shortlist_Add1_eq [OF assms(1), of c] by (auto split: option.splits if_splits)

lemma Shortlist_Add_entry:
  assumes "sl_wf t s" and "Shortlist_Add s cs = Some s'"
  shows "entry s' i = (if entry s i = None \<and> sl_meID s \<noteq> Some i
      then map_option (\<lambda>c. \<lparr>cand_Contact = with_dist t c, cand_Status = StatusUnqueried\<rparr>)
             (first_with i cs)
      else entry s i)"
  using assms
proof (induction cs arbitrary: s)
  case (Cons c cs)
  obtain s1 where s1: "Shortlist_Add1 s c = Some s1" "sl_wf t s1" "sl_meID s1 = sl_meID s"
    using Shortlist_Add1_wf [OF Cons.prems(1)] by blast
  then have "Shortlist_Add s1 cs = Some s'" using Cons.prems(2) by simp
  note IH = Cons.IH [OF s1(2) this]
  have "sl_target s = Some t" using Cons.prems(1) by (simp add: sl_wf_def)
  from IH Shortlist_Add1_entry [OF this s1(1), of i] s1(3) show ?case by auto
qed simp

section \<open>Sorted views\<close>

abbreviation cand_dist :: "Candidate \<Rightarrow> KademliaID" where
  "cand_dist c \<equiv> cdist (cand_Contact c)"

interpretation by_cand: keyed_less cand_less cand_dist "\<lambda>c. distance (cand_Contact c) \<noteq> None"
  by unfold_locales (simp add: cand_less_def dist_less_iff)

lemma sl_wf_dists:
  assumes "sl_wf t s"
  shows "list_all (\<lambda>c. distance (cand_Contact c) \<noteq> None) (filter P (map snd (candidates s)))"
    and "distinct (map cand_dist (filter P (map snd (candidates s))))"
proof -
  have ok: "cand_ok t (sl_meID s) k c" if "(k, c) \<in> set (candidates s)" for k c
    using assms that by (auto simp: sl_wf_def list_all_iff)
  then show "list_all (\<lambda>c. distance (cand_Contact c) \<noteq> None) (filter P (map snd (candidates s)))"
    by (fastforce simp: list_all_iff cand_ok_def split: option.splits)
  have d: "distinct (map fst (candidates s))" using assms by (simp add: sl_wf_def gm_wf_def)
  have "e = e'" if "e \<in> set (candidates s)" "e' \<in> set (candidates s)"
    "cand_dist (snd e) = cand_dist (snd e')" for e e'
  proof -
    have "fst e = fst e'"
      using ok [of "fst e" "snd e"] ok [of "fst e'" "snd e'"] that
      by (auto simp: cand_ok_def split: option.splits)
    with d that(1,2) show ?thesis by (auto simp: distinct_map inj_on_def)
  qed
  then have "distinct (map (cand_dist \<circ> snd) (candidates s))"
    using d by (auto simp: distinct_map inj_on_def)
  then have "distinct (map cand_dist (map snd (candidates s)))" by simp
  then show "distinct (map cand_dist (filter P (map snd (candidates s))))"
    by (rule distinct_map_filterI)
qed

lemma sort_candidates_eq:
  "sl_wf t s \<Longrightarrow> sort_candidates (filter P (map snd (candidates s))) =
     Some (go_sort cand_less (filter P (map snd (candidates s))))"
  using sl_wf_dists(1) by (simp add: sort_candidates_def)

definition active_list :: "Shortlist \<Rightarrow> Candidate list" where
  "active_list s =
     go_sort cand_less (filter (\<lambda>c. cand_Status c \<noteq> StatusUnresponsive) (map snd (candidates s)))"

definition queried_list :: "Shortlist \<Rightarrow> Candidate list" where
  "queried_list s =
     go_sort cand_less (filter (\<lambda>c. cand_Status c = StatusQueried) (map snd (candidates s)))"

lemma GetActiveCandidates_eq [simp]:
  "sl_wf t s \<Longrightarrow> GetActiveCandidates s = Some (active_list s)"
  by (simp add: GetActiveCandidates_def sort_candidates_eq active_list_def)

lemma unqueried_loop_eq:
  "unqueried_loop cs cnt result = (if int (length result) < cnt
     then result @ take (nat (cnt - int (length result)))
       (map cand_Contact (filter (\<lambda>c. cand_Status c = StatusUnqueried) cs))
     else result)"
  by (induction cs cnt result rule: unqueried_loop.induct)
    (auto simp: nat_diff_distrib' Suc_diff_Suc Suc_nat_eq_nat_zadd1 algebra_simps take_Cons' nat_eq_iff)

lemma GetClosestUnqueried_eq:
  assumes "sl_wf t s"
  shows "GetClosestUnqueried s cnt k = Some (take (nat cnt) (map cand_Contact
     (filter (\<lambda>c. cand_Status c = StatusUnqueried) (take (nat k) (active_list s)))))"
  using assms by (simp add: GetClosestUnqueried_def unqueried_loop_eq min_def nat_le_iff)

lemma HasUnqueriedInTopK_eq:
  assumes "sl_wf t s"
  shows "HasUnqueriedInTopK s k =
    Some (\<exists>c \<in> set (take (nat k) (active_list s)). cand_Status c = StatusUnqueried)"
  using assms by (simp add: HasUnqueriedInTopK_def min_def list_ex_iff)

lemma GetClosestQueried_eq:
  assumes "sl_wf t s" and "0 \<le> k"
  shows "GetClosestQueried s k = Some (map cand_Contact (take (nat k) (queried_list s)))"
  using assms by (simp add: GetClosestQueried_def sort_candidates_eq queried_list_def min_def)

lemma set_active_list:
  "set (active_list s) = {c \<in> snd ` set (candidates s). cand_Status c \<noteq> StatusUnresponsive}"
  by (auto simp: active_list_def)

lemma set_queried_list:
  "set (queried_list s) = {c \<in> snd ` set (candidates s). cand_Status c = StatusQueried}"
  by (auto simp: queried_list_def)

lemma active_list_strict:
  assumes "sl_wf t s"
  shows "sorted_wrt (<) (map cand_dist (active_list s))"
  using by_cand.sorted_go_sort [OF sl_wf_dists(1) [OF assms]] sl_wf_dists(2) [OF assms]
  by (intro sorted_distinct_strict) (simp_all add: active_list_def)

lemma queried_list_strict:
  assumes "sl_wf t s"
  shows "sorted_wrt (<) (map cand_dist (queried_list s))"
  using by_cand.sorted_go_sort [OF sl_wf_dists(1) [OF assms]] sl_wf_dists(2) [OF assms]
  by (intro sorted_distinct_strict) (simp_all add: queried_list_def)

text \<open>A candidate of the shortlist is filed under its own identifier.\<close>

lemma sl_wf_entry_of:
  assumes "sl_wf t s"
  shows "c \<in> snd ` set (candidates s) \<longleftrightarrow> ID (cand_Contact c) \<noteq> None \<and> entry s (cid (cand_Contact c)) = Some c"
proof
  assume "c \<in> snd ` set (candidates s)"
  then obtain k where k: "(k, c) \<in> set (candidates s)" by auto
  have "gm_wf (candidates s)" "cand_ok t (sl_meID s) k c"
    using assms k by (auto simp: sl_wf_def list_all_iff)
  with in_gm_get [OF _ k] show "ID (cand_Contact c) \<noteq> None \<and> entry s (cid (cand_Contact c)) = Some c"
    by (auto simp: cand_ok_def split: option.splits)
next
  assume "ID (cand_Contact c) \<noteq> None \<and> entry s (cid (cand_Contact c)) = Some c"
  then show "c \<in> snd ` set (candidates s)" by (force dest: gm_get_in)
qed

lemma sl_wf_entryD:
  assumes "sl_wf t s" and "entry s i = Some c"
  shows "ID (cand_Contact c) = Some i" and "cand_dist c = KademliaID_CalcDistance i t"
    and "sl_meID s \<noteq> Some i"
  using sl_wf_entry [OF assms] by (auto simp: cand_ok_def split: option.splits)

lemma sorted_wrt_take_nth:
  assumes "sorted_wrt (<) (map f xs)" and "x \<in> set (take k xs)"
  shows "card {y \<in> set xs. f y < (f x :: 'b::linorder)} < k"
proof -
  obtain i where i: "i < length xs" "i < k" "x = xs ! i"
    using assms(2) by (auto simp: in_set_conv_nth)
  have "{y \<in> set xs. f y < f x} \<subseteq> set (take i xs)"
  proof
    fix y assume "y \<in> {y \<in> set xs. f y < f x}"
    then obtain j where j: "j < length xs" "y = xs ! j" "f y < f x" by (auto simp: in_set_conv_nth)
    have "\<not> i \<le> j"
    proof
      assume "i \<le> j"
      then have "f (xs ! i) \<le> f (xs ! j)"
        using assms(1) i j by (cases "i = j") (auto simp: sorted_wrt_iff_nth_less less_imp_le)
      with i j show False by simp
    qed
    with j show "y \<in> set (take i xs)" by (simp add: in_set_takeI)
  qed
  then have "card {y \<in> set xs. f y < f x} \<le> card (set (take i xs))" by (simp add: card_mono)
  also have "\<dots> \<le> i" using card_length [of "take i xs"] by simp
  finally show ?thesis using i by simp
qed

section \<open>Properties\<close>

definition demo_sl :: Shortlist where
  "demo_sl = MarkQueried (the (Shortlist_Add (NewShortlist (Some (mk_id [])) (Some (mk_id [7])))
     (map (\<lambda>b. NewContact (Some (mk_id [b])) ''10.0.0.1:8000'') [5, 7, 1, 3, 1]))) (Some (mk_id [1]))"

lemma demo_sl_wf: "sl_wf (mk_id []) demo_sl"
proof -
  have "sl_wf (mk_id []) (NewShortlist (Some (mk_id [])) (Some (mk_id [7])))" by (rule sl_wf_New)
  from Shortlist_Add_wf [OF this] show ?thesis
    unfolding demo_sl_def MarkQueried_def by (metis option.sel set_status_wf)
qed

text \<open>
  C24. What \<^verbatim>\<open>Add\<close> does: on a well-formed shortlist it does not panic and stays well-formed; a
  contact already filed keeps its entry and its status, the local node is never filed, and every
  other identifier gets the first contact offered under it, with its distance to the target and
  the status unqueried.
\<close>

theorem Shortlist_Add_spec:
  assumes "sl_wf t s"
  shows "\<exists>s'. Shortlist_Add s cs = Some s' \<and> sl_wf t s' \<and>
    getCandidate s' (Some i) = (if getCandidate s (Some i) = None \<and> sl_meID s \<noteq> Some i
      then map_option (\<lambda>c. \<lparr>cand_Contact = c\<lparr>distance := Some (KademliaID_CalcDistance i t)\<rparr>,
             cand_Status = StatusUnqueried\<rparr>) (find (\<lambda>c. ID c = Some i) cs)
      else getCandidate s (Some i))"
proof -
  obtain s' where s': "Shortlist_Add s cs = Some s'" "sl_wf t s'"
    using Shortlist_Add_wf [OF assms] by blast
  have "with_dist t c = c\<lparr>distance := Some (KademliaID_CalcDistance i t)\<rparr>" if "first_with i cs = Some c" for c
    using that by (auto simp: first_with_def find_Some_iff with_dist_def)
  with s' Shortlist_Add_entry [OF assms s'(1), of i] show ?thesis
    by (cases "first_with i cs") (simp_all add: getCandidate_def first_with_def)
qed

theorem Shortlist_Add_spec_witness:
  "\<exists>s'. Shortlist_Add (NewShortlist (Some (mk_id [])) (Some (mk_id [7])))
       [NewContact (Some (mk_id [9])) ''a:1''] = Some s' \<and>
     map_option cand_Status (getCandidate s' (Some (mk_id [9]))) = Some StatusUnqueried"
proof -
  have "mk_id [7] \<noteq> mk_id [9]" by code_simp
  with Shortlist_Add_spec [OF sl_wf_New, of "mk_id []" "Some (mk_id [7])"
    "[NewContact (Some (mk_id [9])) ''a:1'']" "mk_id [9]"]
  show ?thesis by (auto simp: NewContact_def NewShortlist_def getCandidate_def)
qed

lemma GetClosestUnqueried_spec:
  assumes "sl_wf t s" and "0 < cnt"
  shows "\<exists>r active. GetClosestUnqueried s cnt k = Some r \<and> GetActiveCandidates s = Some active \<and>
    int (length r) \<le> cnt \<and> sorted_wrt (<) (map cdist r) \<and>
    list_all (\<lambda>c. map_option cand_Status (getCandidate s (ID c)) = Some StatusUnqueried \<and>
      int (card {a \<in> set active. cand_dist a < cdist c}) < k) r \<and>
    HasUnqueriedInTopK s k = Some (r \<noteq> [])"
proof -
  let ?f = "filter (\<lambda>c. cand_Status c = StatusUnqueried) (take (nat k) (active_list s))"
  let ?r = "take (nat cnt) (map cand_Contact ?f)"
  have "sorted_wrt (<) (map cand_dist ?f)"
    using active_list_strict [OF assms(1)]
    by (simp add: sorted_wrt_map sorted_wrt_filter sorted_wrt_take take_map [symmetric])
  then have srt: "sorted_wrt (<) (map cdist ?r)"
    by (simp add: sorted_wrt_map take_map sorted_wrt_take)
  have each: "map_option cand_Status (getCandidate s (ID c)) = Some StatusUnqueried \<and>
      int (card {a \<in> set (active_list s). cand_dist a < cdist c}) < k" if c: "c \<in> set ?r" for c
  proof -
    from c have "c \<in> set (map cand_Contact ?f)" by (rule in_set_takeD)
    then obtain a where a: "c = cand_Contact a" "a \<in> set (take (nat k) (active_list s))"
      "cand_Status a = StatusUnqueried"
      by auto
    have "a \<in> snd ` set (candidates s)" using a(2) set_active_list by (auto dest: in_set_takeD)
    then have "getCandidate s (ID c) = Some a"
      using sl_wf_entry_of [OF assms(1)] a(1) by (auto simp: getCandidate_def)
    with a sorted_wrt_take_nth [OF active_list_strict [OF assms(1)] a(2)] show ?thesis by auto
  qed
  have "HasUnqueriedInTopK s k = Some (?r \<noteq> [])"
    using assms by (auto simp: HasUnqueriedInTopK_eq filter_empty_conv)
  with each srt assms show ?thesis
    by (auto simp: GetClosestUnqueried_eq list_all_iff)
qed

lemma GetClosestQueried_spec:
  assumes "sl_wf t s" and "0 \<le> k"
  shows "\<exists>r. GetClosestQueried s k = Some r \<and>
    length r = min (nat k) (length (filter (\<lambda>c. cand_Status c = StatusQueried) (map snd (candidates s)))) \<and>
    sorted_wrt (<) (map cdist r) \<and>
    list_all (\<lambda>c. map_option cand_Status (getCandidate s (ID c)) = Some StatusQueried \<and>
      ID c \<noteq> sl_meID s \<and> distance c = Some (KademliaID_CalcDistance (cid c) t)) r \<and>
    list_all (\<lambda>d. cand_Status d \<noteq> StatusQueried \<or> cand_Contact d \<in> set r \<or>
      list_all (\<lambda>c. cdist c < cand_dist d) r) (map snd (candidates s))"
proof -
  let ?r = "map cand_Contact (take (nat k) (queried_list s))"
  have st: "sorted_wrt (<) (map cand_dist (queried_list s))" by (rule queried_list_strict [OF assms(1)])
  then have srt: "sorted_wrt (<) (map cdist ?r)"
    by (simp add: sorted_wrt_map sorted_wrt_take)
  have each: "map_option cand_Status (getCandidate s (ID c)) = Some StatusQueried \<and>
      ID c \<noteq> sl_meID s \<and> distance c = Some (KademliaID_CalcDistance (cid c) t)" if c: "c \<in> set ?r" for c
  proof -
    obtain a where a: "c = cand_Contact a" "a \<in> snd ` set (candidates s)" "cand_Status a = StatusQueried"
      using c set_queried_list [of s] by (auto dest!: in_set_takeD)
    then obtain k' where "(k', a) \<in> set (candidates s)" by auto
    then have "cand_ok t (sl_meID s) k' a" using assms(1) by (auto simp: sl_wf_def list_all_iff)
    with a sl_wf_entry_of [OF assms(1), of a] show ?thesis
      by (auto simp: getCandidate_def cand_ok_def split: option.splits)
  qed
  have out: "cand_Contact d \<in> set ?r \<or> list_all (\<lambda>c. cdist c < cand_dist d) ?r"
    if "d \<in> set (queried_list s)" for d
  proof -
    have "sorted_wrt (<) (map cand_dist (take (nat k) (queried_list s) @ drop (nat k) (queried_list s)))"
      using st by simp
    then have "\<forall>x \<in> set (take (nat k) (queried_list s)). \<forall>y \<in> set (drop (nat k) (queried_list s)).
      cand_dist x < cand_dist y"
      unfolding map_append sorted_wrt_append by simp
    moreover have "d \<in> set (take (nat k) (queried_list s)) \<union> set (drop (nat k) (queried_list s))"
      using that by (metis append_take_drop_id set_append)
    ultimately show ?thesis by (auto simp: list_all_iff)
  qed
  have "length ?r = min (nat k) (length (filter (\<lambda>c. cand_Status c = StatusQueried) (map snd (candidates s))))"
    by (simp add: queried_list_def)
  moreover have "list_all (\<lambda>d. cand_Status d \<noteq> StatusQueried \<or> cand_Contact d \<in> set ?r \<or>
      list_all (\<lambda>c. cdist c < cand_dist d) ?r) (map snd (candidates s))"
    using out set_queried_list [of s] by (simp add: list_all_iff [where xs = "map _ _"])
  ultimately show ?thesis
    unfolding GetClosestQueried_eq [OF assms]
    using srt ballI [of "set ?r", OF each]
    by (intro exI [of _ ?r] conjI) (simp_all only: list_all_iff ball_simps simp_thms)
qed



text \<open>
  C23. The answers do not depend on the order in which Go walks the candidate map: shortlists with
  the same entries in any order choose the same probes, stop at the same time and return the same
  contacts.
\<close>

theorem Shortlist_map_order:
  assumes "sl_wf t s" and "mset xs = mset (candidates s)"
  shows "GetActiveCandidates (s\<lparr>candidates := xs\<rparr>) = GetActiveCandidates s \<and>
    GetClosestUnqueried (s\<lparr>candidates := xs\<rparr>) cnt k = GetClosestUnqueried s cnt k \<and>
    HasUnqueriedInTopK (s\<lparr>candidates := xs\<rparr>) k = HasUnqueriedInTopK s k \<and>
    GetClosestQueried (s\<lparr>candidates := xs\<rparr>) k = GetClosestQueried s k"
proof -
  have "gm_wf xs" "set xs = set (candidates s)"
    using assms mset_eq_setD [OF assms(2)] mset_eq_imp_distinct_iff [of "map fst xs" "map fst (candidates s)"]
    by (auto simp: sl_wf_def gm_wf_def)
  then have wf: "sl_wf t (s\<lparr>candidates := xs\<rparr>)" using assms(1) by (simp add: sl_wf_def list_all_iff)
  have m: "mset (filter P (map snd xs)) = mset (filter P (map snd (candidates s)))" for P
    using assms(2) by (simp add: mset_filter)
  have srt: "go_sort cand_less (filter P (map snd xs)) = go_sort cand_less (filter P (map snd (candidates s)))" for P
    by (rule by_cand.go_sort_perm [OF sl_wf_dists [OF assms(1)] m])
  have "sort_candidates (filter P (map snd xs)) = sort_candidates (filter P (map snd (candidates s)))" for P
    using sort_candidates_eq [OF assms(1)] sort_candidates_eq [OF wf] srt by simp
  then have "GetActiveCandidates (s\<lparr>candidates := xs\<rparr>) = GetActiveCandidates s"
    and "GetClosestQueried (s\<lparr>candidates := xs\<rparr>) k = GetClosestQueried s k"
    by (simp_all add: GetActiveCandidates_def GetClosestQueried_def)
  then show ?thesis by (simp add: GetClosestUnqueried_def HasUnqueriedInTopK_def)
qed

theorem Shortlist_map_order_witness:
  "GetClosestUnqueried (demo_sl\<lparr>candidates := rev (candidates demo_sl)\<rparr>) 3 10 =
     GetClosestUnqueried demo_sl 3 10"
  using Shortlist_map_order [OF demo_sl_wf, of "rev (candidates demo_sl)" 3 10] by simp

end
