(* ===== verification/Reg_Version.thy ===== *)
theory Reg_Version
  imports Go_Strings
begin

text \<open>
  The errors of the package \<^verbatim>\<open>registry\<close> and \<^verbatim>\<open>src/registry/version.go\<close>: parsing, printing and
  comparing versions.  The three numbers are 64-bit words, so the range check of
  \<^verbatim>\<open>strconv.ParseUint\<close> is part of the model.
\<close>

section \<open>Errors\<close>

text \<open>
  An error is the sentinel that \<^verbatim>\<open>errors.Is\<close> finds in it (the operand of the outermost \<^verbatim>\<open>%w\<close>, or of
  the error wrapped by it); the text around it is not modelled.  \<open>ErrText\<close> is an error made by
  \<^verbatim>\<open>errors.New\<close> in place, \<open>ErrJSON\<close> one that \<^verbatim>\<open>encoding/json\<close> returned.
\<close>

datatype reg_error =
    ErrInvalidVersion
  | ErrSignatureVerificationFailed
  | ErrInvalidEncoding
  | ErrEmptyDomain
  | ErrDomainNotFound
  | ErrNoOwnerKeyRecord
  | ErrInvalidOwnerKey
  | ErrInvalidDomain
  | ErrInvalidPackageName
  | ErrInvalidRecordTag
  | ErrInvalidBlobHash
  | ErrInvalidRecordHash
  | ErrMissingSignature
  | ErrDomainMismatch
  | ErrUnauthorized
  | ErrVersionRollback
  | ErrHistoryFork
  | ErrMissingVersionRecord
  | ErrCorruptRecord
  | ErrInvalidHistoryChain
  | ErrNoDNSResolver
  | ErrInvalidLatestPointer
  | ErrText string
  | ErrJSON

text \<open>Results and their sequencing: the first error is returned.\<close>

type_synonym 'a result = "reg_error + 'a"

definition err_bind :: "'e + 'a \<Rightarrow> ('a \<Rightarrow> 'e + 'b) \<Rightarrow> 'e + 'b" where
  "err_bind r f = (case r of Inl e \<Rightarrow> Inl e | Inr x \<Rightarrow> f x)"

definition check :: "bool \<Rightarrow> 'e \<Rightarrow> 'e + unit" where
  "check ok e = (if ok then Inr () else Inl e)"

text \<open>Wrapping: the error \<open>e\<close> in place of whatever error there was.\<close>

definition wrap :: "'e \<Rightarrow> 'e + 'a \<Rightarrow> 'e + 'a" where
  "wrap e r = (case r of Inl _ \<Rightarrow> Inl e | Inr x \<Rightarrow> Inr x)"

lemma err_bind_simps [simp]: "err_bind (Inl e) f = Inl e" "err_bind (Inr x) f = f x"
  by (simp_all add: err_bind_def)

lemma err_bind_Inr [simp]: "err_bind r f = Inr y \<longleftrightarrow> (\<exists>x. r = Inr x \<and> f x = Inr y)"
  by (cases r) auto

lemma check_Inr [simp]: "check ok e = Inr u \<longleftrightarrow> ok"
  by (simp add: check_def)

lemma check_simps [simp]: "check True e = Inr ()" "check False e = Inl e"
  by (simp_all add: check_def)

lemma wrap_simps [simp]: "wrap e (Inl e') = Inl e" "wrap e (Inr x) = Inr x"
  by (simp_all add: wrap_def)

lemma wrap_Inr [simp]: "wrap e r = Inr x \<longleftrightarrow> r = Inr x"
  by (cases r) auto

section \<open>Decimal numbers\<close>

definition is_digit :: "char \<Rightarrow> bool" where
  "is_digit c \<longleftrightarrow> 48 \<le> (of_char c :: nat) \<and> (of_char c :: nat) \<le> 57"

definition dec_val :: "string \<Rightarrow> nat" where
  "dec_val s = foldl (\<lambda>n c. 10 * n + (of_char c - 48)) 0 s"

text \<open>\<^verbatim>\<open>strconv.ParseUint(s, 10, 64)\<close>: an empty string, a non-digit or a value out of range fail.\<close>

definition ParseUint :: "string \<Rightarrow> 64 word option" where
  "ParseUint s =
     (if s = [] \<or> \<not> list_all is_digit s \<or> 2 ^ 64 \<le> dec_val s then None
      else Some (word_of_nat (dec_val s)))"

text \<open>\<^verbatim>\<open>%d\<close> of \<^verbatim>\<open>fmt\<close> on an unsigned number.\<close>

fun dec :: "nat \<Rightarrow> string" where
  "dec n = (if n < 10 then [char_of (48 + n)] else dec (n div 10) @ [char_of (48 + n mod 10)])"

declare dec.simps [simp del]

text \<open>
  \<^verbatim>\<open>strconv.Atoi\<close>, which on 64 bits is \<^verbatim>\<open>ParseInt(s, 10, 64)\<close>: the value and whether it is valid.  What is no number gives 0, what
  is out of range the nearest bound.
\<close>

definition Atoi :: "string \<Rightarrow> int \<times> bool" where
  "Atoi s =
     (let neg = HasPrefix s ''-'';
          digits = (if neg \<or> HasPrefix s ''+'' then tl s else s);
          n = (if neg then - int (dec_val digits) else int (dec_val digits)) in
      if digits = [] \<or> \<not> list_all is_digit digits then (0, False)
      else if n < - (2 ^ 63) then (- (2 ^ 63), False)
      else if n \<ge> 2 ^ 63 then (2 ^ 63 - 1, False)
      else (n, True))"

text \<open>\<^verbatim>\<open>%d\<close> on a signed number.\<close>

definition dec_int :: "int \<Rightarrow> string" where
  "dec_int i = (if i < 0 then ''-'' @ dec (nat (- i)) else dec (nat i))"

section \<open>Versions\<close>

datatype Version = Version (Major: "64 word") (Minor: "64 word") (Patch: "64 word")

text \<open>The loop over the parts; the numbers are returned in order.\<close>

fun parse_parts :: "string list \<Rightarrow> 64 word list result" where
  "parse_parts [] = Inr []"
| "parse_parts (part # parts) =
     (if part = [] then Inl ErrInvalidVersion
      else if length part > 1 \<and> hd part = CHR ''0'' then Inl ErrInvalidVersion
      else if \<not> list_all is_digit part then Inl ErrInvalidVersion
      else (case ParseUint part of
              None \<Rightarrow> Inl ErrInvalidVersion
            | Some num \<Rightarrow> err_bind (parse_parts parts) (\<lambda>nums. Inr (num # nums))))"

definition ParseVersion :: "string \<Rightarrow> Version result" where
  "ParseVersion s =
     (let trimmed = TrimSpace s in
      if trimmed = [] then Inl ErrInvalidVersion
      else
        let trimmed = (if HasPrefix trimmed ''v'' \<or> HasPrefix trimmed ''V'' then tl trimmed
                       else trimmed) in
        if trimmed = [] then Inl ErrInvalidVersion
        else
          let parts = Split trimmed (CHR ''.'') in
          if length parts = 0 \<or> length parts > 3 then Inl ErrInvalidVersion
          else err_bind (parse_parts parts) (\<lambda>ns.
            let nums = take 3 (ns @ replicate 3 0) in
            Inr (Version (nums ! 0) (nums ! 1) (nums ! 2))))"

definition Version_String :: "Version \<Rightarrow> string" where
  "Version_String v =
     dec (unat (Major v)) @ ''.'' @ dec (unat (Minor v)) @ ''.'' @ dec (unat (Patch v))"

definition Version_Compare :: "Version \<Rightarrow> Version \<Rightarrow> int" where
  "Version_Compare v other =
     (if Major v \<noteq> Major other then (if Major v < Major other then -1 else 1)
      else if Minor v \<noteq> Minor other then (if Minor v < Minor other then -1 else 1)
      else if Patch v \<noteq> Patch other then (if Patch v < Patch other then -1 else 1)
      else 0)"

definition LessThan :: "Version \<Rightarrow> Version \<Rightarrow> bool" where
  "LessThan v other = (Version_Compare v other < 0)"

definition GreaterThan :: "Version \<Rightarrow> Version \<Rightarrow> bool" where
  "GreaterThan v other = (Version_Compare v other > 0)"

definition Version_Equal :: "Version \<Rightarrow> Version \<Rightarrow> bool" where
  "Version_Equal v other = (Version_Compare v other = 0)"

section \<open>The order\<close>

instantiation Version :: linorder
begin

definition less_Version :: "Version \<Rightarrow> Version \<Rightarrow> bool" where
  "less_Version v w \<longleftrightarrow> Version_Compare v w < 0"

definition less_eq_Version :: "Version \<Rightarrow> Version \<Rightarrow> bool" where
  "less_eq_Version v w \<longleftrightarrow> Version_Compare v w \<le> 0"

instance
proof
  fix u v w :: Version
  show "u < v \<longleftrightarrow> u \<le> v \<and> \<not> v \<le> u" "u \<le> u" "u \<le> v \<or> v \<le> u"
    by (auto simp: less_Version_def less_eq_Version_def Version_Compare_def)
  show "u \<le> w" if "u \<le> v" "v \<le> w"
    using that by (auto simp: less_eq_Version_def Version_Compare_def split: if_splits)
  show "u = v" if "u \<le> v" "v \<le> u"
    using that by (cases u; cases v) (auto simp: less_eq_Version_def Version_Compare_def split: if_splits)
qed

end

lemma Version_Compare_order [simp]:
  "Version_Compare v w < 0 \<longleftrightarrow> v < w" "Version_Compare v w \<le> 0 \<longleftrightarrow> v \<le> w"
  "0 < Version_Compare v w \<longleftrightarrow> w < v" "0 \<le> Version_Compare v w \<longleftrightarrow> w \<le> v"
  "Version_Compare v w = 0 \<longleftrightarrow> v = w"
proof -
  show lt: "Version_Compare v w < 0 \<longleftrightarrow> v < w" and le: "Version_Compare v w \<le> 0 \<longleftrightarrow> v \<le> w"
    by (simp_all add: less_Version_def less_eq_Version_def)
  then show "0 < Version_Compare v w \<longleftrightarrow> w < v" "0 \<le> Version_Compare v w \<longleftrightarrow> w \<le> v"
    by (metis not_le)+
  show "Version_Compare v w = 0 \<longleftrightarrow> v = w"
    using lt le by (metis order.antisym order_less_irrefl order_le_less)
qed

text \<open>The number whose base \<open>2 ^ 64\<close> digits are the components.\<close>

definition version_num :: "Version \<Rightarrow> int" where
  "version_num v = (uint (Major v) * 2 ^ 64 + uint (Minor v)) * 2 ^ 64 + uint (Patch v)"

lemma digits_less:
  fixes a b x y n :: int
  assumes "a < b" and "0 \<le> y" and "x < n" and "0 < n"
  shows "a * n + x < b * n + y"
proof -
  have "a * n + x < (a + 1) * n" using assms by (simp add: algebra_simps)
  also have "\<dots> \<le> b * n" using assms by (intro mult_right_mono) auto
  finally show ?thesis using assms by simp
qed

lemma uint64 [simp]: "0 \<le> uint (w :: 64 word)" "uint (w :: 64 word) < 18446744073709551616"
  using uint_lt2p [of w] by simp_all

lemma version_num_less: "v < w \<Longrightarrow> version_num v < version_num w"
proof -
  assume "v < w"
  then consider "uint (Major v) < uint (Major w)"
    | "Major v = Major w" "uint (Minor v) < uint (Minor w)"
    | "Major v = Major w" "Minor v = Minor w" "uint (Patch v) < uint (Patch w)"
    by (auto simp: less_Version_def Version_Compare_def word_less_def split: if_splits)
  then show ?thesis
  proof cases
    case 1
    then show ?thesis unfolding version_num_def by (intro digits_less) simp_all
  next
    case 2
    have "(uint (Major v) * 2 ^ 64 + uint (Minor v)) < (uint (Major w) * 2 ^ 64 + uint (Minor w))"
      using 2 by simp
    then show ?thesis unfolding version_num_def by (rule digits_less) simp_all
  next
    case 3
    then show ?thesis by (simp add: version_num_def)
  qed
qed

section \<open>Printing and parsing\<close>

lemma of_char_digit: "n < 10 \<Longrightarrow> (of_char (char_of (48 + n)) :: nat) = 48 + n"
  by (simp add: of_char_of)

lemma is_digit_char [simp]: "(n :: nat) < 10 \<Longrightarrow> is_digit (char_of (48 + n))"
  by (simp add: is_digit_def of_char_digit)

lemma dec_digits: "list_all is_digit (dec n)"
  by (induction n rule: dec.induct) (subst dec.simps, simp)

lemma dec_nonempty [simp]: "dec n \<noteq> []"
  by (subst dec.simps) simp

lemma dec_val_snoc: "dec_val (s @ [c]) = 10 * dec_val s + (of_char c - 48)"
  by (simp add: dec_val_def)

lemma dec_val_dec [simp]: "dec_val (dec n) = n"
proof (induction n rule: dec.induct)
  case (1 n)
  then show ?case
    by (subst dec.simps) (auto simp: dec_val_snoc of_char_digit, simp add: dec_val_def of_char_digit)
qed

lemma hd_append_nonempty: "xs \<noteq> [] \<Longrightarrow> hd (xs @ ys) = hd xs"
  by simp

lemma dec_hd: "n \<noteq> 0 \<Longrightarrow> hd (dec n) \<noteq> CHR ''0''"
proof (induction n rule: dec.induct)
  case (1 n)
  show ?case
  proof (cases "n < 10")
    case True
    then have "(of_char (hd (dec n)) :: nat) = 48 + n" by (simp add: dec.simps of_char_digit)
    then show ?thesis using 1(2) by auto
  next
    case False
    then show ?thesis using 1 by (subst dec.simps) simp
  qed
qed

lemma dec_no_leading_zero: "length (dec n) > 1 \<Longrightarrow> hd (dec n) \<noteq> CHR ''0''"
  by (cases "n = 0") (auto simp: dec_hd, simp add: dec.simps)

lemma ParseUint_dec: "ParseUint (dec (unat w)) = Some w"
proof -
  have "unat w < 2 ^ LENGTH(64)" by (rule unsigned_less)
  then show ?thesis by (simp add: ParseUint_def dec_digits)
qed

lemma parse_parts_dec [simp]:
  "parse_parts (dec (unat w) # parts) = err_bind (parse_parts parts) (\<lambda>nums. Inr (w # nums))"
  using dec_no_leading_zero [of "unat w"] by (auto simp: ParseUint_dec dec_digits)

lemma digit_facts: "is_digit c \<Longrightarrow> no_space c" "is_digit c \<Longrightarrow> c \<noteq> CHR ''v''"
  "is_digit c \<Longrightarrow> c \<noteq> CHR ''V''" "is_digit c \<Longrightarrow> c \<noteq> CHR ''.''"
  by (auto simp: is_digit_def no_space_def)

lemma dot_not_in_dec: "CHR ''.'' \<notin> set (dec n)"
  using dec_digits [of n] digit_facts(4) by (auto simp: list_all_iff)

lemma Version_String_shape:
  "list_all no_space (Version_String v)" "Version_String v \<noteq> []" "is_digit (hd (Version_String v))"
proof -
  have d: "list_all no_space (dec n)" for n
    using dec_digits [of n] digit_facts(1) by (auto simp: list_all_iff)
  have "no_space (CHR ''.'')" by (simp add: no_space_def)
  with d show "list_all no_space (Version_String v)" by (simp add: Version_String_def)
  show "Version_String v \<noteq> []" by (simp add: Version_String_def)
  show "is_digit (hd (Version_String v))"
    using dec_digits [of "unat (Major v)"] by (simp add: Version_String_def list_all_iff)
qed

lemma Split_Version_String:
  "Split (Version_String v) (CHR ''.'') = [dec (unat (Major v)), dec (unat (Minor v)), dec (unat (Patch v))]"
  by (simp add: Version_String_def Split_append_sep Split_no_sep dot_not_in_dec)

section \<open>Printing and comparing\<close>

lemma ParseVersion_String: "ParseVersion (Version_String v) = Inr v"
proof -
  have t: "TrimSpace (Version_String v) = Version_String v"
    by (rule TrimSpace_all_no_space) (rule Version_String_shape)
  obtain c cs where c: "Version_String v = c # cs" "is_digit c"
    using Version_String_shape(2,3) [of v] by (cases "Version_String v") auto
  have "\<not> HasPrefix (Version_String v) ''v''" "\<not> HasPrefix (Version_String v) ''V''"
    using c digit_facts(2,3) by (auto simp: HasPrefix_def)
  moreover have "parse_parts (Split (Version_String v) (CHR ''.'')) = Inr [Major v, Minor v, Patch v]"
    by (simp add: Split_Version_String del: parse_parts.simps(2))
  ultimately show ?thesis
    using Version_String_shape(2) [of v]
    by (simp add: ParseVersion_def t Let_def) (simp add: Split_Version_String numeral_eq_Suc)
qed

lemma Version_Compare_num:
  "Version_Compare v w = sgn (version_num v - version_num w) \<and>
   (version_num v = version_num w \<longleftrightarrow> v = w)"
proof (cases v w rule: linorder_cases)
  case less
  then have "Version_Compare v w = -1" by (auto simp: less_Version_def Version_Compare_def split: if_splits)
  with less version_num_less [OF less] show ?thesis by simp
next
  case equal
  then show ?thesis by simp
next
  case greater
  then have "Version_Compare v w = 1"
    by (auto simp: less_Version_def Version_Compare_def split: if_splits)
  with greater version_num_less [OF greater] show ?thesis by simp
qed

section \<open>Properties\<close>

text \<open>
  C40. Printing a version and parsing the result gives the version back, for all components up to
  \<open>2 ^ 64 - 1\<close>: the canonical form stored in the records is always accepted and unambiguous.  \<^verbatim>\<open>Compare\<close> is the sign
  of the difference of the numbers whose 64-bit digits are major, minor and patch, and two versions with the same
  number are the same version: a strict total order.
\<close>

theorem Version_String_Compare:
  "ParseVersion (Version_String v) = Inr v \<and> Version_Compare v w = sgn (version_num v - version_num w) \<and>
   (version_num v = version_num w \<longleftrightarrow> v = w)"
  using ParseVersion_String Version_Compare_num by blast

end
