(* ===== verification/Reg_Crypto.thy ===== *)
theory Reg_Crypto
  imports Kad_ID Reg_Version
begin

text \<open>
  \<^verbatim>\<open>src/registry/crypto.go\<close> and \<^verbatim>\<open>src/registry/dns.go\<close>, with \<^verbatim>\<open>IsValidDomain\<close> of
  \<^verbatim>\<open>keymanager.go\<close>: key pairs, signatures and their hex form, domain names, and the resolvers that
  give the public key of a domain's owner.  SHA-256 and the Ed25519 primitives are fields of the
  environment \<open>crypto_env\<close>; the theorems hold for every environment, or name what they need of it.
\<close>

section \<open>The environment\<close>

record crypto_env = unicode_env +
  sha256 :: "bytes \<Rightarrow> KademliaID"
  ed25519_Verify :: "bytes \<Rightarrow> bytes \<Rightarrow> bytes \<Rightarrow> bool"
  ed25519_Sign :: "bytes \<Rightarrow> bytes \<Rightarrow> bytes"
  ed25519_NewKeyFromSeed :: "bytes \<Rightarrow> bytes"

definition PublicKeySize :: nat where "PublicKeySize = 32"
definition PrivateKeySize :: nat where "PrivateKeySize = 64"
definition SignatureSize :: nat where "SignatureSize = 64"
definition SeedSize :: nat where "SeedSize = 32"

section \<open>Domain names\<close>

definition NormalizeDomain :: "'e unicode_env_scheme \<Rightarrow> string \<Rightarrow> string" where
  "NormalizeDomain E domain = TrimRight (ToLower E (TrimSpace domain)) ''.''"

definition is_alnum :: "char \<Rightarrow> bool" where
  "is_alnum c \<longleftrightarrow>
     (let n = of_char c :: nat in
      (48 \<le> n \<and> n \<le> 57) \<or> (65 \<le> n \<and> n \<le> 90) \<or> (97 \<le> n \<and> n \<le> 122))"

text \<open>
  \<open>[a-zA-Z0-9]([a-zA-Z0-9-]{0,61}[a-zA-Z0-9])?\<close> and the like: a string of one to \<open>k + 2\<close> characters
  whose first and last are alphanumeric and whose inner ones are alphanumeric or in \<open>extra\<close>.
\<close>

definition matches_word :: "string \<Rightarrow> nat \<Rightarrow> string \<Rightarrow> bool" where
  "matches_word extra k s \<longleftrightarrow>
     s \<noteq> [] \<and> length s \<le> k + 2 \<and> is_alnum (hd s) \<and> is_alnum (last s) \<and>
     list_all (\<lambda>c. is_alnum c \<or> c \<in> set extra) s"

text \<open>The regular expression of \<^verbatim>\<open>domainNameRegex\<close>: words separated by single dots.\<close>

definition domainNameRegex :: "string \<Rightarrow> bool" where
  "domainNameRegex s \<longleftrightarrow> list_all (matches_word ''-'' 61) (Split s (CHR ''.''))"

definition IsValidDomain :: "'e unicode_env_scheme \<Rightarrow> string \<Rightarrow> bool" where
  "IsValidDomain E domain =
     (let norm = NormalizeDomain E domain in
      if norm = [] \<or> length norm > 253 \<or> Contains norm ''/'' \<or> Contains norm [CHR 0x5C]
         \<or> Contains norm ''..''
      then False else domainNameRegex norm)"

section \<open>Signatures and keys\<close>

text \<open>\<^verbatim>\<open>ed25519.Sign\<close> panics on a private key of the wrong size.\<close>

definition Sign :: "'e crypto_env_scheme \<Rightarrow> bytes \<Rightarrow> bytes \<Rightarrow> bytes option" where
  "Sign E priv data = (if length priv = PrivateKeySize then Some (ed25519_Sign E priv data) else None)"

definition Verify :: "'e crypto_env_scheme \<Rightarrow> bytes \<Rightarrow> bytes \<Rightarrow> bytes \<Rightarrow> unit result" where
  "Verify E pub data sig =
     (if length pub \<noteq> PublicKeySize \<or> length sig \<noteq> SignatureSize \<or> \<not> ed25519_Verify E pub data sig
      then Inl ErrSignatureVerificationFailed else Inr ())"

definition cleanHex :: "string \<Rightarrow> string" where
  "cleanHex s =
     (let s = Trim (TrimSpace s) [CHR 0x22, CHR 0x27];
          s = TrimPrefix s ''0x'' in
      TrimPrefix s ''0X'')"

definition EncodePublicKeyHex :: "bytes \<Rightarrow> string" where
  "EncodePublicKeyHex pub = hex_EncodeToString pub"

definition DecodePublicKeyHex :: "string \<Rightarrow> bytes result" where
  "DecodePublicKeyHex s =
     (let (b, ok) = hex_DecodeString (cleanHex s) in
      if \<not> ok \<or> length b \<noteq> PublicKeySize then Inl ErrInvalidEncoding else Inr b)"

definition EncodePrivateKeyHex :: "bytes \<Rightarrow> string" where
  "EncodePrivateKeyHex priv = hex_EncodeToString priv"

definition DecodePrivateKeyHex :: "'e crypto_env_scheme \<Rightarrow> string \<Rightarrow> bytes result" where
  "DecodePrivateKeyHex E s =
     (let (b, ok) = hex_DecodeString (cleanHex s) in
      if \<not> ok \<or> (length b \<noteq> PrivateKeySize \<and> length b \<noteq> SeedSize) then Inl ErrInvalidEncoding
      else if length b = SeedSize then Inr (ed25519_NewKeyFromSeed E b)
      else Inr b)"

definition EncodeSignatureHex :: "bytes \<Rightarrow> string" where
  "EncodeSignatureHex sig = hex_EncodeToString sig"

definition DecodeSignatureHex :: "string \<Rightarrow> bytes result" where
  "DecodeSignatureHex s =
     (let (b, ok) = hex_DecodeString (cleanHex s) in
      if \<not> ok \<or> length b \<noteq> SignatureSize then Inl ErrInvalidEncoding else Inr b)"

definition DefaultDNSTXTPrefix :: string where
  "DefaultDNSTXTPrefix = ''kademlia-pk=''"

definition FormatDNSTXTRecord :: "bytes \<Rightarrow> string" where
  "FormatDNSTXTRecord pub = DefaultDNSTXTPrefix @ EncodePublicKeyHex pub"

text \<open>The time stamp is a number of nanoseconds; nothing computes with it.\<close>

record DomainKeyPair =
  dkp_Domain :: string
  dkp_PublicKey :: bytes
  dkp_PrivateKey :: bytes
  dkp_CreatedAt :: int

text \<open>The random key pair (or the failure of the random source) and the clock are arguments.\<close>

definition GenerateDomainKeyPair ::
  "'e unicode_env_scheme \<Rightarrow> (bytes \<times> bytes) result \<Rightarrow> int \<Rightarrow> string \<Rightarrow> DomainKeyPair result" where
  "GenerateDomainKeyPair E keys now domain =
     (let norm = NormalizeDomain E domain in
      if \<not> IsValidDomain E norm then Inl ErrInvalidDomain
      else err_bind keys (\<lambda>(pub, priv).
        Inr \<lparr>dkp_Domain = norm, dkp_PublicKey = pub, dkp_PrivateKey = priv, dkp_CreatedAt = now\<rparr>))"

definition DomainKeyPair_Sign ::
  "'e crypto_env_scheme \<Rightarrow> DomainKeyPair option \<Rightarrow> bytes \<Rightarrow> bytes result option" where
  "DomainKeyPair_Sign E dkp msg =
     (case dkp of
        None \<Rightarrow> Some (Inl (ErrText ''nil key pair''))
      | Some p \<Rightarrow> map_option Inr (Sign E (dkp_PrivateKey p) msg))"

definition DomainKeyPair_Verify ::
  "'e crypto_env_scheme \<Rightarrow> DomainKeyPair option \<Rightarrow> bytes \<Rightarrow> bytes \<Rightarrow> unit result" where
  "DomainKeyPair_Verify E dkp msg sig =
     (case dkp of
        None \<Rightarrow> Inl (ErrText ''nil key pair'')
      | Some p \<Rightarrow> Verify E (dkp_PublicKey p) msg sig)"

definition PublicKeyHex :: "DomainKeyPair option \<Rightarrow> string" where
  "PublicKeyHex dkp = (case dkp of None \<Rightarrow> [] | Some p \<Rightarrow> EncodePublicKeyHex (dkp_PublicKey p))"

definition DNSTXTRecord :: "DomainKeyPair option \<Rightarrow> string" where
  "DNSTXTRecord dkp = (case dkp of None \<Rightarrow> [] | Some p \<Rightarrow> FormatDNSTXTRecord (dkp_PublicKey p))"

section \<open>Resolvers\<close>

text \<open>
  A \<^verbatim>\<open>DNSResolver\<close> is a function from a domain to the owner's key or an error; nil is \<open>None\<close>.
\<close>

type_synonym DNSResolver = "string \<Rightarrow> bytes result"

type_synonym MockDNSResolver = "(string, bytes) gomap"

definition NewMockDNSResolver :: MockDNSResolver where
  "NewMockDNSResolver = gm_empty"

definition Mock_SetKey ::
  "'e unicode_env_scheme \<Rightarrow> MockDNSResolver \<Rightarrow> string \<Rightarrow> bytes \<Rightarrow> MockDNSResolver result" where
  "Mock_SetKey E m domain pub =
     (let norm = NormalizeDomain E domain in
      if norm = [] then Inl ErrEmptyDomain
      else if \<not> IsValidDomain E norm then Inl ErrInvalidDomain
      else Inr (gm_set norm pub m))"

definition Mock_SetKeyHex ::
  "'e unicode_env_scheme \<Rightarrow> MockDNSResolver \<Rightarrow> string \<Rightarrow> string \<Rightarrow> MockDNSResolver result" where
  "Mock_SetKeyHex E m domain hexKey =
     err_bind (DecodePublicKeyHex hexKey) (\<lambda>pub. Mock_SetKey E m domain pub)"

definition Mock_RemoveKey ::
  "'e unicode_env_scheme \<Rightarrow> MockDNSResolver \<Rightarrow> string \<Rightarrow> MockDNSResolver" where
  "Mock_RemoveKey E m domain = gm_del (NormalizeDomain E domain) m"

definition Mock_Clear :: "MockDNSResolver \<Rightarrow> MockDNSResolver" where
  "Mock_Clear m = gm_empty"

text \<open>\<^verbatim>\<open>sort.Strings\<close>: the byte-wise lexicographic order.\<close>

fun string_less :: "string \<Rightarrow> string \<Rightarrow> bool" where
  "string_less [] (d # ds) = True"
| "string_less s [] = False"
| "string_less (c # cs) (d # ds) =
     (if c = d then string_less cs ds else (of_char c :: nat) < of_char d)"

definition Mock_ListDomains :: "MockDNSResolver \<Rightarrow> string list" where
  "Mock_ListDomains m = go_sort string_less (gm_keys m)"

definition Mock_LookupOwnerKey :: "'e unicode_env_scheme \<Rightarrow> MockDNSResolver \<Rightarrow> DNSResolver" where
  "Mock_LookupOwnerKey E m domain =
     (let norm = NormalizeDomain E domain in
      if norm = [] then Inl ErrEmptyDomain
      else (case gm_get m norm of None \<Rightarrow> Inl ErrDomainNotFound | Some key \<Rightarrow> Inr key))"

text \<open>
  The slice \<^verbatim>\<open>part[len(prefix):]\<close> is taken of the part as it was before lower-casing.  It would be out
  of range (a panic, where \<open>drop\<close> gives the empty string) only for a part shorter than the prefix
  that lower-casing lengthened; no character lower-cases to more ASCII bytes than it has.
\<close>

fun parse_txt_parts :: "'e unicode_env_scheme \<Rightarrow> string \<Rightarrow> string list \<Rightarrow> bytes result option" where
  "parse_txt_parts E prefix [] = None"
| "parse_txt_parts E prefix (p # ps) =
     (let part = TrimSpace p in
      if HasPrefix (ToLower E part) (ToLower E prefix)
      then Some (wrap ErrInvalidOwnerKey (DecodePublicKeyHex (TrimSpace (drop (length prefix) part))))
      else parse_txt_parts E prefix ps)"

fun parse_txt_records :: "'e unicode_env_scheme \<Rightarrow> string \<Rightarrow> string list \<Rightarrow> bytes result" where
  "parse_txt_records E prefix [] = Inl ErrNoOwnerKeyRecord"
| "parse_txt_records E prefix (r # rs) =
     (case parse_txt_parts E prefix (Split (Trim (TrimSpace r) [CHR 0x22, CHR 0x27]) (CHR '';'')) of
        Some res \<Rightarrow> res
      | None \<Rightarrow> parse_txt_records E prefix rs)"

definition ParseOwnerKeyFromTXTRecords ::
  "'e unicode_env_scheme \<Rightarrow> string list \<Rightarrow> string \<Rightarrow> bytes result" where
  "ParseOwnerKeyFromTXTRecords E records prefix =
     parse_txt_records E (if prefix = [] then DefaultDNSTXTPrefix else prefix) records"

text \<open>\<^verbatim>\<open>lookupTXT\<close> is the field of the struct: the records, or the failure of the query.\<close>

definition System_LookupOwnerKey ::
  "'e unicode_env_scheme \<Rightarrow> (string \<Rightarrow> string list option) \<Rightarrow> DNSResolver" where
  "System_LookupOwnerKey E lookupTXT domain =
     (let norm = NormalizeDomain E domain in
      if norm = [] then Inl ErrEmptyDomain
      else (case lookupTXT norm of
              None \<Rightarrow> Inl ErrDomainNotFound
            | Some records \<Rightarrow> ParseOwnerKeyFromTXTRecords E records DefaultDNSTXTPrefix))"

section \<open>The hex codecs\<close>

lemma Trim_id: "s = [] \<or> (hd s \<notin> set cs \<and> last s \<notin> set cs) \<Longrightarrow> Trim s cs = s"
proof -
  assume a: "s = [] \<or> (hd s \<notin> set cs \<and> last s \<notin> set cs)"
  then have "dropWhile (\<lambda>c. c \<in> set cs) s = s" by (cases s) auto
  moreover have "dropWhile (\<lambda>c. c \<in> set cs) (rev s) = rev s"
    using a by (cases s rule: rev_cases) auto
  ultimately show ?thesis by (simp add: Trim_def TrimRight_def)
qed

lemma lower_hex_facts:
  "is_lower_hex c \<Longrightarrow> c \<noteq> CHR 0x22" "is_lower_hex c \<Longrightarrow> c \<noteq> CHR 0x27"
  "is_lower_hex c \<Longrightarrow> c \<noteq> CHR ''x''" "is_lower_hex c \<Longrightarrow> c \<noteq> CHR ''X''"
  "is_lower_hex c \<Longrightarrow> c \<noteq> CHR '';''"
  by (auto simp: is_lower_hex_def)

lemma lower_hex_no_prefix:
  assumes "list_all is_lower_hex s" and "\<not> is_lower_hex x"
  shows "TrimPrefix s [c, x] = s"
proof (cases "strip_prefix [c, x] s")
  case (Some r)
  then have "s = [c, x] @ r" by (simp only: strip_prefix_Some)
  with assms show ?thesis by simp
qed (simp add: TrimPrefix_def)

lemma cleanHex_lower_hex:
  assumes "list_all is_lower_hex s"
  shows "cleanHex s = s"
proof -
  have ns: "TrimSpace s = s"
    using assms is_lower_hex_no_space by (intro TrimSpace_all_no_space) (auto simp: list_all_iff)
  have "s = [] \<or> (is_lower_hex (hd s) \<and> is_lower_hex (last s))"
    using assms by (cases s rule: rev_cases) (auto simp: list_all_iff hd_append)
  then have "Trim s [CHR 0x22, CHR 0x27] = s"
    using lower_hex_facts(1,2) by (intro Trim_id) auto
  moreover have "\<not> is_lower_hex (CHR ''x'')" "\<not> is_lower_hex (CHR ''X'')"
    by (auto simp: is_lower_hex_def)
  ultimately show ?thesis
    using lower_hex_no_prefix [OF assms] ns by (simp add: cleanHex_def)
qed

lemma cleanHex_hex [simp]: "cleanHex (hex_EncodeToString bs) = hex_EncodeToString bs"
  by (rule cleanHex_lower_hex) (rule hex_EncodeToString_lower)

lemma DecodePublicKeyHex_Encode [simp]:
  "length pub = PublicKeySize \<Longrightarrow> DecodePublicKeyHex (EncodePublicKeyHex pub) = Inr pub"
  by (simp add: DecodePublicKeyHex_def EncodePublicKeyHex_def)

lemma DecodeSignatureHex_Encode [simp]:
  "length sig = SignatureSize \<Longrightarrow> DecodeSignatureHex (EncodeSignatureHex sig) = Inr sig"
  by (simp add: DecodeSignatureHex_def EncodeSignatureHex_def)

lemma EncodeSignatureHex_nonempty: "length sig = SignatureSize \<Longrightarrow> EncodeSignatureHex sig \<noteq> []"
  by (cases sig) (auto simp: EncodeSignatureHex_def SignatureSize_def)

section \<open>Owner registries\<close>

text \<open>
  What a store of owner keys promises to the code that resolves domains: the key set last for a
  domain is the key found, domains with the same normal form are one domain.
\<close>

locale owner_registry =
  fixes norm :: "string \<Rightarrow> string"
    and valid :: "string \<Rightarrow> bool"
    and set_key :: "'r \<Rightarrow> string \<Rightarrow> bytes \<Rightarrow> 'r result"
    and remove_key :: "'r \<Rightarrow> string \<Rightarrow> 'r"
    and lookup :: "'r \<Rightarrow> DNSResolver"
    and invar :: "'r \<Rightarrow> bool"
  assumes set_ok: "(\<exists>r'. set_key r d k = Inr r') \<longleftrightarrow> norm d \<noteq> [] \<and> valid (norm d)"
    and lookup_set: "set_key r d k = Inr r' \<Longrightarrow> lookup r' d' = (if norm d' = norm d then Inr k else lookup r d')"
    and lookup_remove: "invar r \<Longrightarrow> norm d \<noteq> [] \<Longrightarrow>
      lookup (remove_key r d) d' = (if norm d' = norm d then Inl ErrDomainNotFound else lookup r d')"
    and lookup_norm: "norm d' = norm d \<Longrightarrow> lookup r d' = lookup r d"
    and invar_set: "invar r \<Longrightarrow> set_key r d k = Inr r' \<Longrightarrow> invar r'"
    and invar_remove: "invar r \<Longrightarrow> invar (remove_key r d)"
begin

lemma lookup_last_set:
  assumes "set_key r d k1 = Inr r1" and "set_key r1 d k2 = Inr r2"
  shows "lookup r2 d = Inr k2"
  using lookup_set [OF assms(2)] by simp

lemma remove_undoes_set:
  assumes "invar r" and "set_key r d k = Inr r1" and "lookup r d = Inl ErrDomainNotFound"
  shows "lookup (remove_key r1 d) = lookup r"
proof
  fix d'
  have "norm d \<noteq> []" using assms(2) set_ok by blast
  show "lookup (remove_key r1 d) d' = lookup r d'"
    using lookup_remove [OF invar_set [OF assms(1,2)] \<open>norm d \<noteq> []\<close>] lookup_set [OF assms(2)] assms(3)
      lookup_norm [of d' d]
    by simp
qed

end

interpretation mock: owner_registry "NormalizeDomain E" "IsValidDomain E" "Mock_SetKey E"
    "Mock_RemoveKey E" "Mock_LookupOwnerKey E" gm_wf
  for E :: "'e unicode_env_scheme"
  by unfold_locales
    (auto simp: Mock_SetKey_def Mock_RemoveKey_def Mock_LookupOwnerKey_def Let_def gm.invar_set
      gm.invar_del split: if_splits)

section \<open>TXT records\<close>

lemma is_ascii_append [simp]: "is_ascii (s @ t) \<longleftrightarrow> is_ascii s \<and> is_ascii t"
  by (simp add: is_ascii_def)

lemma lower_hex_ascii: "list_all is_lower_hex s \<Longrightarrow> is_ascii s"
  by (auto simp: is_ascii_def list_all_iff is_lower_hex_def Let_def)

lemma prefix_facts:
  "is_ascii DefaultDNSTXTPrefix" "map ascii_lower DefaultDNSTXTPrefix = DefaultDNSTXTPrefix"
  "list_all no_space DefaultDNSTXTPrefix" "CHR '';'' \<notin> set DefaultDNSTXTPrefix"
  "DefaultDNSTXTPrefix \<noteq> []" "hd DefaultDNSTXTPrefix = CHR ''k''"
  by (simp_all add: DefaultDNSTXTPrefix_def is_ascii_def ascii_lower_def no_space_def)

lemma FormatDNSTXTRecord_facts:
  assumes "length pub = PublicKeySize"
  shows "TrimSpace (FormatDNSTXTRecord pub) = FormatDNSTXTRecord pub"
    "Trim (FormatDNSTXTRecord pub) [CHR 0x22, CHR 0x27] = FormatDNSTXTRecord pub"
    "CHR '';'' \<notin> set (FormatDNSTXTRecord pub)"
    "HasPrefix (ToLower E (FormatDNSTXTRecord pub)) (ToLower E DefaultDNSTXTPrefix)"
proof -
  let ?h = "hex_EncodeToString pub"
  have h: "list_all is_lower_hex ?h" by (rule hex_EncodeToString_lower)
  have ne: "?h \<noteq> []" using assms by (cases pub) (auto simp: PublicKeySize_def)
  have eq: "FormatDNSTXTRecord pub = DefaultDNSTXTPrefix @ ?h"
    by (simp add: FormatDNSTXTRecord_def EncodePublicKeyHex_def)
  have "list_all no_space ?h" using h is_lower_hex_no_space by (auto simp: list_all_iff)
  with prefix_facts(3) show "TrimSpace (FormatDNSTXTRecord pub) = FormatDNSTXTRecord pub"
    unfolding eq by (intro TrimSpace_all_no_space) simp
  have "is_lower_hex (last ?h)" using h ne by (simp add: list_all_iff)
  then show "Trim (FormatDNSTXTRecord pub) [CHR 0x22, CHR 0x27] = FormatDNSTXTRecord pub"
    unfolding eq using ne prefix_facts(5,6) lower_hex_facts(1,2) by (intro Trim_id) (auto simp: hd_append)
  show "CHR '';'' \<notin> set (FormatDNSTXTRecord pub)"
    unfolding eq using prefix_facts(4) h lower_hex_facts(5) by (auto simp: list_all_iff)
  show "HasPrefix (ToLower E (FormatDNSTXTRecord pub)) (ToLower E DefaultDNSTXTPrefix)"
    unfolding eq using prefix_facts(1,2) lower_hex_ascii [OF h]
    by (simp add: ToLower_def HasPrefix_def strip_prefix_Some)
qed

lemma TrimSpace_hex [simp]: "TrimSpace (hex_EncodeToString bs) = hex_EncodeToString bs"
  using hex_EncodeToString_lower [of bs]
  by (intro TrimSpace_all_no_space) (auto simp: list_all_iff dest: is_lower_hex_no_space)

lemma ParseOwnerKey_Format:
  assumes "length pub = PublicKeySize"
  shows "ParseOwnerKeyFromTXTRecords E (FormatDNSTXTRecord pub # rs) DefaultDNSTXTPrefix = Inr pub"
proof -
  have "drop (length DefaultDNSTXTPrefix) (FormatDNSTXTRecord pub) = EncodePublicKeyHex pub"
    by (simp add: FormatDNSTXTRecord_def)
  then have "parse_txt_parts E DefaultDNSTXTPrefix [FormatDNSTXTRecord pub] = Some (Inr pub)"
    using FormatDNSTXTRecord_facts [OF assms] assms DecodePublicKeyHex_Encode [OF assms]
    by (simp add: EncodePublicKeyHex_def Let_def)
  then show ?thesis
    using FormatDNSTXTRecord_facts(1-3) [OF assms] prefix_facts(5)
    by (simp add: ParseOwnerKeyFromTXTRecords_def Split_no_sep)
qed

section \<open>Properties\<close>

text \<open>What evaluates the operations on a concrete domain name.\<close>

lemmas domain_eval = NormalizeDomain_def IsValidDomain_def domainNameRegex_def matches_word_def
  is_alnum_def TrimSpace_def TrimRight_def ToLower_def is_ascii_def ascii_lower_def HasPrefix_def
  space_seqs_def trim_left.simps Let_def char_of_def

text \<open>
  The TXT record a key pair asks its owner to publish resolves to the owner's public key,
  whatever other records follow it.
\<close>

theorem System_Lookup_published:
  assumes "length (dkp_PublicKey dkp) = PublicKeySize" and "NormalizeDomain E d \<noteq> []"
    and "lookupTXT (NormalizeDomain E d) = Some (DNSTXTRecord (Some dkp) # rs)"
  shows "System_LookupOwnerKey E lookupTXT d = Inr (dkp_PublicKey dkp)"
  using assms ParseOwnerKey_Format [OF assms(1)]
  by (simp add: System_LookupOwnerKey_def DNSTXTRecord_def)

definition ascii_env :: unicode_env where
  "ascii_env = \<lparr>uToLower = map ascii_lower, uToUpper = map ascii_upper,
     uEqualFold = (\<lambda>s t. map ascii_lower s = map ascii_lower t)\<rparr>"

theorem System_Lookup_published_witness:
  "let dkp = \<lparr>dkp_Domain = ''a.se'', dkp_PublicKey = replicate 32 7, dkp_PrivateKey = [], dkp_CreatedAt = 0\<rparr> in
   System_LookupOwnerKey ascii_env (\<lambda>_. Some [DNSTXTRecord (Some dkp), ''x'']) ''A.se.'' = Inr (replicate 32 7)"
proof -
  have "NormalizeDomain ascii_env ''A.se.'' \<noteq> []" by (simp add: domain_eval)
  then show ?thesis
    unfolding Let_def by (subst System_Lookup_published) (auto simp: PublicKeySize_def)
qed

text \<open>
  \<^verbatim>\<open>NormalizeDomain\<close> does not always give a normal form: white space before a final dot survives
  it, the result is accepted by \<^verbatim>\<open>IsValidDomain\<close>, and normalizing again gives another string.
\<close>

theorem NormalizeDomain_not_idempotent:
  "NormalizeDomain ascii_env ''example.com .'' = ''example.com '' \<and>
   IsValidDomain ascii_env (NormalizeDomain ascii_env ''example.com .'') \<and>
   NormalizeDomain ascii_env (NormalizeDomain ascii_env ''example.com .'') = ''example.com''"
  by (simp add: domain_eval)

end
