(* ===== verification/Reg_Records.thy ===== *)
theory Reg_Records
  imports Reg_Crypto
begin

text \<open>
  \<^verbatim>\<open>src/registry/record.go\<close>: version records and latest pointers, their validation, signatures,
  hashes and keys.  A nil pointer is \<open>None\<close>.  \<^verbatim>\<open>(*VersionRecord).Validate\<close> writes to its receiver, so
  it and its callers return the record they leave behind.  The JSON encodings are fields of the
  environment \<open>reg_env\<close>: \<^verbatim>\<open>json.Marshal\<close> of a struct of strings cannot fail and is a function to
  bytes, \<^verbatim>\<open>json.Unmarshal\<close> a function to an option.  Go encodes the value \<^verbatim>\<open>cp\<close> of \<^verbatim>\<open>payloadBytes\<close>,
  the pointer of \<^verbatim>\<open>RecordHashBytes\<close> and the \<^verbatim>\<open>wire\<close> copy of \<^verbatim>\<open>MarshalJSON\<close> to the same bytes, so
  there is one function for the three.
\<close>

section \<open>Data\<close>

definition TagVersionRecord :: string where "TagVersionRecord = ''version-record''"
definition TagLatestPointer :: string where "TagLatestPointer = ''latest-pointer''"
definition ZeroHash :: string where "ZeroHash = replicate 64 (CHR ''0'')"

record VersionRecord =
  vr_Tag :: string
  vr_Domain :: string
  vr_Package :: string
  vr_Version :: string
  vr_BlobHash :: string
  vr_PreviousVersionRecord :: string
  vr_Signature :: string

record LatestPointer =
  lp_Tag :: string
  lp_Domain :: string
  lp_Package :: string
  lp_Version :: string
  lp_VersionRecordHash :: string
  lp_Signature :: string

record reg_env = crypto_env +
  json_VersionRecord :: "VersionRecord \<Rightarrow> bytes"
  unjson_VersionRecord :: "bytes \<Rightarrow> VersionRecord option"
  json_LatestPointer :: "LatestPointer \<Rightarrow> bytes"
  unjson_LatestPointer :: "bytes \<Rightarrow> LatestPointer option"
  unjson_tag :: "bytes \<Rightarrow> string option"

definition packageNameRegex :: "string \<Rightarrow> bool" where
  "packageNameRegex s \<longleftrightarrow> matches_word ''._-'' 126 s"

definition IsValidPackageName :: "string \<Rightarrow> bool" where
  "IsValidPackageName name =
     (let pkg = TrimSpace name in
      pkg \<noteq> [] \<and> length pkg \<le> 128 \<and> \<not> Contains pkg ''..'' \<and> packageNameRegex pkg)"

definition ComputeBlobHash :: "'e crypto_env_scheme \<Rightarrow> bytes \<Rightarrow> string" where
  "ComputeBlobHash E data = hex_EncodeToString (id_bytes (sha256 E data))"

section \<open>Version records\<close>

definition NewVersionRecord ::
  "'e unicode_env_scheme \<Rightarrow> string \<Rightarrow> string \<Rightarrow> string \<Rightarrow> string \<Rightarrow> string \<Rightarrow> VersionRecord result" where
  "NewVersionRecord E domain pkg version blobHash prevVR =
     (let normDomain = NormalizeDomain E domain in
      if \<not> IsValidDomain E normDomain then Inl ErrInvalidDomain
      else let normPkg = TrimSpace pkg in
      if \<not> IsValidPackageName normPkg then Inl ErrInvalidPackageName
      else err_bind (ParseVersion version) (\<lambda>v.
        let normBlobHash = ToLower E (TrimSpace blobHash) in
        if length normBlobHash \<noteq> 64 then Inl ErrInvalidBlobHash
        else let normPrev = ToLower E (TrimSpace prevVR) in
        if normPrev \<noteq> [] \<and> length normPrev \<noteq> 64 then Inl ErrInvalidRecordHash
        else Inr \<lparr>vr_Tag = TagVersionRecord, vr_Domain = normDomain, vr_Package = normPkg,
          vr_Version = Version_String v, vr_BlobHash = normBlobHash,
          vr_PreviousVersionRecord = (if normPrev = [] then ZeroHash else normPrev),
          vr_Signature = []\<rparr>))"

definition NewInitialVersionRecord ::
  "'e unicode_env_scheme \<Rightarrow> string \<Rightarrow> string \<Rightarrow> string \<Rightarrow> string \<Rightarrow> VersionRecord result" where
  "NewInitialVersionRecord E domain pkg version blobHash =
     NewVersionRecord E domain pkg version blobHash ZeroHash"

text \<open>The body of \<^verbatim>\<open>Validate\<close> on a non-nil receiver: the record it leaves and its result.\<close>

definition vr_validate ::
  "'e unicode_env_scheme \<Rightarrow> VersionRecord \<Rightarrow> VersionRecord \<times> unit result" where
  "vr_validate E vr =
     (if vr_Tag vr \<noteq> TagVersionRecord then (vr, Inl ErrInvalidRecordTag)
      else if \<not> IsValidDomain E (vr_Domain vr) then (vr, Inl ErrInvalidDomain)
      else if \<not> IsValidPackageName (vr_Package vr) then (vr, Inl ErrInvalidPackageName)
      else (case ParseVersion (vr_Version vr) of
        Inl e \<Rightarrow> (vr, Inl e)
      | Inr _ \<Rightarrow>
          if length (vr_BlobHash vr) \<noteq> 64 then (vr, Inl ErrInvalidBlobHash)
          else if vr_PreviousVersionRecord vr = []
          then (vr\<lparr>vr_PreviousVersionRecord := ZeroHash\<rparr>, Inr ())
          else if length (vr_PreviousVersionRecord vr) \<noteq> 64 then (vr, Inl ErrInvalidRecordHash)
          else (vr, Inr ())))"

definition VersionRecord_Validate ::
  "'e unicode_env_scheme \<Rightarrow> VersionRecord option \<Rightarrow> VersionRecord option \<times> unit result" where
  "VersionRecord_Validate E vr =
     (case vr of
        None \<Rightarrow> (None, Inl (ErrText ''nil record''))
      | Some r \<Rightarrow> map_prod Some id (vr_validate E r))"

definition VersionRecord_payloadBytes ::
  "'e reg_env_scheme \<Rightarrow> VersionRecord \<Rightarrow> VersionRecord \<times> bytes result" where
  "VersionRecord_payloadBytes E vr =
     (case vr_validate E vr of
        (vr1, Inl e) \<Rightarrow> (vr1, Inl e)
      | (vr1, Inr _) \<Rightarrow> (vr1, Inr (json_VersionRecord E (vr1\<lparr>vr_Signature := []\<rparr>))))"

definition VersionRecord_Sign ::
  "'e reg_env_scheme \<Rightarrow> VersionRecord option \<Rightarrow> bytes \<Rightarrow> (VersionRecord option \<times> unit result) option" where
  "VersionRecord_Sign E vr priv =
     (case vr of
        None \<Rightarrow> Some (None, Inl (ErrText ''nil record''))
      | Some r \<Rightarrow>
          (case VersionRecord_payloadBytes E r of
             (r1, Inl e) \<Rightarrow> Some (Some r1, Inl e)
           | (r1, Inr data) \<Rightarrow>
               map_option (\<lambda>sig. (Some (r1\<lparr>vr_Signature := EncodeSignatureHex sig\<rparr>), Inr ()))
                 (Sign E priv (id_bytes (sha256 E data)))))"

text \<open>A nil record with a key pair is dereferenced for its domain: a panic.\<close>

definition VersionRecord_SignWithKeyPair ::
  "'e reg_env_scheme \<Rightarrow> VersionRecord option \<Rightarrow> DomainKeyPair option \<Rightarrow>
   (VersionRecord option \<times> unit result) option" where
  "VersionRecord_SignWithKeyPair E vr dkp =
     (case dkp of
        None \<Rightarrow> Some (vr, Inl (ErrText ''nil key pair''))
      | Some p \<Rightarrow>
          (case vr of
             None \<Rightarrow> None
           | Some r \<Rightarrow>
               if NormalizeDomain E (dkp_Domain p) \<noteq> vr_Domain r then Some (vr, Inl ErrDomainMismatch)
               else VersionRecord_Sign E vr (dkp_PrivateKey p)))"

definition VersionRecord_Verify ::
  "'e reg_env_scheme \<Rightarrow> VersionRecord option \<Rightarrow> bytes \<Rightarrow> VersionRecord option \<times> unit result" where
  "VersionRecord_Verify E vr pub =
     (case vr of
        None \<Rightarrow> (None, Inl (ErrText ''nil record''))
      | Some r \<Rightarrow>
          if vr_Signature r = [] then (vr, Inl ErrMissingSignature)
          else (case DecodeSignatureHex (vr_Signature r) of
            Inl e \<Rightarrow> (vr, Inl e)
          | Inr sig \<Rightarrow>
              (case VersionRecord_payloadBytes E r of
                 (r1, Inl e) \<Rightarrow> (Some r1, Inl e)
               | (r1, Inr data) \<Rightarrow> (Some r1, Verify E pub (id_bytes (sha256 E data)) sig))))"

definition VersionRecord_VerifyWithResolver ::
  "'e reg_env_scheme \<Rightarrow> VersionRecord option \<Rightarrow> DNSResolver option \<Rightarrow>
   VersionRecord option \<times> unit result" where
  "VersionRecord_VerifyWithResolver E vr resolver =
     (case (resolver, vr) of
        (Some lookup, Some r) \<Rightarrow>
          (case lookup (vr_Domain r) of
             Inl e \<Rightarrow> (vr, Inl e)
           | Inr pub \<Rightarrow> VersionRecord_Verify E vr pub)
      | _ \<Rightarrow> (vr, Inl (ErrText ''nil resolver or record'')))"

definition VersionRecord_MarshalJSON ::
  "'e reg_env_scheme \<Rightarrow> VersionRecord option \<Rightarrow> bytes result" where
  "VersionRecord_MarshalJSON E vr =
     (case vr of
        None \<Rightarrow> Inl (ErrText ''cannot marshal nil'')
      | Some r \<Rightarrow> Inr (json_VersionRecord E r))"

definition RecordHashBytes :: "'e reg_env_scheme \<Rightarrow> VersionRecord option \<Rightarrow> KademliaID result" where
  "RecordHashBytes E vr =
     (case vr of
        None \<Rightarrow> Inl ErrMissingSignature
      | Some r \<Rightarrow> if vr_Signature r = [] then Inl ErrMissingSignature
          else Inr (sha256 E (json_VersionRecord E r)))"

definition RecordHash :: "'e reg_env_scheme \<Rightarrow> VersionRecord option \<Rightarrow> string result" where
  "RecordHash E vr = err_bind (RecordHashBytes E vr) (\<lambda>h. Inr (hex_EncodeToString (id_bytes h)))"

definition VersionRecord_DHTKey :: "'e reg_env_scheme \<Rightarrow> VersionRecord option \<Rightarrow> string result" where
  "VersionRecord_DHTKey E vr = RecordHash E vr"

definition VersionRecord_ParsedVersion :: "VersionRecord option \<Rightarrow> Version result" where
  "VersionRecord_ParsedVersion vr =
     (case vr of None \<Rightarrow> Inl (ErrText ''nil record'') | Some r \<Rightarrow> ParseVersion (vr_Version r))"

definition VersionRecord_CompareVersion ::
  "VersionRecord option \<Rightarrow> VersionRecord option \<Rightarrow> int result" where
  "VersionRecord_CompareVersion vr other =
     (if vr = None \<or> other = None then Inl (ErrText ''nil record'')
      else err_bind (VersionRecord_ParsedVersion vr) (\<lambda>v1.
           err_bind (VersionRecord_ParsedVersion other) (\<lambda>v2. Inr (Version_Compare v1 v2))))"

definition IsInitialVersion :: "VersionRecord option \<Rightarrow> bool" where
  "IsInitialVersion vr =
     (case vr of
        None \<Rightarrow> False
      | Some r \<Rightarrow> vr_PreviousVersionRecord r = [] \<or> vr_PreviousVersionRecord r = ZeroHash)"

definition VersionRecord_String :: "VersionRecord option \<Rightarrow> string" where
  "VersionRecord_String vr =
     (case vr of
        None \<Rightarrow> ''<nil VersionRecord>''
      | Some r \<Rightarrow> ''[version-record] '' @ vr_Domain r @ '':'' @ vr_Package r @ ''@'' @ vr_Version r)"

section \<open>Latest pointers\<close>

definition NewLatestPointer ::
  "'e unicode_env_scheme \<Rightarrow> string \<Rightarrow> string \<Rightarrow> string \<Rightarrow> string \<Rightarrow> LatestPointer result" where
  "NewLatestPointer E domain pkg version vrHash =
     (let normDomain = NormalizeDomain E domain in
      if \<not> IsValidDomain E normDomain then Inl ErrInvalidDomain
      else let normPkg = TrimSpace pkg in
      if \<not> IsValidPackageName normPkg then Inl ErrInvalidPackageName
      else err_bind (ParseVersion version) (\<lambda>v.
        let normVRHash = ToLower E (TrimSpace vrHash) in
        if length normVRHash \<noteq> 64 then Inl ErrInvalidRecordHash
        else Inr \<lparr>lp_Tag = TagLatestPointer, lp_Domain = normDomain, lp_Package = normPkg,
          lp_Version = Version_String v, lp_VersionRecordHash = normVRHash, lp_Signature = []\<rparr>))"

definition VersionRecord_NewLatestPointer ::
  "'e reg_env_scheme \<Rightarrow> VersionRecord option \<Rightarrow> LatestPointer result" where
  "VersionRecord_NewLatestPointer E vr =
     (case vr of
        None \<Rightarrow> Inl (ErrText ''nil record'')
      | Some r \<Rightarrow> err_bind (RecordHash E vr) (\<lambda>h.
          NewLatestPointer E (vr_Domain r) (vr_Package r) (vr_Version r) h))"

definition LatestPointer_Validate ::
  "'e unicode_env_scheme \<Rightarrow> LatestPointer option \<Rightarrow> unit result" where
  "LatestPointer_Validate E lp =
     (case lp of
        None \<Rightarrow> Inl (ErrText ''nil pointer'')
      | Some p \<Rightarrow>
          if lp_Tag p \<noteq> TagLatestPointer then Inl ErrInvalidRecordTag
          else if \<not> IsValidDomain E (lp_Domain p) then Inl ErrInvalidDomain
          else if \<not> IsValidPackageName (lp_Package p) then Inl ErrInvalidPackageName
          else err_bind (ParseVersion (lp_Version p)) (\<lambda>_.
            if length (lp_VersionRecordHash p) \<noteq> 64 then Inl ErrInvalidRecordHash else Inr ()))"

definition LatestPointer_payloadBytes ::
  "'e reg_env_scheme \<Rightarrow> LatestPointer \<Rightarrow> bytes result" where
  "LatestPointer_payloadBytes E lp =
     err_bind (LatestPointer_Validate E (Some lp)) (\<lambda>_.
       Inr (json_LatestPointer E (lp\<lparr>lp_Signature := []\<rparr>)))"

definition LatestPointer_Sign ::
  "'e reg_env_scheme \<Rightarrow> LatestPointer option \<Rightarrow> bytes \<Rightarrow> (LatestPointer option \<times> unit result) option" where
  "LatestPointer_Sign E lp priv =
     (case lp of
        None \<Rightarrow> Some (None, Inl (ErrText ''nil pointer''))
      | Some p \<Rightarrow>
          (case LatestPointer_payloadBytes E p of
             Inl e \<Rightarrow> Some (lp, Inl e)
           | Inr data \<Rightarrow>
               map_option (\<lambda>sig. (Some (p\<lparr>lp_Signature := EncodeSignatureHex sig\<rparr>), Inr ()))
                 (Sign E priv (id_bytes (sha256 E data)))))"

definition LatestPointer_SignWithKeyPair ::
  "'e reg_env_scheme \<Rightarrow> LatestPointer option \<Rightarrow> DomainKeyPair option \<Rightarrow>
   (LatestPointer option \<times> unit result) option" where
  "LatestPointer_SignWithKeyPair E lp dkp =
     (case dkp of
        None \<Rightarrow> Some (lp, Inl (ErrText ''nil key pair''))
      | Some k \<Rightarrow>
          (case lp of
             None \<Rightarrow> None
           | Some p \<Rightarrow>
               if NormalizeDomain E (dkp_Domain k) \<noteq> lp_Domain p then Some (lp, Inl ErrDomainMismatch)
               else LatestPointer_Sign E lp (dkp_PrivateKey k)))"

definition LatestPointer_Verify ::
  "'e reg_env_scheme \<Rightarrow> LatestPointer option \<Rightarrow> bytes \<Rightarrow> unit result" where
  "LatestPointer_Verify E lp pub =
     (case lp of
        None \<Rightarrow> Inl (ErrText ''nil pointer'')
      | Some p \<Rightarrow>
          if lp_Signature p = [] then Inl ErrMissingSignature
          else err_bind (DecodeSignatureHex (lp_Signature p)) (\<lambda>sig.
               err_bind (LatestPointer_payloadBytes E p) (\<lambda>data.
                 Verify E pub (id_bytes (sha256 E data)) sig)))"

definition LatestPointer_VerifyWithResolver ::
  "'e reg_env_scheme \<Rightarrow> LatestPointer option \<Rightarrow> DNSResolver option \<Rightarrow> unit result" where
  "LatestPointer_VerifyWithResolver E lp resolver =
     (case (resolver, lp) of
        (Some lookup, Some p) \<Rightarrow> err_bind (lookup (lp_Domain p)) (LatestPointer_Verify E lp)
      | _ \<Rightarrow> Inl (ErrText ''nil resolver or pointer''))"

definition LatestPointer_MarshalJSON ::
  "'e reg_env_scheme \<Rightarrow> LatestPointer option \<Rightarrow> bytes result" where
  "LatestPointer_MarshalJSON E lp =
     (case lp of
        None \<Rightarrow> Inl (ErrText ''cannot marshal nil'')
      | Some p \<Rightarrow> Inr (json_LatestPointer E p))"

definition LatestPointerKeyString :: "'e unicode_env_scheme \<Rightarrow> string \<Rightarrow> string \<Rightarrow> string" where
  "LatestPointerKeyString E domain pkg =
     NormalizeDomain E domain @ '':'' @ TrimSpace pkg @ '':latest''"

definition LatestPointerDHTKeyBytes :: "'e crypto_env_scheme \<Rightarrow> string \<Rightarrow> string \<Rightarrow> KademliaID" where
  "LatestPointerDHTKeyBytes E domain pkg =
     sha256 E (bytes_of_string (LatestPointerKeyString E domain pkg))"

definition LatestPointerDHTKey :: "'e crypto_env_scheme \<Rightarrow> string \<Rightarrow> string \<Rightarrow> string" where
  "LatestPointerDHTKey E domain pkg =
     hex_EncodeToString (id_bytes (LatestPointerDHTKeyBytes E domain pkg))"

definition DHTKeyString :: "'e unicode_env_scheme \<Rightarrow> LatestPointer option \<Rightarrow> string" where
  "DHTKeyString E lp =
     (case lp of None \<Rightarrow> [] | Some p \<Rightarrow> LatestPointerKeyString E (lp_Domain p) (lp_Package p))"

definition DHTKeyBytes :: "'e crypto_env_scheme \<Rightarrow> LatestPointer option \<Rightarrow> KademliaID" where
  "DHTKeyBytes E lp =
     (case lp of
        None \<Rightarrow> mk_id []
      | Some p \<Rightarrow> LatestPointerDHTKeyBytes E (lp_Domain p) (lp_Package p))"

definition LatestPointer_DHTKey :: "'e crypto_env_scheme \<Rightarrow> LatestPointer option \<Rightarrow> string" where
  "LatestPointer_DHTKey E lp =
     (case lp of None \<Rightarrow> [] | Some p \<Rightarrow> LatestPointerDHTKey E (lp_Domain p) (lp_Package p))"

definition LatestPointer_ParsedVersion :: "LatestPointer option \<Rightarrow> Version result" where
  "LatestPointer_ParsedVersion lp =
     (case lp of None \<Rightarrow> Inl (ErrText ''nil pointer'') | Some p \<Rightarrow> ParseVersion (lp_Version p))"

definition LatestPointer_CompareVersion ::
  "LatestPointer option \<Rightarrow> LatestPointer option \<Rightarrow> int result" where
  "LatestPointer_CompareVersion lp other =
     (if lp = None \<or> other = None then Inl (ErrText ''nil pointer'')
      else err_bind (LatestPointer_ParsedVersion lp) (\<lambda>v1.
           err_bind (LatestPointer_ParsedVersion other) (\<lambda>v2. Inr (Version_Compare v1 v2))))"

definition MatchesRecord ::
  "'e reg_env_scheme \<Rightarrow> LatestPointer option \<Rightarrow> VersionRecord option \<Rightarrow> bool result" where
  "MatchesRecord E lp vr =
     (case (lp, vr) of
        (Some p, Some r) \<Rightarrow> err_bind (RecordHash E vr) (\<lambda>h.
          Inr (lp_Domain p = vr_Domain r \<and> lp_Package p = vr_Package r \<and> lp_Version p = vr_Version r \<and>
               lp_VersionRecordHash p = h))
      | _ \<Rightarrow> Inl (ErrText ''nil pointer or record''))"

definition MatchesKey :: "'e crypto_env_scheme \<Rightarrow> LatestPointer option \<Rightarrow> string \<Rightarrow> bool" where
  "MatchesKey E lp key \<longleftrightarrow> lp \<noteq> None \<and> EqualFold E (TrimSpace key) (LatestPointer_DHTKey E lp)"

definition MatchesKeyBytes :: "'e crypto_env_scheme \<Rightarrow> LatestPointer option \<Rightarrow> KademliaID \<Rightarrow> bool" where
  "MatchesKeyBytes E lp key \<longleftrightarrow> lp \<noteq> None \<and> DHTKeyBytes E lp = key"

definition LatestPointer_String :: "LatestPointer option \<Rightarrow> string" where
  "LatestPointer_String lp =
     (case lp of
        None \<Rightarrow> ''<nil LatestPointer>''
      | Some p \<Rightarrow> ''[latest-pointer] '' @ lp_Domain p @ '':'' @ lp_Package p @ ''@'' @ lp_Version p
          @ '' -> '' @ lp_VersionRecordHash p)"

section \<open>Parsing\<close>

datatype RecordType = RecordTypeUnknown | RecordTypeVersionRecord | RecordTypeLatestPointer

definition DetectRecordType :: "'e reg_env_scheme \<Rightarrow> bytes \<Rightarrow> RecordType" where
  "DetectRecordType E data =
     (case unjson_tag E data of
        None \<Rightarrow> RecordTypeUnknown
      | Some tag \<Rightarrow>
          if tag = TagVersionRecord then RecordTypeVersionRecord
          else if tag = TagLatestPointer then RecordTypeLatestPointer
          else RecordTypeUnknown)"

definition ParseVersionRecord :: "'e reg_env_scheme \<Rightarrow> bytes \<Rightarrow> VersionRecord result" where
  "ParseVersionRecord E data =
     (case unjson_VersionRecord E data of
        None \<Rightarrow> Inl ErrJSON
      | Some vr \<Rightarrow>
          (case vr_validate E vr of (vr1, Inl e) \<Rightarrow> Inl e | (vr1, Inr _) \<Rightarrow> Inr vr1))"

definition ParseLatestPointer :: "'e reg_env_scheme \<Rightarrow> bytes \<Rightarrow> LatestPointer result" where
  "ParseLatestPointer E data =
     (case unjson_LatestPointer E data of
        None \<Rightarrow> Inl ErrJSON
      | Some lp \<Rightarrow> err_bind (LatestPointer_Validate E (Some lp)) (\<lambda>_. Inr lp))"

section \<open>Well-formed records\<close>

text \<open>What \<^verbatim>\<open>Validate\<close> accepts and leaves behind, as a predicate.\<close>

definition vr_ok :: "'e unicode_env_scheme \<Rightarrow> VersionRecord \<Rightarrow> bool" where
  "vr_ok E vr \<longleftrightarrow>
     vr_Tag vr = TagVersionRecord \<and> IsValidDomain E (vr_Domain vr) \<and>
     IsValidPackageName (vr_Package vr) \<and> (\<exists>v. ParseVersion (vr_Version vr) = Inr v) \<and>
     length (vr_BlobHash vr) = 64 \<and> length (vr_PreviousVersionRecord vr) = 64"

definition lp_ok :: "'e unicode_env_scheme \<Rightarrow> LatestPointer \<Rightarrow> bool" where
  "lp_ok E lp \<longleftrightarrow>
     lp_Tag lp = TagLatestPointer \<and> IsValidDomain E (lp_Domain lp) \<and>
     IsValidPackageName (lp_Package lp) \<and> (\<exists>v. ParseVersion (lp_Version lp) = Inr v) \<and>
     length (lp_VersionRecordHash lp) = 64"

lemma length_ZeroHash [simp]: "length ZeroHash = 64"
  by (simp add: ZeroHash_def)

lemma vr_validate_Inr:
  "vr_validate E vr = (vr1, Inr u) \<Longrightarrow>
     vr_ok E vr1 \<and> vr1 = vr\<lparr>vr_PreviousVersionRecord :=
       if vr_PreviousVersionRecord vr = [] then ZeroHash else vr_PreviousVersionRecord vr\<rparr>"
  by (auto simp: vr_validate_def vr_ok_def split: if_splits sum.splits)

lemma vr_validate_ok [simp]: "vr_ok E vr \<Longrightarrow> vr_validate E vr = (vr, Inr ())"
  by (auto simp: vr_validate_def vr_ok_def)

lemma vr_ok_sig [simp]: "vr_ok E (vr\<lparr>vr_Signature := s\<rparr>) \<longleftrightarrow> vr_ok E vr"
  by (simp add: vr_ok_def)

lemma LatestPointer_Validate_iff [simp]: "LatestPointer_Validate E (Some lp) = Inr u \<longleftrightarrow> lp_ok E lp"
  by (auto simp: LatestPointer_Validate_def lp_ok_def split: if_splits)

lemma lp_ok_Validate [simp]: "lp_ok E lp \<Longrightarrow> LatestPointer_Validate E (Some lp) = Inr ()"
  by simp

lemma lp_ok_sig [simp]: "lp_ok E (lp\<lparr>lp_Signature := s\<rparr>) \<longleftrightarrow> lp_ok E lp"
  by (simp add: lp_ok_def)

lemma ParseVersionRecord_ok: "ParseVersionRecord E data = Inr vr \<Longrightarrow> vr_ok E vr"
  by (auto simp: ParseVersionRecord_def dest: vr_validate_Inr split: option.splits prod.splits sum.splits)

lemma ParseLatestPointer_ok: "ParseLatestPointer E data = Inr lp \<Longrightarrow> lp_ok E lp"
  by (auto simp: ParseLatestPointer_def split: option.splits)

text \<open>What a verified signature says.\<close>

lemma VersionRecord_Verify_iff:
  assumes "vr_ok E vr"
  shows "snd (VersionRecord_Verify E (Some vr) pub) = Inr u \<longleftrightarrow>
    vr_Signature vr \<noteq> [] \<and> length pub = PublicKeySize \<and>
    (\<exists>sig. DecodeSignatureHex (vr_Signature vr) = Inr sig \<and>
       ed25519_Verify E pub (id_bytes (sha256 E (json_VersionRecord E (vr\<lparr>vr_Signature := []\<rparr>)))) sig)"
  using assms
  by (auto simp: VersionRecord_Verify_def VersionRecord_payloadBytes_def Verify_def
      DecodeSignatureHex_def split: sum.splits if_splits prod.splits)

lemma VersionRecord_Verify_fst: "vr_ok E vr \<Longrightarrow> fst (VersionRecord_Verify E (Some vr) pub) = Some vr"
  by (auto simp: VersionRecord_Verify_def VersionRecord_payloadBytes_def split: sum.splits)

lemma LatestPointer_Verify_iff:
  "LatestPointer_Verify E (Some lp) pub = Inr u \<longleftrightarrow>
    lp_ok E lp \<and> lp_Signature lp \<noteq> [] \<and> length pub = PublicKeySize \<and>
    (\<exists>sig. DecodeSignatureHex (lp_Signature lp) = Inr sig \<and>
       ed25519_Verify E pub (id_bytes (sha256 E (json_LatestPointer E (lp\<lparr>lp_Signature := []\<rparr>)))) sig)"
  by (auto simp: LatestPointer_Verify_def LatestPointer_payloadBytes_def Verify_def
      DecodeSignatureHex_def split: sum.splits if_splits prod.splits)

section \<open>Names and keys\<close>

lemma append_sep_inj:
  "x \<notin> set as \<Longrightarrow> x \<notin> set bs \<Longrightarrow> as @ x # cs = bs @ x # ds \<longleftrightarrow> as = bs \<and> cs = ds"
  by (induction as arbitrary: bs; case_tac bs) auto

lemma set_Split: "set s \<subseteq> insert sep (\<Union> (set ` set (Split s sep)))"
proof (induction s)
  case (Cons c s)
  obtain p ps where "Split s sep = p # ps" using Split_nonempty by (meson list.exhaust)
  with Cons show ?case by auto
qed simp

lemma alnum_facts: "is_alnum c \<Longrightarrow> no_space c" "is_alnum c \<Longrightarrow> c \<noteq> CHR '':''"
  by (auto simp: is_alnum_def no_space_def Let_def)

lemma matches_word_no_colon: "matches_word extra k s \<Longrightarrow> CHR '':'' \<notin> set extra \<Longrightarrow> CHR '':'' \<notin> set s"
  using alnum_facts(2) by (auto simp: matches_word_def list_all_iff)

lemma valid_domain_no_colon:
  assumes "IsValidDomain E d"
  shows "CHR '':'' \<notin> set (NormalizeDomain E d)"
proof -
  have "list_all (matches_word ''-'' 61) (Split (NormalizeDomain E d) (CHR ''.''))"
    using assms by (auto simp: IsValidDomain_def domainNameRegex_def Let_def split: if_splits)
  then have "CHR '':'' \<notin> \<Union> (set ` set (Split (NormalizeDomain E d) (CHR ''.'')))"
    using matches_word_no_colon [of "''-''" 61] by (auto simp: list_all_iff)
  then show ?thesis using set_Split [of "NormalizeDomain E d" "CHR ''.''"] by auto
qed

lemma valid_package_word: "IsValidPackageName p \<Longrightarrow> matches_word ''._-'' 126 (TrimSpace p)"
  by (simp add: IsValidPackageName_def packageNameRegex_def Let_def)

lemma valid_package_no_colon: "IsValidPackageName p \<Longrightarrow> CHR '':'' \<notin> set (TrimSpace p)"
  by (rule matches_word_no_colon [OF valid_package_word]) auto

section \<open>Publishing a version\<close>

lemma NewVersionRecord_ok:
  assumes "NewVersionRecord E domain pkg version blobHash prevVR = Inr vr"
  shows "vr_ok E vr" and "vr_Package vr = TrimSpace pkg" and "IsValidPackageName (vr_Package vr)"
    and "vr_Domain vr = NormalizeDomain E domain" and "vr_Signature vr = []"
    and "\<exists>v. vr_Version vr = Version_String v"
  using assms ParseVersion_String
  by (auto simp: NewVersionRecord_def vr_ok_def Let_def split: if_splits)

lemma ToLower_hex [simp]: "ToLower E (hex_EncodeToString bs) = hex_EncodeToString bs"
  by (simp add: ToLower_lower_hex hex_EncodeToString_lower)

lemma NewLatestPointer_of_record:
  assumes "vr_ok E vr" and "NormalizeDomain E (vr_Domain vr) = vr_Domain vr"
    and "TrimSpace (vr_Package vr) = vr_Package vr" and "vr_Version vr = Version_String v"
  shows "NewLatestPointer E (vr_Domain vr) (vr_Package vr) (vr_Version vr) (hex_EncodeToString (id_bytes h)) =
    Inr \<lparr>lp_Tag = TagLatestPointer, lp_Domain = vr_Domain vr, lp_Package = vr_Package vr,
      lp_Version = vr_Version vr, lp_VersionRecordHash = hex_EncodeToString (id_bytes h), lp_Signature = []\<rparr>"
  using assms ParseVersion_String [of v] by (simp add: NewLatestPointer_def vr_ok_def Let_def IDLength_def)

text \<open>Signing a valid record: the signature it stores verifies with the matching public key.\<close>

lemma VersionRecord_Sign_ok:
  assumes "vr_ok E vr" and "length priv = PrivateKeySize"
  shows "VersionRecord_Sign E (Some vr) priv = Some (Some (vr\<lparr>vr_Signature := EncodeSignatureHex
    (ed25519_Sign E priv (id_bytes (sha256 E (json_VersionRecord E (vr\<lparr>vr_Signature := []\<rparr>)))))\<rparr>), Inr ())"
  using assms by (simp add: VersionRecord_Sign_def VersionRecord_payloadBytes_def Sign_def)

lemma LatestPointer_Sign_ok:
  assumes "lp_ok E lp" and "length priv = PrivateKeySize"
  shows "LatestPointer_Sign E (Some lp) priv = Some (Some (lp\<lparr>lp_Signature := EncodeSignatureHex
    (ed25519_Sign E priv (id_bytes (sha256 E (json_LatestPointer E (lp\<lparr>lp_Signature := []\<rparr>)))))\<rparr>), Inr ())"
  using assms by (simp add: LatestPointer_Sign_def LatestPointer_payloadBytes_def Sign_def)

section \<open>An environment for the examples\<close>

text \<open>
  A signature scheme and encodings that satisfy what the theorems ask of them: every 64-byte
  signature verifies, the hash keeps the first 32 bytes, a record is encoded by whether it is the
  first of its package.
\<close>

definition demo_h1 :: string where
  "demo_h1 = hex_EncodeToString (id_bytes (mk_id [1]))"

definition demo_h2 :: string where
  "demo_h2 = hex_EncodeToString (id_bytes (mk_id [2]))"

lemma hex_zeros: "hex_EncodeToString (replicate n 0) = replicate (2 * n) (CHR ''0'')"
  by (induction n) (simp_all add: hex_char_def char_of_def bit_Suc_0_iff)

lemma ZeroHash_hex: "ZeroHash = hex_EncodeToString (id_bytes (mk_id []))"
  by (simp add: hex_zeros ZeroHash_def IDLength_def)

lemma demo_hashes [simp]:
  "demo_h1 \<noteq> ZeroHash" "demo_h2 \<noteq> ZeroHash" "demo_h2 \<noteq> demo_h1" "length demo_h1 = 64" "length demo_h2 = 64"
  "list_all is_lower_hex demo_h1" "list_all is_lower_hex demo_h2"
  "TrimSpace demo_h1 = demo_h1" "TrimSpace demo_h2 = demo_h2"
  "ToLower E demo_h1 = demo_h1" "ToLower E demo_h2 = demo_h2" "demo_h1 \<noteq> []" "demo_h2 \<noteq> []"
proof -
  have "mk_id [1] \<noteq> mk_id []" "mk_id [2] \<noteq> mk_id []" "mk_id [2] \<noteq> mk_id [1]" by code_simp+
  then show "demo_h1 \<noteq> ZeroHash" "demo_h2 \<noteq> ZeroHash" "demo_h2 \<noteq> demo_h1"
    unfolding demo_h1_def demo_h2_def ZeroHash_hex hex_EncodeToString_inj id_bytes_inject_iff .
  show "length demo_h1 = 64" "length demo_h2 = 64"
    by (simp_all add: demo_h1_def demo_h2_def IDLength_def)
  then show "demo_h1 \<noteq> []" "demo_h2 \<noteq> []" by auto
qed (simp_all add: demo_h1_def demo_h2_def hex_EncodeToString_lower)

definition demo_vr :: "VersionRecord" where
  "demo_vr = \<lparr>vr_Tag = ''version-record'', vr_Domain = ''example.com'', vr_Package = ''pkg'',
     vr_Version = ''1.0.0'', vr_BlobHash = replicate 64 (CHR ''a''),
     vr_PreviousVersionRecord = replicate 64 (CHR ''0''),
     vr_Signature = EncodeSignatureHex (replicate 64 0)\<rparr>"

definition demo_vr2 :: "VersionRecord" where
  "demo_vr2 = demo_vr\<lparr>vr_Version := ''2.0.0'',
     vr_PreviousVersionRecord := demo_h1\<rparr>"

definition demo_lp :: "LatestPointer" where
  "demo_lp = \<lparr>lp_Tag = ''latest-pointer'', lp_Domain = ''example.com'', lp_Package = ''pkg'',
     lp_Version = ''1.0.0'', lp_VersionRecordHash = demo_h1,
     lp_Signature = EncodeSignatureHex (replicate 64 0)\<rparr>"

definition demo_lp2 :: "LatestPointer" where
  "demo_lp2 = demo_lp\<lparr>lp_Version := ''2.0.0'',
     lp_VersionRecordHash := demo_h2\<rparr>"

definition demo_env :: reg_env where
  "demo_env = \<lparr>uToLower = map ascii_lower, uToUpper = map ascii_upper,
     uEqualFold = (\<lambda>s t. map ascii_lower s = map ascii_lower t),
     sha256 = mk_id, ed25519_Verify = (\<lambda>pub msg sig. length sig = 64),
     ed25519_Sign = (\<lambda>priv msg. replicate 64 0), ed25519_NewKeyFromSeed = (\<lambda>s. s @ s),
     json_VersionRecord = (\<lambda>vr. if vr = demo_vr then [1] else [2]),
     unjson_VersionRecord = (\<lambda>bs. if bs = [1] then Some demo_vr else if bs = [2] then Some demo_vr2 else None),
     json_LatestPointer = (\<lambda>lp. if lp = demo_lp then [3] else [4]),
     unjson_LatestPointer = (\<lambda>bs. if bs = [3] then Some demo_lp else if bs = [4] then Some demo_lp2 else None),
     unjson_tag = (\<lambda>bs. None)\<rparr>"

lemma demo_valid:
  "IsValidDomain demo_env ''example.com''" "NormalizeDomain demo_env ''example.com'' = ''example.com''"
  "IsValidPackageName ''pkg''" "TrimSpace ''pkg'' = ''pkg''"
  by (simp_all add: domain_eval IsValidPackageName_def packageNameRegex_def)

lemma demo_versions:
  "ParseVersion ''1.0.0'' = Inr (Version 1 0 0)" "ParseVersion ''2.0.0'' = Inr (Version 2 0 0)"
  using ParseVersion_String [of "Version 1 0 0"] ParseVersion_String [of "Version 2 0 0"]
  by (simp_all add: Version_String_def dec.simps char_of_def bit_Suc_0_iff)

lemma demo_ok: "vr_ok demo_env demo_vr" "vr_ok demo_env demo_vr2" "lp_ok demo_env demo_lp" "lp_ok demo_env demo_lp2"
  by (simp_all add: vr_ok_def lp_ok_def demo_vr_def demo_vr2_def demo_lp_def demo_lp2_def demo_valid
      demo_versions TagVersionRecord_def TagLatestPointer_def IDLength_def)

section \<open>Properties\<close>

text \<open>
  C30. Publishing works end to end.  A record made by \<^verbatim>\<open>NewVersionRecord\<close> for a domain in normal form
  is valid; signed with a private key it verifies with the matching public key and is not changed by
  the check; its record hash is the hex form of the content hash under which its JSON is stored; and
  the latest pointer made from it is valid and matches it.  The hypotheses are the key sizes and the
  correctness of Ed25519 for this key pair.
\<close>

theorem publish_roundtrip:
  assumes "NewVersionRecord E domain pkg version blobHash prevVR = Inr vr0"
    and "NormalizeDomain E (NormalizeDomain E domain) = NormalizeDomain E domain"
    and "length priv = PrivateKeySize" and "length pub = PublicKeySize"
    and "\<And>m. length (ed25519_Sign E priv m) = SignatureSize"
    and "\<And>m. ed25519_Verify E pub m (ed25519_Sign E priv m)"
  shows "\<exists>vr lp. VersionRecord_Sign E (Some vr0) priv = Some (Some vr, Inr ()) \<and>
    VersionRecord_Verify E (Some vr) pub = (Some vr, Inr ()) \<and>
    RecordHash E (Some vr) = Inr (KademliaID_String (NewKademliaIDFromData (sha256 E) (json_VersionRecord E vr))) \<and>
    VersionRecord_NewLatestPointer E (Some vr) = Inr lp \<and> LatestPointer_Validate E (Some lp) = Inr () \<and>
    MatchesRecord E (Some lp) (Some vr) = Inr True"
proof -
  note new = NewVersionRecord_ok [OF assms(1)]
  obtain v where v: "vr_Version vr0 = Version_String v" using new(6) by blast
  define sig where "sig = ed25519_Sign E priv (id_bytes (sha256 E (json_VersionRecord E (vr0\<lparr>vr_Signature := []\<rparr>))))"
  define vr where "vr = vr0\<lparr>vr_Signature := EncodeSignatureHex sig\<rparr>"
  have len: "length sig = SignatureSize" using assms(5) by (simp add: sig_def)
  have ok: "vr_ok E vr" using new(1) by (simp add: vr_def)
  have sgn: "VersionRecord_Sign E (Some vr0) priv = Some (Some vr, Inr ())"
    using VersionRecord_Sign_ok [OF new(1) assms(3)] by (simp add: vr_def sig_def)
  have ne: "vr_Signature vr \<noteq> []" using EncodeSignatureHex_nonempty [OF len] by (simp add: vr_def)
  have "ed25519_Verify E pub (id_bytes (sha256 E (json_VersionRecord E (vr\<lparr>vr_Signature := []\<rparr>)))) sig"
    using assms(6) by (simp add: sig_def vr_def)
  with ok ne len assms(4) have "snd (VersionRecord_Verify E (Some vr) pub) = Inr ()"
    by (auto simp: VersionRecord_Verify_iff vr_def)
  with VersionRecord_Verify_fst [OF ok, of pub] have ver: "VersionRecord_Verify E (Some vr) pub = (Some vr, Inr ())"
    by (metis prod.collapse)
  have hash: "RecordHash E (Some vr) = Inr (hex_EncodeToString (id_bytes (sha256 E (json_VersionRecord E vr))))"
    using ne by (simp add: RecordHash_def RecordHashBytes_def)
  have "NormalizeDomain E (vr_Domain vr) = vr_Domain vr" "TrimSpace (vr_Package vr) = vr_Package vr"
    "vr_Version vr = Version_String v"
    using new(2,4) assms(2) v by (simp_all add: vr_def)
  note NewLatestPointer_of_record [OF ok this, of "sha256 E (json_VersionRecord E vr)"]
  then have lp: "\<exists>lp. VersionRecord_NewLatestPointer E (Some vr) = Inr lp \<and> lp_ok E lp \<and>
      MatchesRecord E (Some lp) (Some vr) = Inr True"
    using ok hash by (auto simp: VersionRecord_NewLatestPointer_def MatchesRecord_def lp_ok_def vr_ok_def
        IDLength_def)
  show ?thesis
    using sgn ver hash lp lp_ok_Validate [of E] unfolding KademliaID_String_def NewKademliaIDFromData_def by blast
qed

lemma demo_lower_hash: "ToLower demo_env (TrimSpace (replicate 64 (CHR ''a''))) = replicate 64 (CHR ''a'')"
proof -
  have "list_all is_lower_hex (replicate 64 (CHR ''a''))" by (simp add: list_all_iff is_lower_hex_def)
  moreover from this have "TrimSpace (replicate 64 (CHR ''a'')) = replicate 64 (CHR ''a'')"
    using is_lower_hex_no_space by (intro TrimSpace_all_no_space) (auto simp: list_all_iff)
  ultimately show ?thesis by (simp add: ToLower_lower_hex)
qed

theorem publish_roundtrip_witness:
  "\<exists>vr0 vr. NewVersionRecord demo_env ''example.com'' ''pkg'' ''1.0.0'' (replicate 64 (CHR ''a'')) '''' = Inr vr0 \<and>
    VersionRecord_Sign demo_env (Some vr0) (replicate 64 0) = Some (Some vr, Inr ()) \<and>
    VersionRecord_Verify demo_env (Some vr) (replicate 32 0) = (Some vr, Inr ())"
proof -
  have "TrimSpace [] = []" by (rule TrimSpace_id) simp
  then have "\<exists>vr0. NewVersionRecord demo_env ''example.com'' ''pkg'' ''1.0.0'' (replicate 64 (CHR ''a'')) '''' = Inr vr0"
    using demo_valid demo_versions demo_lower_hash
    by (simp add: NewVersionRecord_def Let_def ToLower_def [of _ "[]"] is_ascii_def)
  then obtain vr0 where vr0:
    "NewVersionRecord demo_env ''example.com'' ''pkg'' ''1.0.0'' (replicate 64 (CHR ''a'')) '''' = Inr vr0" ..
  show ?thesis
    using publish_roundtrip [OF vr0, of "replicate 64 0" "replicate 32 0"] vr0 demo_valid(2)
    by (auto simp: demo_env_def PrivateKeySize_def PublicKeySize_def SignatureSize_def)
qed

text \<open>
  Packages do not share a pointer key: two valid names with the same key string are the same
  domain and the same package, up to normalization.
\<close>

theorem LatestPointerKeyString_inj:
  assumes "IsValidDomain E d1" and "IsValidDomain E d2"
    and "IsValidPackageName p1" and "IsValidPackageName p2"
  shows "LatestPointerKeyString E d1 p1 = LatestPointerKeyString E d2 p2 \<longleftrightarrow>
    NormalizeDomain E d1 = NormalizeDomain E d2 \<and> TrimSpace p1 = TrimSpace p2"
  using valid_domain_no_colon [OF assms(1)] valid_domain_no_colon [OF assms(2)]
    valid_package_no_colon [OF assms(3)] valid_package_no_colon [OF assms(4)]
  by (simp add: LatestPointerKeyString_def append_sep_inj)

theorem LatestPointerKeyString_inj_witness:
  "LatestPointerKeyString demo_env ''example.com'' ''pkg'' = LatestPointerKeyString demo_env ''example.com'' ''pkg''
   \<longleftrightarrow> NormalizeDomain demo_env ''example.com'' = NormalizeDomain demo_env ''example.com'' \<and>
     TrimSpace ''pkg'' = TrimSpace ''pkg''"
  by (rule LatestPointerKeyString_inj) (rule demo_valid)+

end
