(* ===== verification/Reg_Validator.thy ===== *)
theory Reg_Validator
  imports Reg_Records
begin

text \<open>
  \<^verbatim>\<open>src/registry/validator.go\<close>: the validation of a latest pointer against the signed history of its
  package, and the walk over a history.  A \<^verbatim>\<open>RecordGetter\<close> may have effects (in the node it can run a
  lookup in the network), so it takes and returns a state \<open>'s\<close>, and so does a \<^verbatim>\<open>RecordSaver\<close>.  The
  loops are recursive with the depth limit as measure.  The specification of an acceptable history is
  \<open>valid_history\<close>; the theorems say that the code accepts exactly the pointers that have one.
\<close>

section \<open>Interfaces\<close>

type_synonym 's RecordGetter = "'s \<Rightarrow> string \<Rightarrow> bytes result \<times> 's"
type_synonym 's RecordSaver = "'s \<Rightarrow> string \<Rightarrow> bytes \<Rightarrow> 's"

definition DefaultMaxChainDepth :: int where
  "DefaultMaxChainDepth = 1000"

text \<open>The hash of the predecessor, as the loops compute it.\<close>

definition prev_hash :: "'e unicode_env_scheme \<Rightarrow> VersionRecord \<Rightarrow> string" where
  "prev_hash E vr =
     (let prev = ToLower E (TrimSpace (vr_PreviousVersionRecord vr)) in
      if prev = [] then ZeroHash else prev)"

section \<open>Validation\<close>

text \<open>The checks before the loop: the owner's key and the hash at which the history must arrive.\<close>

definition pointer_checks ::
  "'e reg_env_scheme \<Rightarrow> LatestPointer \<Rightarrow> LatestPointer option \<Rightarrow> DNSResolver option \<Rightarrow>
   (bytes \<times> string) result" where
  "pointer_checks E lp existingLP resolver =
     err_bind (wrap ErrInvalidLatestPointer (LatestPointer_Validate E (Some lp))) (\<lambda>_.
     err_bind (check (\<not> EqualFold E (TrimSpace (lp_VersionRecordHash lp)) ZeroHash)
       ErrInvalidLatestPointer) (\<lambda>_.
     case resolver of
       None \<Rightarrow> Inl ErrNoDNSResolver
     | Some lookup \<Rightarrow>
         err_bind (wrap ErrUnauthorized (lookup (lp_Domain lp))) (\<lambda>ownerPub.
         err_bind (wrap ErrUnauthorized (LatestPointer_Verify E (Some lp) ownerPub)) (\<lambda>_.
         case existingLP of
           None \<Rightarrow> Inr (ownerPub, ZeroHash)
         | Some old \<Rightarrow>
             err_bind (LatestPointer_Validate E existingLP) (\<lambda>_.
             err_bind (check (\<not> EqualFold E (TrimSpace (lp_VersionRecordHash old)) ZeroHash)
               ErrInvalidLatestPointer) (\<lambda>_.
             err_bind (check (lp_Domain old = lp_Domain lp \<and> lp_Package old = lp_Package lp)
               ErrDomainMismatch) (\<lambda>_.
             err_bind (LatestPointer_CompareVersion (Some lp) existingLP) (\<lambda>cmp.
             err_bind (check (\<not> cmp \<le> 0) ErrVersionRollback) (\<lambda>_.
             err_bind (check (\<not> EqualFold E (lp_VersionRecordHash lp) (lp_VersionRecordHash old))
               ErrHistoryFork) (\<lambda>_.
             Inr (ownerPub, lp_VersionRecordHash old)))))))))))"

text \<open>
  What the loop checks of the bytes it got for \<open>currentHash\<close>: the record and its version.
\<close>

definition check_record ::
  "'e reg_env_scheme \<Rightarrow> LatestPointer \<Rightarrow> bytes \<Rightarrow> bool \<Rightarrow> Version \<Rightarrow> string \<Rightarrow> bytes result \<Rightarrow>
   (bytes \<times> VersionRecord \<times> Version) result" where
  "check_record E lp ownerPub isHead lastVer currentHash got =
     (case got of
        Inl _ \<Rightarrow> Inl ErrMissingVersionRecord
      | Inr recBytes \<Rightarrow>
          if length recBytes = 0 then Inl ErrMissingVersionRecord
          else if hex_EncodeToString (id_bytes (sha256 E recBytes)) \<noteq> currentHash
          then Inl ErrCorruptRecord
          else err_bind (wrap ErrCorruptRecord (ParseVersionRecord E recBytes)) (\<lambda>vr.
            if vr_Domain vr \<noteq> lp_Domain lp \<or> vr_Package vr \<noteq> lp_Package lp
            then Inl ErrDomainMismatch
            else err_bind (wrap ErrUnauthorized (snd (VersionRecord_Verify E (Some vr) ownerPub))) (\<lambda>_.
              err_bind (VersionRecord_ParsedVersion (Some vr)) (\<lambda>vrVer.
                if isHead \<and> vr_Version vr \<noteq> lp_Version lp then Inl ErrInvalidHistoryChain
                else if \<not> isHead \<and> Version_Compare lastVer vrVer \<le> 0 then Inl ErrInvalidHistoryChain
                else Inr (recBytes, vr, vrVer)))))"

function chain_loop ::
  "'e reg_env_scheme \<Rightarrow> LatestPointer \<Rightarrow> bool \<Rightarrow> bytes \<Rightarrow> 's RecordGetter \<Rightarrow> nat \<Rightarrow> string \<Rightarrow>
   string \<Rightarrow> string list \<Rightarrow> bool \<Rightarrow> Version \<Rightarrow> (string \<times> bytes) list \<Rightarrow> 's \<Rightarrow>
   (Version \<times> (string \<times> bytes) list) result \<times> 's" where
  "chain_loop E lp hasExisting ownerPub getter maxDepth normTarget currentHash visited isHead lastVer toSave s =
     (if currentHash = normTarget then (Inr (lastVer, toSave), s)
      else if currentHash = ZeroHash then
        (if hasExisting then (Inl ErrHistoryFork, s) else (Inr (lastVer, toSave), s))
      else if currentHash \<in> set visited then (Inl ErrInvalidHistoryChain, s)
      else if length (currentHash # visited) > maxDepth then (Inl ErrInvalidHistoryChain, s)
      else
        (let (got, s1) = getter s currentHash in
         case check_record E lp ownerPub isHead lastVer currentHash got of
           Inl e \<Rightarrow> (Inl e, s1)
         | Inr (recBytes, vr, vrVer) \<Rightarrow>
             chain_loop E lp hasExisting ownerPub getter maxDepth normTarget (prev_hash E vr)
               (currentHash # visited) False vrVer (toSave @ [(currentHash, recBytes)]) s1))"
  by pat_completeness auto
termination
  by (relation "measure (\<lambda>(E, lp, x, pub, g, maxDepth, t, c, visited, r). maxDepth - length visited)") auto

declare chain_loop.simps [simp del]

definition ValidateLatestPointerChainWithDepth ::
  "'e reg_env_scheme \<Rightarrow> LatestPointer option \<Rightarrow> LatestPointer option \<Rightarrow> DNSResolver option \<Rightarrow>
   's RecordGetter option \<Rightarrow> 's RecordSaver option \<Rightarrow> int \<Rightarrow> 's \<Rightarrow> unit result \<times> 's" where
  "ValidateLatestPointerChainWithDepth E lp existingLP resolver getter saver maxDepth s =
     (case lp of
        None \<Rightarrow> (Inl ErrInvalidLatestPointer, s)
      | Some p \<Rightarrow>
          (case pointer_checks E p existingLP resolver of
             Inl e \<Rightarrow> (Inl e, s)
           | Inr (ownerPub, targetRecordHash) \<Rightarrow>
               (case getter of
                  None \<Rightarrow> (Inl ErrMissingVersionRecord, s)
                | Some get \<Rightarrow>
                    (let maxDepth = (if maxDepth \<le> 0 then DefaultMaxChainDepth else maxDepth);
                         normTarget = ToLower E (TrimSpace targetRecordHash);
                         currentHash = ToLower E (TrimSpace (lp_VersionRecordHash p)) in
                     case chain_loop E p (existingLP \<noteq> None) ownerPub get (nat maxDepth) normTarget
                            currentHash [] True (Version 0 0 0) [] s of
                       (Inl e, s1) \<Rightarrow> (Inl e, s1)
                     | (Inr (lastVer, toSave), s1) \<Rightarrow>
                         (case (if existingLP = None then Inr ()
                                else err_bind (LatestPointer_ParsedVersion existingLP) (\<lambda>existingVer.
                                  if Version_Compare lastVer existingVer \<le> 0
                                  then Inl ErrInvalidHistoryChain else Inr ())) of
                            Inl e \<Rightarrow> (Inl e, s1)
                          | Inr _ \<Rightarrow>
                              (Inr (), case saver of
                                 None \<Rightarrow> s1
                               | Some save \<Rightarrow> foldl (\<lambda>s (h, d). save s h d) s1 toSave))))))"

definition ValidateLatestPointerChain ::
  "'e reg_env_scheme \<Rightarrow> LatestPointer option \<Rightarrow> LatestPointer option \<Rightarrow> DNSResolver option \<Rightarrow>
   's RecordGetter option \<Rightarrow> 's RecordSaver option \<Rightarrow> 's \<Rightarrow> unit result \<times> 's" where
  "ValidateLatestPointerChain E lp existingLP resolver getter saver s =
     ValidateLatestPointerChainWithDepth E lp existingLP resolver getter saver DefaultMaxChainDepth s"

record 's PackageValidator =
  pv_Resolver :: "DNSResolver option"
  pv_Getter :: "'s RecordGetter option"
  pv_Saver :: "'s RecordSaver option"
  pv_MaxChainDepth :: int

definition NewPackageValidator ::
  "DNSResolver option \<Rightarrow> 's RecordGetter option \<Rightarrow> 's RecordSaver option list \<Rightarrow> 's PackageValidator" where
  "NewPackageValidator resolver getter saver =
     \<lparr>pv_Resolver = resolver, pv_Getter = getter,
      pv_Saver = (case saver of [] \<Rightarrow> None | sv # _ \<Rightarrow> sv), pv_MaxChainDepth = DefaultMaxChainDepth\<rparr>"

definition ValidatePublication ::
  "'e reg_env_scheme \<Rightarrow> 's PackageValidator option \<Rightarrow> LatestPointer option \<Rightarrow> LatestPointer option \<Rightarrow>
   's \<Rightarrow> unit result \<times> 's" where
  "ValidatePublication E pv lp existingLP s =
     (case pv of
        None \<Rightarrow> (Inl (ErrText ''package validator is nil''), s)
      | Some v \<Rightarrow>
          ValidateLatestPointerChainWithDepth E lp existingLP (pv_Resolver v) (pv_Getter v) (pv_Saver v)
            (if pv_MaxChainDepth v \<le> 0 then DefaultMaxChainDepth else pv_MaxChainDepth v) s)"

section \<open>Walking a history\<close>

function walk_loop ::
  "'e reg_env_scheme \<Rightarrow> 's RecordGetter \<Rightarrow> nat \<Rightarrow> string \<Rightarrow> string list \<Rightarrow> VersionRecord list \<Rightarrow> 's \<Rightarrow>
   (VersionRecord list \<times> unit result) \<times> 's" where
  "walk_loop E getter maxDepth currentHash visited chain s =
     (if currentHash = [] \<or> currentHash = ZeroHash then ((chain, Inr ()), s)
      else if currentHash \<in> set visited then ((chain, Inl ErrInvalidHistoryChain), s)
      else if length (currentHash # visited) > maxDepth then ((chain, Inl ErrInvalidHistoryChain), s)
      else
        (let (got, s1) = getter s currentHash in
         case got of
           Inl _ \<Rightarrow> ((chain, Inl ErrMissingVersionRecord), s1)
         | Inr data \<Rightarrow>
             if length data = 0 then ((chain, Inl ErrMissingVersionRecord), s1)
             else if hex_EncodeToString (id_bytes (sha256 E data)) \<noteq> currentHash
             then ((chain, Inl ErrCorruptRecord), s1)
             else (case ParseVersionRecord E data of
               Inl _ \<Rightarrow> ((chain, Inl ErrCorruptRecord), s1)
             | Inr vr \<Rightarrow>
                 walk_loop E getter maxDepth (prev_hash E vr) (currentHash # visited) (chain @ [vr]) s1)))"
  by pat_completeness auto
termination
  by (relation "measure (\<lambda>(E, g, maxDepth, c, visited, r). maxDepth - length visited)") auto

declare walk_loop.simps [simp del]

definition WalkVersionChainWithDepth ::
  "'e reg_env_scheme \<Rightarrow> string \<Rightarrow> 's RecordGetter option \<Rightarrow> int \<Rightarrow> 's \<Rightarrow>
   (VersionRecord list \<times> unit result) \<times> 's" where
  "WalkVersionChainWithDepth E headHash getter maxDepth s =
     (case getter of
        None \<Rightarrow> (([], Inl (ErrText ''record getter is nil'')), s)
      | Some get \<Rightarrow>
          (let maxDepth = (if maxDepth \<le> 0 then DefaultMaxChainDepth else maxDepth);
               normHead = ToLower E (TrimSpace headHash) in
           if normHead = [] \<or> normHead = ZeroHash then (([], Inr ()), s)
           else walk_loop E get (nat maxDepth) normHead [] [] s))"

definition WalkVersionChain ::
  "'e reg_env_scheme \<Rightarrow> string \<Rightarrow> 's RecordGetter option \<Rightarrow> 's \<Rightarrow>
   (VersionRecord list \<times> unit result) \<times> 's" where
  "WalkVersionChain E headHash getter s =
     WalkVersionChainWithDepth E headHash getter DefaultMaxChainDepth s"

section \<open>Specification\<close>

text \<open>An entry of a history: a hash, the bytes stored under it and the record they encode.\<close>

type_synonym entry = "string \<times> bytes \<times> VersionRecord"

definition vr_ver :: "VersionRecord \<Rightarrow> Version" where
  "vr_ver vr = (case ParseVersion (vr_Version vr) of Inl _ \<Rightarrow> Version 0 0 0 | Inr v \<Rightarrow> v)"

definition lp_ver :: "LatestPointer \<Rightarrow> Version" where
  "lp_ver lp = (case ParseVersion (lp_Version lp) of Inl _ \<Rightarrow> Version 0 0 0 | Inr v \<Rightarrow> v)"

abbreviation entry_ver :: "entry \<Rightarrow> Version" where
  "entry_ver e \<equiv> vr_ver (snd (snd e))"

text \<open>The entry is authentic: its hash is right and the owner signed it for this package.\<close>

fun entry_ok :: "'e reg_env_scheme \<Rightarrow> LatestPointer \<Rightarrow> bytes \<Rightarrow> entry \<Rightarrow> bool" where
  "entry_ok E lp pub (h, d, vr) \<longleftrightarrow>
     d \<noteq> [] \<and> hex_EncodeToString (id_bytes (sha256 E d)) = h \<and> ParseVersionRecord E d = Inr vr \<and>
     vr_Domain vr = lp_Domain lp \<and> vr_Package vr = lp_Package lp \<and>
     snd (VersionRecord_Verify E (Some vr) pub) = Inr ()"

text \<open>The entries link \<open>h\<close> back to \<open>t\<close>.\<close>

fun linked :: "'e unicode_env_scheme \<Rightarrow> string \<Rightarrow> entry list \<Rightarrow> string \<Rightarrow> bool" where
  "linked E t [] h \<longleftrightarrow> h = t"
| "linked E t ((h', d, vr) # es) h \<longleftrightarrow>
     h' = h \<and> h \<noteq> t \<and> h \<noteq> ZeroHash \<and> linked E t es (prev_hash E vr)"

definition versions_ok :: "LatestPointer \<Rightarrow> bool \<Rightarrow> Version \<Rightarrow> entry list \<Rightarrow> bool" where
  "versions_ok lp isHead lastVer es \<longleftrightarrow>
     (if isHead then (case es of [] \<Rightarrow> True | (h, d, vr) # _ \<Rightarrow> vr_Version vr = lp_Version lp)
      else list_all (\<lambda>e. entry_ver e < lastVer) es) \<and>
     sorted_wrt (\<lambda>v w. w < v) (map entry_ver es)"

definition valid_history ::
  "'e reg_env_scheme \<Rightarrow> LatestPointer \<Rightarrow> LatestPointer option \<Rightarrow> bytes \<Rightarrow> nat \<Rightarrow> entry list \<Rightarrow> bool" where
  "valid_history E lp existingLP pub maxDepth es \<longleftrightarrow>
     es \<noteq> [] \<and> list_all (entry_ok E lp pub) es \<and>
     linked E (case existingLP of None \<Rightarrow> ZeroHash
                | Some old \<Rightarrow> ToLower E (TrimSpace (lp_VersionRecordHash old))) es
       (ToLower E (TrimSpace (lp_VersionRecordHash lp))) \<and>
     versions_ok lp True (Version 0 0 0) es \<and> distinct (map fst es) \<and> length es \<le> maxDepth \<and>
     (case existingLP of None \<Rightarrow> True | Some old \<Rightarrow> lp_ver old < entry_ver (last es))"

abbreviation strip :: "entry list \<Rightarrow> (string \<times> bytes) list" where
  "strip es \<equiv> map (\<lambda>e. (fst e, fst (snd e))) es"

section \<open>The loop and the specification\<close>

lemma if_Inl_Inr [simp]: "(if b then Inl e else r) = Inr x \<longleftrightarrow> \<not> b \<and> r = Inr x"
  by simp

lemma check_record_iff:
  "check_record E lp pub isHead lastVer h got = Inr (d, vr, v) \<longleftrightarrow>
     got = Inr d \<and> entry_ok E lp pub (h, d, vr) \<and> v = vr_ver vr \<and>
     (if isHead then vr_Version vr = lp_Version lp else vr_ver vr < lastVer)"
proof (cases got)
  case (Inl e)
  then show ?thesis by (simp add: check_record_def)
next
  case (Inr b)
  have pv: "(ParseVersion (vr_Version vr) = Inr v) = (v = vr_ver vr)" if "ParseVersionRecord E b = Inr vr" for vr
    using ParseVersionRecord_ok [OF that] by (auto simp: vr_ok_def vr_ver_def)
  have "check_record E lp pub isHead lastVer h got = Inr (d, vr, v) \<longleftrightarrow>
    d = b \<and> entry_ok E lp pub (h, b, vr) \<and> ParseVersion (vr_Version vr) = Inr v \<and>
    (if isHead then vr_Version vr = lp_Version lp else v < lastVer)"
    unfolding check_record_def Inr
    by (simp add: VersionRecord_ParsedVersion_def not_le cong: conj_cong) metis
  with pv Inr show ?thesis by auto
qed

lemma check_record_cases:
  obtains (err) e where "check_record E lp pub isHead lastVer h got = Inl e"
  | (ok) d vr v where "check_record E lp pub isHead lastVer h got = Inr (d, vr, v)"
  by (cases "check_record E lp pub isHead lastVer h got") auto

text \<open>One round of the loop, when it goes on.\<close>

lemma chain_loop_step:
  assumes "c \<noteq> t" and "c \<noteq> ZeroHash" and "c \<notin> set vis" and "length vis < n"
    and "get s c = (got, s1)" and "check_record E lp pub isHead lastVer c got = Inr (d, vr, v)"
  shows "chain_loop E lp x pub get n t c vis isHead lastVer sv s =
    chain_loop E lp x pub get n t (prev_hash E vr) (c # vis) False v (sv @ [(c, d)]) s1"
  using assms by (subst chain_loop.simps) simp

lemma chain_loop_OK_cases:
  assumes "chain_loop E lp x pub get n t c vis isHead lastVer sv s = (Inr (lv', sv'), s')"
    and "x \<or> t = ZeroHash"
  obtains (stop) "c = t" "lv' = lastVer" "sv' = sv" "s' = s"
  | (go) got s1 d vr where "c \<noteq> t" "c \<noteq> ZeroHash" "c \<notin> set vis" "length vis < n"
      "get s c = (got, s1)" "check_record E lp pub isHead lastVer c got = Inr (d, vr, vr_ver vr)"
      "chain_loop E lp x pub get n t (prev_hash E vr) (c # vis) False (vr_ver vr) (sv @ [(c, d)]) s1 =
        (Inr (lv', sv'), s')"
proof (cases "c = t")
  case True
  with assms(1) have "lv' = lastVer" "sv' = sv" "s' = s" by (simp_all add: chain_loop.simps)
  with True stop show ?thesis by simp
next
  case False
  obtain got s1 where g: "get s c = (got, s1)" by force
  have guards: "c \<noteq> ZeroHash" "c \<notin> set vis" "length vis < n"
    using assms False by (auto simp: chain_loop.simps [of _ _ _ _ _ _ _ c] split: if_splits)
  with assms(1) False g obtain d vr v where
    chk: "check_record E lp pub isHead lastVer c got = Inr (d, vr, v)"
    by (cases rule: check_record_cases [of E lp pub isHead lastVer c got])
      (auto simp: chain_loop.simps [of _ _ _ _ _ _ _ c])
  then have "v = vr_ver vr" by (simp add: check_record_iff)
  with chk chain_loop_step [where get = get and s = s, OF False guards g chk] assms(1) False guards g show ?thesis
    by (intro go) auto
qed

lemma chain_loop_sound:
  assumes "chain_loop E lp x pub get n t c vis isHead lastVer sv s = (Inr (lv', sv'), s')"
    and "x \<or> t = ZeroHash"
  shows "\<exists>es. sv' = sv @ strip es \<and> linked E t es c \<and> list_all (entry_ok E lp pub) es \<and>
    versions_ok lp isHead lastVer es \<and> distinct (map fst es) \<and> set (map fst es) \<inter> set vis = {} \<and>
    (es \<noteq> [] \<longrightarrow> length es + length vis \<le> n) \<and> lv' = last (lastVer # map entry_ver es) \<and>
    (\<forall>g. get = (\<lambda>s h. (g h, s)) \<longrightarrow> list_all (\<lambda>e. g (fst e) = Inr (fst (snd e))) es)"
  using assms
proof (induction "n - length vis" arbitrary: c vis isHead lastVer sv s rule: less_induct)
  case less
  from less.prems show ?case
  proof (cases rule: chain_loop_OK_cases)
    case stop
    then show ?thesis by (intro exI [of _ "[]"]) (simp add: versions_ok_def)
  next
    case (go got s1 d vr)
    have "n - length (c # vis) < n - length vis" using go(4) by simp
    from less.hyps [OF this go(7) less.prems(2)] obtain es where
      es: "sv' = (sv @ [(c, d)]) @ strip es" "linked E t es (prev_hash E vr)"
        "list_all (entry_ok E lp pub) es" "versions_ok lp False (vr_ver vr) es"
        "distinct (map fst es)" "set (map fst es) \<inter> set (c # vis) = {}"
        "es \<noteq> [] \<longrightarrow> length es + length (c # vis) \<le> n" "lv' = last (vr_ver vr # map entry_ver es)"
        "\<forall>g. get = (\<lambda>s h. (g h, s)) \<longrightarrow> list_all (\<lambda>e. g (fst e) = Inr (fst (snd e))) es"
      by blast
    note chk = go(6) [unfolded check_record_iff]
    have "versions_ok lp isHead lastVer ((c, d, vr) # es)"
      using chk es(4) by (auto simp: versions_ok_def list_all_iff split: if_splits)
    moreover have "g c = Inr d" if "get = (\<lambda>s h. (g h, s))" for g
      using go(5) chk that by auto
    ultimately show ?thesis
      using es go(1,2,3,4) chk by (intro exI [of _ "(c, d, vr) # es"]) auto
  qed
qed

text \<open>A getter that knows the entries and answers without effect leads the loop through them.\<close>

lemma chain_loop_complete:
  assumes "linked E t es c" and "list_all (entry_ok E lp pub) es" and "versions_ok lp isHead lastVer es"
    and "distinct (map fst es)" and "set (map fst es) \<inter> set vis = {}" and "length es + length vis \<le> n"
    and "list_all (\<lambda>e. get s (fst e) = (Inr (fst (snd e)), s)) es"
  shows "chain_loop E lp x pub get n t c vis isHead lastVer sv s =
    (Inr (last (lastVer # map entry_ver es), sv @ strip es), s)"
  using assms
proof (induction es arbitrary: c vis isHead lastVer sv)
  case Nil
  then show ?case by (simp add: chain_loop.simps)
next
  case (Cons e es)
  obtain h d vr where e: "e = (h, d, vr)" by (cases e)
  from Cons.prems(1) e have c: "h = c" "c \<noteq> t" "c \<noteq> ZeroHash" "linked E t es (prev_hash E vr)" by auto
  have chk: "check_record E lp pub isHead lastVer c (Inr d) = Inr (d, vr, vr_ver vr)"
    using Cons.prems(2,3) e c(1) by (auto simp: check_record_iff versions_ok_def split: if_splits)
  have v: "versions_ok lp False (vr_ver vr) es"
    using Cons.prems(3) e by (auto simp: versions_ok_def list_all_iff)
  have "chain_loop E lp x pub get n t c vis isHead lastVer sv s =
    chain_loop E lp x pub get n t (prev_hash E vr) (c # vis) False (vr_ver vr) (sv @ [(c, d)]) s"
    by (rule chain_loop_step [where got = "Inr d"]) (use c Cons.prems(5,6,7) e chk in auto)
  also have "\<dots> = (Inr (last (vr_ver vr # map entry_ver es), (sv @ [(c, d)]) @ strip es), s)"
    by (rule Cons.IH) (use c v Cons.prems e in auto)
  finally show ?case using e c(1) by simp
qed

section \<open>The checks before the loop\<close>

definition pointer_ok ::
  "'e reg_env_scheme \<Rightarrow> LatestPointer \<Rightarrow> LatestPointer option \<Rightarrow> DNSResolver option \<Rightarrow> bytes \<Rightarrow> bool" where
  "pointer_ok E lp existingLP resolver pub \<longleftrightarrow>
     \<not> EqualFold E (TrimSpace (lp_VersionRecordHash lp)) ZeroHash \<and>
     map_option (\<lambda>lookup. lookup (lp_Domain lp)) resolver = Some (Inr pub) \<and>
     LatestPointer_Verify E (Some lp) pub = Inr () \<and>
     (case existingLP of
        None \<Rightarrow> True
      | Some old \<Rightarrow> lp_ok E old \<and> \<not> EqualFold E (TrimSpace (lp_VersionRecordHash old)) ZeroHash \<and>
          lp_Domain old = lp_Domain lp \<and> lp_Package old = lp_Package lp \<and> lp_ver old < lp_ver lp \<and>
          \<not> EqualFold E (lp_VersionRecordHash lp) (lp_VersionRecordHash old))"

definition target_hash :: "LatestPointer option \<Rightarrow> string" where
  "target_hash existingLP = (case existingLP of None \<Rightarrow> ZeroHash | Some old \<Rightarrow> lp_VersionRecordHash old)"

lemma lp_ok_version: "lp_ok E lp \<Longrightarrow> ParseVersion (lp_Version lp) = Inr v \<longleftrightarrow> v = lp_ver lp"
  by (auto simp: lp_ok_def lp_ver_def)

lemma CompareVersion_ok:
  assumes "lp_ok E lp" and "lp_ok E old"
  shows "LatestPointer_CompareVersion (Some lp) (Some old) = Inr (Version_Compare (lp_ver lp) (lp_ver old))"
  using lp_ok_version [OF assms(1)] lp_ok_version [OF assms(2)]
  by (simp add: LatestPointer_CompareVersion_def LatestPointer_ParsedVersion_def)

lemma pointer_checks_iff:
  "pointer_checks E lp existingLP resolver = Inr (pub, tgt) \<longleftrightarrow>
     pointer_ok E lp existingLP resolver pub \<and> tgt = target_hash existingLP"
proof (cases resolver)
  case None
  then show ?thesis by (simp add: pointer_checks_def pointer_ok_def)
next
  case (Some lookup)
  show ?thesis
  proof (cases existingLP)
    case None
    then show ?thesis
      using Some by (auto simp: pointer_checks_def pointer_ok_def target_hash_def LatestPointer_Verify_iff)
  next
    case (Some old)
    have cmp: "(\<exists>c. LatestPointer_CompareVersion (Some lp) (Some old) = Inr c \<and> \<not> c \<le> 0) \<longleftrightarrow> lp_ver old < lp_ver lp"
      if "lp_ok E lp" "lp_ok E old"
      using CompareVersion_ok [OF that] by (auto simp: not_le)
    show ?thesis
      unfolding pointer_checks_def pointer_ok_def target_hash_def Some \<open>resolver = Some lookup\<close>
      using cmp by (auto simp: LatestPointer_Verify_iff)
  qed
qed

lemma Version_zero_least [simp]: "\<not> v < Version 0 0 0"
  by (auto simp: less_Version_def Version_Compare_def split: if_splits)

lemma norm_ZeroHash [simp]: "ToLower E (TrimSpace ZeroHash) = ZeroHash"
proof -
  have z: "list_all is_lower_hex ZeroHash" by (simp add: ZeroHash_def list_all_iff is_lower_hex_def)
  then have "TrimSpace ZeroHash = ZeroHash"
    using is_lower_hex_no_space by (intro TrimSpace_all_no_space) (auto simp: list_all_iff)
  with z show ?thesis by (simp add: ToLower_lower_hex)
qed

text \<open>The check after the loop.\<close>

definition after_loop :: "LatestPointer option \<Rightarrow> Version \<Rightarrow> unit result" where
  "after_loop existingLP lastVer =
     (if existingLP = None then Inr ()
      else err_bind (LatestPointer_ParsedVersion existingLP) (\<lambda>existingVer.
        if Version_Compare lastVer existingVer \<le> 0 then Inl ErrInvalidHistoryChain else Inr ()))"

lemma after_loop_iff:
  "pointer_ok E lp existingLP resolver pub \<Longrightarrow> after_loop existingLP v = Inr () \<longleftrightarrow>
     (case existingLP of None \<Rightarrow> True | Some old \<Rightarrow> lp_ver old < v)"
  by (auto simp: after_loop_def pointer_ok_def LatestPointer_ParsedVersion_def lp_ok_version not_le
      split: option.splits)

text \<open>The depth the code uses.\<close>

definition depth :: "int \<Rightarrow> nat" where
  "depth maxDepth = nat (if maxDepth \<le> 0 then DefaultMaxChainDepth else maxDepth)"

abbreviation the_loop where
  "the_loop E lp existingLP pub get maxDepth s \<equiv>
     chain_loop E lp (existingLP \<noteq> None) pub get (depth maxDepth)
       (ToLower E (TrimSpace (target_hash existingLP))) (ToLower E (TrimSpace (lp_VersionRecordHash lp)))
       [] True (Version 0 0 0) [] s"

lemma Validate_unfold:
  assumes "pointer_ok E lp existingLP resolver pub"
  shows "ValidateLatestPointerChainWithDepth E (Some lp) existingLP resolver (Some get) saver maxDepth s =
    (case the_loop E lp existingLP pub get maxDepth s of
       (Inl e, s1) \<Rightarrow> (Inl e, s1)
     | (Inr (lastVer, toSave), s1) \<Rightarrow>
         (case after_loop existingLP lastVer of
            Inl e \<Rightarrow> (Inl e, s1)
          | Inr _ \<Rightarrow> (Inr (), case saver of None \<Rightarrow> s1
              | Some save \<Rightarrow> foldl (\<lambda>s (h, d). save s h d) s1 toSave)))"
proof -
  have "pointer_checks E lp existingLP resolver = Inr (pub, target_hash existingLP)"
    using assms pointer_checks_iff by blast
  then show ?thesis
    by (simp only: ValidateLatestPointerChainWithDepth_def after_loop_def Let_def depth_def option.case sum.case
        prod.case)
qed

lemma Validate_OK_pointer:
  assumes "fst (ValidateLatestPointerChainWithDepth E lp' existingLP resolver getter saver maxDepth s) = Inr u"
  obtains lp pub get where "lp' = Some lp" "getter = Some get" "pointer_ok E lp existingLP resolver pub"
  using assms pointer_checks_iff
  by (fastforce simp: ValidateLatestPointerChainWithDepth_def split: option.splits sum.splits)

lemma linked_target:
  "linked E (ToLower E (TrimSpace (target_hash existingLP))) es h =
   linked E (case existingLP of None \<Rightarrow> ZeroHash
      | Some old \<Rightarrow> ToLower E (TrimSpace (lp_VersionRecordHash old))) es h"
  by (simp add: target_hash_def split: option.splits)

section \<open>Acceptance\<close>

text \<open>
  Lower-casing to the zero hash is folding to the zero hash: true of Unicode, where nothing but the
  digit itself lower-cases to a digit; for ASCII strings it is a fact, not a hypothesis.
\<close>

definition zero_folds :: "'e unicode_env_scheme \<Rightarrow> string \<Rightarrow> bool" where
  "zero_folds E h \<longleftrightarrow> (ToLower E (TrimSpace h) = ZeroHash \<longrightarrow> EqualFold E (TrimSpace h) ZeroHash)"

lemma zero_folds_ascii: "is_ascii (TrimSpace h) \<Longrightarrow> zero_folds E h"
  by (auto simp: zero_folds_def EqualFold_def ToLower_def ZeroHash_def is_ascii_def list_all_iff
      ascii_lower_def)

lemma Validate_sound:
  assumes "fst (ValidateLatestPointerChainWithDepth E (Some lp) existingLP resolver (Some get) saver maxDepth s) = Inr ()"
    and "zero_folds E (lp_VersionRecordHash lp)"
  shows "\<exists>pub es. pointer_ok E lp existingLP resolver pub \<and> valid_history E lp existingLP pub (depth maxDepth) es \<and>
    (\<forall>g. get = (\<lambda>s h. (g h, s)) \<longrightarrow> list_all (\<lambda>e. g (fst e) = Inr (fst (snd e))) es) \<and>
    (case saver of None \<Rightarrow> True | Some save \<Rightarrow>
      snd (ValidateLatestPointerChainWithDepth E (Some lp) existingLP resolver (Some get) saver maxDepth s) =
      foldl (\<lambda>s e. save s (fst e) (fst (snd e)))
        (snd (ValidateLatestPointerChainWithDepth E (Some lp) existingLP resolver (Some get) None maxDepth s)) es)"
proof -
  obtain pub where pub: "pointer_ok E lp existingLP resolver pub"
    using Validate_OK_pointer [OF assms(1)] by auto
  note V = Validate_unfold [OF pub, where get = get and maxDepth = maxDepth and s = s]
  obtain lv toSave s1 where loop: "the_loop E lp existingLP pub get maxDepth s = (Inr (lv, toSave), s1)"
    using assms(1) unfolding V by (auto split: prod.splits sum.splits)
  have after: "after_loop existingLP lv = Inr ()"
    using assms(1) unfolding V loop by (auto split: sum.splits)
  have "existingLP \<noteq> None \<or> ToLower E (TrimSpace (target_hash existingLP)) = ZeroHash"
    by (cases existingLP) (simp_all add: target_hash_def)
  from chain_loop_sound [OF loop this] obtain es where
    es: "toSave = strip es" "linked E (ToLower E (TrimSpace (target_hash existingLP))) es (ToLower E (TrimSpace (lp_VersionRecordHash lp)))"
      "list_all (entry_ok E lp pub) es" "versions_ok lp True (Version 0 0 0) es" "distinct (map fst es)"
      "es \<noteq> [] \<longrightarrow> length es \<le> depth maxDepth" "lv = last (Version 0 0 0 # map entry_ver es)"
      "\<forall>g. get = (\<lambda>s h. (g h, s)) \<longrightarrow> list_all (\<lambda>e. g (fst e) = Inr (fst (snd e))) es"
    by auto
  have ne: "es \<noteq> []"
  proof
    assume "es = []"
    with es after after_loop_iff [OF pub, of lv] have "existingLP = None" by (cases existingLP) auto
    with \<open>es = []\<close> es(2) pub assms(2) show False
      by (simp add: target_hash_def zero_folds_def pointer_ok_def)
  qed
  then have "valid_history E lp existingLP pub (depth maxDepth) es"
    using es after after_loop_iff [OF pub, of lv]
    by (auto simp: valid_history_def linked_target last_map split: option.splits)
  moreover have "case saver of None \<Rightarrow> True | Some save \<Rightarrow>
      snd (ValidateLatestPointerChainWithDepth E (Some lp) existingLP resolver (Some get) saver maxDepth s) =
      foldl (\<lambda>s e. save s (fst e) (fst (snd e)))
        (snd (ValidateLatestPointerChainWithDepth E (Some lp) existingLP resolver (Some get) None maxDepth s)) es"
    unfolding V loop using after es(1) by (auto simp: foldl_map split: option.splits)
  ultimately show ?thesis using pub es(8) by blast
qed

lemma Validate_complete:
  assumes "pointer_ok E lp existingLP resolver pub" and "valid_history E lp existingLP pub (depth maxDepth) es"
    and "list_all (\<lambda>e. get s (fst e) = (Inr (fst (snd e)), s)) es"
  shows "fst (ValidateLatestPointerChainWithDepth E (Some lp) existingLP resolver
    (Some get) saver maxDepth s) = Inr ()"
proof -
  note V = Validate_unfold [OF assms(1), where get = get and maxDepth = maxDepth and s = s]
  have h: "linked E (ToLower E (TrimSpace (target_hash existingLP))) es (ToLower E (TrimSpace (lp_VersionRecordHash lp)))"
    "list_all (entry_ok E lp pub) es" "versions_ok lp True (Version 0 0 0) es" "distinct (map fst es)"
    "length es \<le> depth maxDepth" "es \<noteq> []"
    using assms(2) by (auto simp: valid_history_def linked_target)
  have loop: "the_loop E lp existingLP pub get maxDepth s =
    (Inr (last (Version 0 0 0 # map entry_ver es), [] @ strip es), s)"
    by (rule chain_loop_complete) (use h assms(3) in simp_all)
  have "after_loop existingLP (last (Version 0 0 0 # map entry_ver es)) = Inr ()"
    using after_loop_iff [OF assms(1)] assms(2) h(6)
    by (auto simp: valid_history_def last_map split: option.splits)
  then show ?thesis unfolding V loop by simp
qed

text \<open>A failed validation does not save.\<close>

lemma Validate_error_no_save:
  assumes "ValidateLatestPointerChainWithDepth E lp existingLP resolver getter saver maxDepth s = (Inl e, s')"
  shows "ValidateLatestPointerChainWithDepth E lp existingLP resolver getter None maxDepth s = (Inl e, s')"
proof (cases "\<exists>p pub get. lp = Some p \<and> getter = Some get \<and> pointer_ok E p existingLP resolver pub")
  case True
  then obtain p pub get where p: "lp = Some p" "getter = Some get" "pointer_ok E p existingLP resolver pub"
    by blast
  show ?thesis
    using assms unfolding p(1,2) Validate_unfold [OF p(3)] by (auto split: prod.splits sum.splits)
next
  case False
  then have "pointer_checks E p existingLP resolver \<noteq> Inr (pub, tgt)" if "lp = Some p" "getter \<noteq> None" for p pub tgt
    using that pointer_checks_iff by blast
  with assms show ?thesis
    by (cases lp; cases getter; cases "pointer_checks E (the lp) existingLP resolver")
      (auto simp: ValidateLatestPointerChainWithDepth_def)
qed

section \<open>How often the getter is called\<close>

text \<open>The getter with a counter of its calls in the state.\<close>

definition counted :: "'s RecordGetter \<Rightarrow> (nat \<times> 's) RecordGetter" where
  "counted get = (\<lambda>(k, s) h. let (r, s1) = get s h in (r, (Suc k, s1)))"

lemma chain_loop_counted:
  "fst (snd (chain_loop E lp x pub (counted get) n t c vis isHead lastVer sv (k, s))) + length vis \<le> k + max n (length vis)"
proof (induction "n - length vis" arbitrary: c vis isHead lastVer sv k s rule: less_induct)
  case less
  let ?loop = "chain_loop E lp x pub (counted get) n t c vis isHead lastVer sv (k, s)"
  show ?case
  proof (cases "c \<noteq> t \<and> c \<noteq> ZeroHash \<and> c \<notin> set vis \<and> length vis < n")
    case True
    obtain got s1 where g: "get s c = (got, s1)" by force
    then have g': "counted get (k, s) c = (got, (Suc k, s1))" by (simp add: counted_def)
    show ?thesis
    proof (cases rule: check_record_cases [of E lp pub isHead lastVer c got])
      case (err e)
      with True g' have "?loop = (Inl e, (Suc k, s1))" by (subst chain_loop.simps) simp
      with True show ?thesis by simp
    next
      case (ok d vr v)
      have "?loop = chain_loop E lp x pub (counted get) n t (prev_hash E vr) (c # vis) False v (sv @ [(c, d)]) (Suc k, s1)"
        by (rule chain_loop_step [where got = got]) (use True g' ok in auto)
      moreover have "n - length (c # vis) < n - length vis" using True by (intro diff_less_mono2) auto
      from less.hyps [OF this, of "prev_hash E vr" False v "sv @ [(c, d)]" "Suc k" s1]
      have "fst (snd (chain_loop E lp x pub (counted get) n t (prev_hash E vr) (c # vis) False v (sv @ [(c, d)]) (Suc k, s1)))
        + length (c # vis) \<le> Suc k + max n (length (c # vis))" .
      ultimately show ?thesis using True by simp
    qed
  next
    case False
    then have "snd ?loop = (k, s)" by (subst chain_loop.simps) auto
    then show ?thesis by simp
  qed
qed

section \<open>Walking a history the validator accepted\<close>

lemma walk_loop_complete:
  assumes "linked E ZeroHash es c" and "list_all (entry_ok E lp pub) es"
    and "distinct (map fst es)" and "set (map fst es) \<inter> set vis = {}" and "length es + length vis \<le> n"
    and "list_all (\<lambda>e. g (fst e) = Inr (fst (snd e))) es"
  shows "walk_loop E (\<lambda>s h. (g h, s)) n c vis ch s = ((ch @ map (snd \<circ> snd) es, Inr ()), s)"
  using assms
proof (induction es arbitrary: c vis ch)
  case Nil
  then show ?case by (simp add: walk_loop.simps)
next
  case (Cons e es)
  obtain h d vr where e: "e = (h, d, vr)" by (cases e)
  from Cons.prems(1) e have c: "h = c" "c \<noteq> ZeroHash" "linked E ZeroHash es (prev_hash E vr)" by auto
  have d: "d \<noteq> []" "hex_EncodeToString (id_bytes (sha256 E d)) = c" "ParseVersionRecord E d = Inr vr" "g c = Inr d"
    using Cons.prems(2,6) e c(1) by auto
  have "length (hex_EncodeToString (id_bytes (sha256 E d))) \<noteq> 0" by (simp add: IDLength_def)
  then have "c \<noteq> []" using d(2) by auto
  then have "walk_loop E (\<lambda>s h. (g h, s)) n c vis ch s =
    walk_loop E (\<lambda>s h. (g h, s)) n (prev_hash E vr) (c # vis) (ch @ [vr]) s"
    using c d Cons.prems(4,5) e by (subst walk_loop.simps) auto
  also have "\<dots> = (((ch @ [vr]) @ map (snd \<circ> snd) es, Inr ()), s)"
    by (rule Cons.IH) (use c Cons.prems e in auto)
  finally show ?case using e by simp
qed

section \<open>A history of two versions\<close>

definition demo_getter :: "string \<Rightarrow> bytes result" where
  "demo_getter h = (if h = demo_h1 then Inr [1]
     else if h = demo_h2 then Inr [2] else Inl ErrMissingVersionRecord)"

definition demo_pub :: bytes where
  "demo_pub = replicate 32 0"

definition demo_resolver :: "DNSResolver option" where
  "demo_resolver = Some (\<lambda>d. Inr demo_pub)"

definition demo_entry :: entry where
  "demo_entry = (demo_h1, [1], demo_vr)"

definition demo_entry2 :: entry where
  "demo_entry2 = (demo_h2, [2], demo_vr2)"

lemma demo_sig: "DecodeSignatureHex (EncodeSignatureHex (replicate 64 0)) = Inr (replicate 64 0)"
  "EncodeSignatureHex (replicate 64 0) \<noteq> []"
  by (rule DecodeSignatureHex_Encode EncodeSignatureHex_nonempty; simp add: SignatureSize_def)+

lemma demo_lp_verify:
  "LatestPointer_Verify demo_env (Some demo_lp) demo_pub = Inr ()"
  "LatestPointer_Verify demo_env (Some demo_lp2) demo_pub = Inr ()"
  using demo_ok(3,4) demo_sig
  by (simp_all add: LatestPointer_Verify_iff demo_lp_def demo_lp2_def demo_pub_def PublicKeySize_def
      demo_env_def)

lemma demo_entries:
  "entry_ok demo_env demo_lp demo_pub demo_entry" "entry_ok demo_env demo_lp2 demo_pub demo_entry2"
proof -
  have p: "ParseVersionRecord demo_env [1] = Inr demo_vr" "ParseVersionRecord demo_env [2] = Inr demo_vr2"
    using demo_ok(1,2) by (simp_all add: ParseVersionRecord_def) (simp_all add: demo_env_def)
  have v: "snd (VersionRecord_Verify demo_env (Some demo_vr) demo_pub) = Inr ()"
    "snd (VersionRecord_Verify demo_env (Some demo_vr2) demo_pub) = Inr ()"
    using demo_ok(1,2) demo_sig
    by (simp_all add: VersionRecord_Verify_iff) (simp_all add: demo_vr_def demo_vr2_def demo_pub_def PublicKeySize_def demo_env_def)
  have "hex_EncodeToString (id_bytes (sha256 demo_env [1])) = demo_h1"
    "hex_EncodeToString (id_bytes (sha256 demo_env [2])) = demo_h2"
    by (simp_all add: demo_env_def demo_h1_def demo_h2_def)
  with p v show "entry_ok demo_env demo_lp demo_pub demo_entry" "entry_ok demo_env demo_lp2 demo_pub demo_entry2"
    by (simp_all add: demo_entry_def demo_entry2_def demo_lp_def demo_lp2_def demo_vr_def demo_vr2_def)
qed

lemma descending_snoc:
  fixes v :: "'v::linorder"
  assumes "sorted_wrt (\<lambda>v w. w < v) vs" and "vs \<noteq> []" and "v < last vs"
  shows "sorted_wrt (\<lambda>v w. w < v) (vs @ [v])"
  using assms by (induction vs rule: rev_induct) (auto simp: sorted_wrt_append intro: less_trans)

lemma EqualFold_hex [simp]:
  assumes "list_all is_lower_hex s" and "list_all is_lower_hex t"
  shows "EqualFold E s t \<longleftrightarrow> s = t"
  using assms ToLower_lower_hex [OF assms(1), of E] ToLower_lower_hex [OF assms(2), of E]
    lower_hex_ascii [OF assms(1)] lower_hex_ascii [OF assms(2)]
  by (simp add: EqualFold_def ToLower_def)

lemma ZeroHash_lower_hex [simp]: "list_all is_lower_hex ZeroHash"
  by (simp add: ZeroHash_def list_all_iff is_lower_hex_def)

lemma demo_pointer_ok:
  "pointer_ok demo_env demo_lp None demo_resolver demo_pub"
  "pointer_ok demo_env demo_lp2 (Some demo_lp) demo_resolver demo_pub"
proof -
  have "lp_ver demo_lp < lp_ver demo_lp2"
    by (simp add: lp_ver_def demo_lp_def demo_lp2_def demo_versions less_Version_def Version_Compare_def)
  with demo_lp_verify demo_ok(3)
  show "pointer_ok demo_env demo_lp None demo_resolver demo_pub"
    "pointer_ok demo_env demo_lp2 (Some demo_lp) demo_resolver demo_pub"
    by (simp_all add: pointer_ok_def demo_resolver_def) (simp_all add: demo_lp_def demo_lp2_def)
qed

lemma demo_histories:
  "valid_history demo_env demo_lp None demo_pub (depth 1000) [demo_entry]"
  "valid_history demo_env demo_lp2 (Some demo_lp) demo_pub (depth 1000) [demo_entry2]"
proof -
  have "prev_hash demo_env demo_vr = ZeroHash"
    using norm_ZeroHash [of demo_env] by (simp add: prev_hash_def demo_vr_def ZeroHash_def)
  moreover have "prev_hash demo_env demo_vr2 = demo_h1"
    by (simp add: prev_hash_def demo_vr2_def)
  moreover have "lp_ver demo_lp < vr_ver demo_vr2"
    by (simp add: lp_ver_def vr_ver_def demo_lp_def demo_vr2_def demo_versions less_Version_def Version_Compare_def)
  ultimately show "valid_history demo_env demo_lp None demo_pub (depth 1000) [demo_entry]"
    "valid_history demo_env demo_lp2 (Some demo_lp) demo_pub (depth 1000) [demo_entry2]"
    using demo_entries
    by (simp_all add: valid_history_def versions_ok_def depth_def)
      (simp_all add: demo_entry_def demo_entry2_def demo_lp_def demo_lp2_def demo_vr_def demo_vr2_def)
qed

lemma demo_folds: "zero_folds demo_env (lp_VersionRecordHash demo_lp)" "zero_folds demo_env (lp_VersionRecordHash demo_lp2)"
  by (rule zero_folds_ascii; simp add: demo_lp_def demo_lp2_def lower_hex_ascii)+

lemma demo_getter_entries:
  "list_all (\<lambda>e. demo_getter (fst e) = Inr (fst (snd e))) [demo_entry]"
  "list_all (\<lambda>e. demo_getter (fst e) = Inr (fst (snd e))) [demo_entry2]"
  by (simp_all add: demo_getter_def demo_entry_def demo_entry2_def)

section \<open>Properties\<close>

text \<open>
  C8. The validator accepts exactly the pointers with a valid history.  For a getter without
  effects, \<^verbatim>\<open>ValidateLatestPointerChainWithDepth\<close> returns no error if and only if the pointer and
  the existing one pass the checks with the owner's key and there is a chain of records, all of them
  available, hashed correctly and signed by the owner for this package, that starts at the pointer,
  carries its version at the head, strictly descends in version, is no longer than the depth limit
  and arrives at the existing pointer's record with a version above it (at the zero hash when there
  is no existing pointer).
\<close>

theorem Validate_accepts_iff:
  assumes "zero_folds E (lp_VersionRecordHash lp)"
  shows "fst (ValidateLatestPointerChainWithDepth E (Some lp) existingLP resolver
      (Some (\<lambda>s h. (g h, s))) saver maxDepth s) = Inr () \<longleftrightarrow>
    (\<exists>pub es. pointer_ok E lp existingLP resolver pub \<and>
      valid_history E lp existingLP pub (depth maxDepth) es \<and>
      list_all (\<lambda>e. g (fst e) = Inr (fst (snd e))) es)"
    (is "?accepts \<longleftrightarrow> ?history")
proof
  assume ?accepts
  from Validate_sound [OF this assms] show ?history by blast
next
  assume ?history
  then show ?accepts by (auto intro: Validate_complete simp: list_all_iff)
qed

theorem Validate_accepts_iff_witness:
  "fst (ValidateLatestPointerChainWithDepth demo_env (Some demo_lp2) (Some demo_lp) demo_resolver
     (Some (\<lambda>s h. (demo_getter h, s))) None 1000 ()) = Inr ()"
  using Validate_accepts_iff [OF demo_folds(2), where g = demo_getter and existingLP = "Some demo_lp"
      and resolver = demo_resolver and saver = None and maxDepth = 1000 and s = "()"]
    demo_pointer_ok(2) demo_histories(2) demo_getter_entries(2)
  by blast

text \<open>
  C9. No rollback and no fork, whatever the getter does: an accepted pointer is signed by the key
  the resolver gives for its domain; with an existing pointer its version is strictly greater and a
  chain of owner-signed records leads from it back to the existing record; and the records handed to
  the saver, in order, are exactly the records of that chain.
\<close>

theorem Validate_no_fork:
  assumes "fst (ValidateLatestPointerChainWithDepth E (Some lp) (Some old) resolver (Some get) (Some save) maxDepth s) = Inr ()"
    and "zero_folds E (lp_VersionRecordHash lp)"
  shows "\<exists>pub es. map_option (\<lambda>lookup. lookup (lp_Domain lp)) resolver = Some (Inr pub) \<and>
    LatestPointer_Verify E (Some lp) pub = Inr () \<and> lp_ver old < lp_ver lp \<and>
    es \<noteq> [] \<and> list_all (entry_ok E lp pub) es \<and>
    linked E (ToLower E (TrimSpace (lp_VersionRecordHash old))) es (ToLower E (TrimSpace (lp_VersionRecordHash lp))) \<and>
    sorted_wrt (\<lambda>v w. w < v) (map entry_ver es @ [lp_ver old]) \<and>
    snd (ValidateLatestPointerChainWithDepth E (Some lp) (Some old) resolver (Some get) (Some save) maxDepth s) =
      foldl (\<lambda>s e. save s (fst e) (fst (snd e)))
        (snd (ValidateLatestPointerChainWithDepth E (Some lp) (Some old) resolver (Some get) None maxDepth s)) es"
proof -
  obtain pub es where h: "pointer_ok E lp (Some old) resolver pub"
    "valid_history E lp (Some old) pub (depth maxDepth) es"
    "snd (ValidateLatestPointerChainWithDepth E (Some lp) (Some old) resolver (Some get) (Some save) maxDepth s) =
      foldl (\<lambda>s e. save s (fst e) (fst (snd e)))
        (snd (ValidateLatestPointerChainWithDepth E (Some lp) (Some old) resolver (Some get) None maxDepth s)) es"
    using Validate_sound [OF assms, unfolded option.case] by (elim exE conjE) (rule that)
  have s: "sorted_wrt (\<lambda>v w. w < v) (map entry_ver es)" "es \<noteq> []" "lp_ver old < entry_ver (last es)"
    using h(2) by (auto simp: valid_history_def versions_ok_def)
  then have "sorted_wrt (\<lambda>v w. w < v) (map entry_ver es @ [lp_ver old])"
    by (intro descending_snoc) (simp_all add: last_map)
  with h show ?thesis by (intro exI [of _ pub] exI [of _ es]) (auto simp: pointer_ok_def valid_history_def)
qed

theorem Validate_no_fork_witness:
  "\<exists>pub. map_option (\<lambda>lookup. lookup ''example.com'') demo_resolver = Some (Inr pub) \<and>
     LatestPointer_Verify demo_env (Some demo_lp2) pub = Inr () \<and> lp_ver demo_lp < lp_ver demo_lp2"
proof -
  have "fst (ValidateLatestPointerChainWithDepth demo_env (Some demo_lp2) (Some demo_lp) demo_resolver
    (Some (\<lambda>s h. (demo_getter h, s))) (Some (\<lambda>s h d. h # s)) 1000 []) = Inr ()"
    by (rule Validate_complete [OF demo_pointer_ok(2) demo_histories(2)])
      (use demo_getter_entries(2) in simp)
  from Validate_no_fork [OF this demo_folds(2)] show ?thesis by (auto simp: demo_lp2_def demo_lp_def)
qed

text \<open>
  A rejected pointer saves nothing: when the validator returns an error, the state is the one
  the getter left, the same as without a saver.
\<close>

theorem Validate_error_saves_nothing:
  assumes "fst (ValidateLatestPointerChainWithDepth E lp existingLP resolver getter saver maxDepth s) = Inl e"
  shows "ValidateLatestPointerChainWithDepth E lp existingLP resolver getter saver maxDepth s =
    ValidateLatestPointerChainWithDepth E lp existingLP resolver getter None maxDepth s"
proof -
  obtain s' where "ValidateLatestPointerChainWithDepth E lp existingLP resolver getter saver maxDepth s = (Inl e, s')"
    using assms by (metis prod.collapse)
  then show ?thesis using Validate_error_no_save by metis
qed

theorem Validate_error_saves_nothing_witness:
  "ValidateLatestPointerChainWithDepth demo_env (Some demo_lp) None None (Some (\<lambda>s h. (demo_getter h, s)))
     (Some (\<lambda>s h d. h # s)) 1000 [] =
   ValidateLatestPointerChainWithDepth demo_env (Some demo_lp) None None (Some (\<lambda>s h. (demo_getter h, s)))
     None 1000 []"
proof -
  have "pointer_checks demo_env demo_lp None None = Inl ErrNoDNSResolver"
    using demo_ok(3) by (simp add: pointer_checks_def) (simp add: demo_lp_def)
  then show ?thesis
    by (intro Validate_error_saves_nothing) (simp add: ValidateLatestPointerChainWithDepth_def)
qed

text \<open>
  Validation ends after a bounded number of fetches: whatever pointer, records and cycles it is
  given, the getter is called at most as often as the depth limit says.
\<close>

theorem Validate_fetch_bound:
  "fst (snd (ValidateLatestPointerChainWithDepth E lp existingLP resolver (Some (counted get)) None maxDepth (0, s)))
     \<le> depth maxDepth"
proof (cases "\<exists>p pub. lp = Some p \<and> pointer_ok E p existingLP resolver pub")
  case True
  then obtain p pub where p: "lp = Some p" "pointer_ok E p existingLP resolver pub" by blast
  have "fst (snd (the_loop E p existingLP pub (counted get) maxDepth (0, s))) \<le> depth maxDepth"
    using chain_loop_counted [where vis = "[]" and k = 0 and n = "depth maxDepth"] by simp
  then show ?thesis
    unfolding p(1) Validate_unfold [OF p(2)] by (auto split: prod.splits sum.splits)
next
  case False
  then have "pointer_checks E p existingLP resolver \<noteq> Inr (pub, tgt)" if "lp = Some p" for p pub tgt
    using that pointer_checks_iff by blast
  then show ?thesis
    by (cases lp; cases "pointer_checks E (the lp) existingLP resolver")
      (auto simp: ValidateLatestPointerChainWithDepth_def)
qed



end
