(* ===== verification/Kad_DataStore.thy ===== *)
theory Kad_DataStore
  imports Reg_Validator
begin

text \<open>
  \<^verbatim>\<open>src/kademlia/datastore.go\<close>: the validating key-value store.  Content (a key that is the SHA-256 of
  its value) is always accepted; any other value must be a latest pointer under its own key with a
  valid history.  A \<^verbatim>\<open>RecordFetcher\<close> may run a lookup that changes the world and caches values in the
  store, so it acts on the pair of both.  The retry loop of \<^verbatim>\<open>Store\<close> is a partial function (\<open>None\<close>: it
  does not return); the concurrent runs of \<^verbatim>\<open>Store\<close> are a step relation on its critical sections.
\<close>

section \<open>Data and simple operations\<close>

datatype ds_error = ErrKeyMismatch | ErrValueTooLarge | RegError reg_error

type_synonym data = "(KademliaID, bytes) gomap"
type_synonym 'w RecordFetcher = "data \<times> 'w \<Rightarrow> string \<Rightarrow> bytes result \<times> (data \<times> 'w)"

record 'w DataStore =
  ds_data :: data
  maxValSize :: int
  dnsResolver :: "DNSResolver option"
  recordFetcher :: "'w RecordFetcher option"

definition DefaultMaxValSize :: int where
  "DefaultMaxValSize = 64 * 1024"

definition NewDataStore :: "'w DataStore" where
  "NewDataStore = \<lparr>ds_data = gm_empty, maxValSize = DefaultMaxValSize, dnsResolver = None,
     recordFetcher = None\<rparr>"

definition SetMaxValSize :: "'w DataStore \<Rightarrow> int \<Rightarrow> 'w DataStore" where
  "SetMaxValSize ds sz = ds\<lparr>maxValSize := sz\<rparr>"

definition SetDNSResolver :: "'w DataStore \<Rightarrow> DNSResolver option \<Rightarrow> 'w DataStore" where
  "SetDNSResolver ds resolver = ds\<lparr>dnsResolver := resolver\<rparr>"

definition DataStore_DNSResolver :: "'w DataStore \<Rightarrow> DNSResolver option" where
  "DataStore_DNSResolver ds = dnsResolver ds"

definition SetRecordFetcher :: "'w DataStore \<Rightarrow> 'w RecordFetcher option \<Rightarrow> 'w DataStore" where
  "SetRecordFetcher ds fetcher = ds\<lparr>recordFetcher := fetcher\<rparr>"

definition DataStore_RecordFetcher :: "'w DataStore \<Rightarrow> 'w RecordFetcher option" where
  "DataStore_RecordFetcher ds = recordFetcher ds"

definition StoreUnchecked :: "'w DataStore \<Rightarrow> KademliaID \<Rightarrow> bytes \<Rightarrow> 'w DataStore" where
  "StoreUnchecked ds key value = ds\<lparr>ds_data := gm_set key value (ds_data ds)\<rparr>"

definition DataStore_Get :: "'w DataStore \<Rightarrow> KademliaID \<Rightarrow> bytes option" where
  "DataStore_Get ds key = gm_get (ds_data ds) key"

definition DataStore_Has :: "'w DataStore \<Rightarrow> KademliaID \<Rightarrow> bool" where
  "DataStore_Has ds key = (gm_get (ds_data ds) key \<noteq> None)"

definition DataStore_Delete :: "'w DataStore \<Rightarrow> KademliaID \<Rightarrow> 'w DataStore \<times> bool" where
  "DataStore_Delete ds key =
     (if gm_get (ds_data ds) key \<noteq> None then (ds\<lparr>ds_data := gm_del key (ds_data ds)\<rparr>, True)
      else (ds, False))"

definition GetAllKeys :: "'w DataStore \<Rightarrow> KademliaID list" where
  "GetAllKeys ds = gm_keys (ds_data ds)"

definition DataStore_Len :: "'w DataStore \<Rightarrow> nat" where
  "DataStore_Len ds = gm_len (ds_data ds)"

section \<open>Validation\<close>

definition ds_getter :: "'w RecordFetcher option \<Rightarrow> (data \<times> 'w) RecordGetter" where
  "ds_getter fetcher st hash =
     (let (decoded, ok) = hex_DecodeString hash in
      if \<not> ok \<or> length decoded \<noteq> IDLength then (Inl (ErrText ''invalid hash length''), st)
      else (case gm_get (fst st) (mk_id decoded) of
        Some localVal \<Rightarrow> (Inr localVal, st)
      | None \<Rightarrow>
          (case fetcher of
             None \<Rightarrow> (Inl ErrMissingVersionRecord, st)
           | Some fetch \<Rightarrow>
               (case fetch st hash of
                  (Inl e, st1) \<Rightarrow> (Inl e, st1)
                | (Inr val, st1) \<Rightarrow>
                    if length val > 0 then (Inr val, st1) else (Inl ErrMissingVersionRecord, st1)))))"

definition ds_saver :: "(data \<times> 'w) RecordSaver" where
  "ds_saver st hash value =
     (let (decoded, ok) = hex_DecodeString hash in
      if \<not> ok \<or> length decoded \<noteq> IDLength then st
      else if gm_get (fst st) (mk_id decoded) \<noteq> None then st
      else (gm_set (mk_id decoded) value (fst st), snd st))"

definition validateLatestPointerWithExisting ::
  "'e reg_env_scheme \<Rightarrow> 'w DataStore \<Rightarrow> LatestPointer \<Rightarrow> LatestPointer option \<Rightarrow> bool \<Rightarrow> 'w \<Rightarrow>
   (ds_error + unit) \<times> 'w DataStore \<times> 'w" where
  "validateLatestPointerWithExisting E ds lp existingLP enableSaver w =
     (let (r, (d, w1)) = ValidateLatestPointerChain E (Some lp) existingLP (dnsResolver ds)
            (Some (ds_getter (recordFetcher ds))) (if enableSaver then Some ds_saver else None)
            (ds_data ds, w) in
      (map_sum RegError id r, ds\<lparr>ds_data := d\<rparr>, w1))"

text \<open>\<^verbatim>\<open>existingLP, _ = ParseLatestPointer(...)\<close>: nil when the stored bytes are no pointer.\<close>

definition existing_pointer :: "'e reg_env_scheme \<Rightarrow> bytes option \<Rightarrow> LatestPointer option" where
  "existing_pointer E bs =
     (case bs of
        None \<Rightarrow> None
      | Some b \<Rightarrow> (case ParseLatestPointer E b of Inl _ \<Rightarrow> None | Inr lp \<Rightarrow> Some lp))"

text \<open>
  The part \<^verbatim>\<open>Validate\<close> and \<^verbatim>\<open>Store\<close> share: the size limit, then \<open>None\<close> for content or the pointer.
\<close>

definition classify ::
  "'e reg_env_scheme \<Rightarrow> int \<Rightarrow> KademliaID \<Rightarrow> bytes \<Rightarrow> ds_error + LatestPointer option" where
  "classify E maxSize key value =
     (if maxSize > 0 \<and> int (length value) > maxSize then Inl ErrValueTooLarge
      else if sha256 E value = key then Inr None
      else (case ParseLatestPointer E value of
        Inl _ \<Rightarrow> Inl ErrKeyMismatch
      | Inr lp \<Rightarrow> if DHTKeyBytes E (Some lp) \<noteq> key then Inl ErrKeyMismatch else Inr (Some lp)))"

definition DataStore_Validate ::
  "'e reg_env_scheme \<Rightarrow> 'w DataStore \<Rightarrow> KademliaID \<Rightarrow> bytes \<Rightarrow> 'w \<Rightarrow>
   (ds_error + unit) \<times> 'w DataStore \<times> 'w" where
  "DataStore_Validate E ds key value w =
     (case classify E (maxValSize ds) key value of
        Inl e \<Rightarrow> (Inl e, ds, w)
      | Inr None \<Rightarrow> (Inr (), ds, w)
      | Inr (Some lp) \<Rightarrow>
          validateLatestPointerWithExisting E ds lp (existing_pointer E (gm_get (ds_data ds) key)) False w)"

section \<open>Store\<close>

text \<open>One round of the retry loop: \<open>Inl\<close> is a return, \<open>Inr\<close> another round.\<close>

definition Store_round ::
  "'e reg_env_scheme \<Rightarrow> 'w DataStore \<Rightarrow> KademliaID \<Rightarrow> bytes \<Rightarrow> LatestPointer \<Rightarrow> 'w \<Rightarrow>
   ((ds_error + unit) + unit) \<times> 'w DataStore \<times> 'w" where
  "Store_round E ds key value lp w =
     (let existing = gm_get (ds_data ds) key in
      case validateLatestPointerWithExisting E ds lp (existing_pointer E existing) True w of
        (Inl e, ds1, w1) \<Rightarrow> (Inl (Inl e), ds1, w1)
      | (Inr _, ds1, w1) \<Rightarrow>
          let current = gm_get (ds_data ds1) key;
              unchanged = (existing = None \<and> current = None) \<or>
                (existing \<noteq> None \<and> current \<noteq> None \<and> the existing = the current) in
          if unchanged then (Inl (Inr ()), ds1\<lparr>ds_data := gm_set key value (ds_data ds1)\<rparr>, w1)
          else (Inr (), ds1, w1))"

partial_function (option) Store_loop ::
  "'e reg_env_scheme \<Rightarrow> KademliaID \<Rightarrow> bytes \<Rightarrow> LatestPointer \<Rightarrow> 'w DataStore \<Rightarrow> 'w \<Rightarrow>
   ((ds_error + unit) \<times> 'w DataStore \<times> 'w) option" where
  "Store_loop E key value lp ds w =
     (case Store_round E ds key value lp w of
        (Inl r, ds1, w1) \<Rightarrow> Some (r, ds1, w1)
      | (Inr _, ds1, w1) \<Rightarrow> Store_loop E key value lp ds1 w1)"

declare Store_loop.simps [code]

definition DataStore_Store ::
  "'e reg_env_scheme \<Rightarrow> 'w DataStore \<Rightarrow> KademliaID \<Rightarrow> bytes \<Rightarrow> 'w \<Rightarrow>
   ((ds_error + unit) \<times> 'w DataStore \<times> 'w) option" where
  "DataStore_Store E ds key value w =
     (case classify E (maxValSize ds) key value of
        Inl e \<Rightarrow> Some (Inl e, ds, w)
      | Inr None \<Rightarrow> Some (Inr (), ds\<lparr>ds_data := gm_set key value (ds_data ds)\<rparr>, w)
      | Inr (Some lp) \<Rightarrow> Store_loop E key value lp ds w)"

section \<open>What validation leaves behind\<close>

lemma chain_loop_inv:
  assumes "\<And>s h. I s \<Longrightarrow> I (snd (get s h))" and "I s"
  shows "I (snd (chain_loop E lp x pub get n t c vis isHead lastVer sv s))"
  using assms(2)
proof (induction "n - length vis" arbitrary: c vis isHead lastVer sv s rule: less_induct)
  case less
  let ?loop = "chain_loop E lp x pub get n t c vis isHead lastVer sv s"
  show ?case
  proof (cases "c \<noteq> t \<and> c \<noteq> ZeroHash \<and> c \<notin> set vis \<and> length vis < n")
    case True
    obtain got s1 where g: "get s c = (got, s1)" by force
    have I: "I s1" using assms(1) [OF less.prems, of c] g by simp
    show ?thesis
    proof (cases rule: check_record_cases [of E lp pub isHead lastVer c got])
      case (err e)
      with True g have "?loop = (Inl e, s1)" by (subst chain_loop.simps) simp
      with I show ?thesis by simp
    next
      case (ok d vr v)
      have "?loop = chain_loop E lp x pub get n t (prev_hash E vr) (c # vis) False v (sv @ [(c, d)]) s1"
        by (rule chain_loop_step [where got = got]) (use True g ok in auto)
      moreover have "n - length (c # vis) < n - length vis" using True by (intro diff_less_mono2) auto
      ultimately show ?thesis using less.hyps I by simp
    qed
  next
    case False
    then have "snd ?loop = s" by (subst chain_loop.simps) auto
    with less.prems show ?thesis by simp
  qed
qed

lemma foldl_inv: "I s \<Longrightarrow> (\<And>s x. x \<in> set xs \<Longrightarrow> I s \<Longrightarrow> I (f s x)) \<Longrightarrow> I (foldl f s xs)"
  by (induction xs arbitrary: s) auto

text \<open>What the getter keeps, and the saver keeps on correctly hashed records, validation keeps.\<close>

lemma Validate_inv:
  assumes get: "\<And>s h. I s \<Longrightarrow> I (snd (get s h))"
    and save: "\<And>s d. I s \<Longrightarrow> I (save s (hex_EncodeToString (id_bytes (sha256 E d))) d)"
    and s: "I s" and saver: "saver = None \<or> saver = Some save"
  shows "I (snd (ValidateLatestPointerChainWithDepth E (Some lp) existingLP resolver (Some get) saver maxDepth s))"
proof (cases "\<exists>pub. pointer_ok E lp existingLP resolver pub")
  case True
  then obtain pub where pub: "pointer_ok E lp existingLP resolver pub" ..
  obtain r s1 where loop: "the_loop E lp existingLP pub get maxDepth s = (r, s1)" by force
  have I1: "I s1"
    using chain_loop_inv [where I = I and get = get, OF get s, of E lp "existingLP \<noteq> None" pub] loop
    by (metis snd_conv)
  show ?thesis
  proof (cases r)
    case (Inl e)
    with loop I1 show ?thesis unfolding Validate_unfold [OF pub] by simp
  next
    case (Inr ok)
    then obtain lv toSave where r: "r = Inr (lv, toSave)" by (cases ok) auto
    have "existingLP \<noteq> None \<or> ToLower E (TrimSpace (target_hash existingLP)) = ZeroHash"
      by (cases existingLP) (simp_all add: target_hash_def)
    from chain_loop_sound [OF loop [unfolded r] this] obtain es where
      es: "toSave = strip es" "list_all (entry_ok E lp pub) es" by auto
    have "I (foldl (\<lambda>s (h, d). save s h d) s1 toSave)"
      by (rule foldl_inv [where I = I, OF I1]) (use es save in \<open>auto simp: list_all_iff\<close>)
    with I1 saver show ?thesis
      unfolding Validate_unfold [OF pub] loop r by (auto split: sum.splits)
  qed
next
  case False
  then have "\<And>pub tgt. pointer_checks E lp existingLP resolver \<noteq> Inr (pub, tgt)"
    using pointer_checks_iff by blast
  then show ?thesis
    using s by (cases "pointer_checks E lp existingLP resolver")
      (auto simp: ValidateLatestPointerChainWithDepth_def)
qed

lemma hex_id [simp]:
  "hex_DecodeString (hex_EncodeToString (id_bytes x)) = (id_bytes x, True)" "mk_id (id_bytes x) = x"
  by simp_all

lemma ds_saver_hash:
  "ds_saver (d, w) (hex_EncodeToString (id_bytes (sha256 E v))) v =
     (if gm_get d (sha256 E v) \<noteq> None then (d, w) else (gm_set (sha256 E v) v d, w))"
  by (simp add: ds_saver_def)

lemma ds_getter_inv:
  assumes "\<And>st h fetch. fetcher = Some fetch \<Longrightarrow> I st \<Longrightarrow> I (snd (fetch st h))" and "I st"
  shows "I (snd (ds_getter fetcher st h))"
proof -
  have "snd (ds_getter fetcher st h) = st \<or>
    (\<exists>fetch. fetcher = Some fetch \<and> snd (ds_getter fetcher st h) = snd (fetch st h))"
    by (auto simp: ds_getter_def Let_def split: prod.split option.split sum.split)
  then show ?thesis using assms(2) assms(1) [of _ st h] by metis
qed

text \<open>The store and the world after a validation: what the fetcher keeps is kept.\<close>

definition fetcher_inv :: "(data \<times> 'w \<Rightarrow> bool) \<Rightarrow> 'w RecordFetcher option \<Rightarrow> bool" where
  "fetcher_inv J fetcher \<longleftrightarrow> (\<forall>fetch st h. fetcher = Some fetch \<longrightarrow> J st \<longrightarrow> J (snd (fetch st h)))"

lemma fetcher_invD: "fetcher_inv J fetcher \<Longrightarrow> fetcher = Some fetch \<Longrightarrow> J st \<Longrightarrow> J (snd (fetch st h))"
  unfolding fetcher_inv_def by blast

lemma validate_keeps_settings:
  assumes "validateLatestPointerWithExisting E ds lp old sv w = (r, ds1, w1)"
  shows "maxValSize ds1 = maxValSize ds" "dnsResolver ds1 = dnsResolver ds" "recordFetcher ds1 = recordFetcher ds"
  using assms by (auto simp: validateLatestPointerWithExisting_def split: prod.splits)

lemma validate_state_inv:
  fixes ds :: "'w DataStore"
  assumes "validateLatestPointerWithExisting E ds lp old sv w = (r, ds1, w1)" and "J (ds_data ds, w)"
    and "\<And>d w v. sv \<Longrightarrow> J (d, w) \<Longrightarrow> gm_get d (sha256 E v) = None \<Longrightarrow> J (gm_set (sha256 E v) v d, w)"
    and "fetcher_inv J (recordFetcher ds)"
  shows "J (ds_data ds1, w1)"
proof -
  let ?V = "ValidateLatestPointerChainWithDepth E (Some lp) old (dnsResolver ds) (Some (ds_getter (recordFetcher ds)))
    (if sv then Some ds_saver else None) DefaultMaxChainDepth (ds_data ds, w)"
  let ?save = "if sv then ds_saver else (\<lambda>st h d. st)"
  have "J (snd ?V)"
  proof (rule Validate_inv [where I = J and save = ?save])
    show "J (snd (ds_getter (recordFetcher ds) st h))" if "J st" for st :: "data \<times> 'w" and h
      using fetcher_invD [OF assms(4)] that by (rule ds_getter_inv)
    show "J (?save st (hex_EncodeToString (id_bytes (sha256 E d))) d)" if "J st"
      for st :: "data \<times> 'w" and d
      using that assms(3) by (cases st) (simp add: ds_saver_hash)
  qed (use assms(2) in auto)
  then show ?thesis
    using assms(1)
    by (auto simp: validateLatestPointerWithExisting_def ValidateLatestPointerChain_def split: prod.splits)
qed

lemma validate_data_inv:
  fixes ds :: "'w DataStore"
  assumes "validateLatestPointerWithExisting E ds lp old sv w = (r, ds1, w1)" and "P (ds_data ds)"
    and "\<And>d v. P d \<Longrightarrow> gm_get d (sha256 E v) = None \<Longrightarrow> P (gm_set (sha256 E v) v d)"
    and "\<And>fetch st h. recordFetcher ds = Some fetch \<Longrightarrow> P (fst st) \<Longrightarrow> P (fst (snd (fetch st h)))"
  shows "P (ds_data ds1)"
  using validate_state_inv [where J = "\<lambda>st. P (fst st)", OF assms(1)] assms(2-4)
  by (simp add: fetcher_inv_def)

section \<open>Store returns\<close>

text \<open>
  A fetcher that leaves the entry under \<open>key\<close> alone.  A lookup caches only content, under its hash.
\<close>

definition fetcher_keeps :: "KademliaID \<Rightarrow> 'w DataStore \<Rightarrow> bool" where
  "fetcher_keeps key ds \<longleftrightarrow>
     (\<forall>fetch st h. recordFetcher ds = Some fetch \<longrightarrow> gm_get (fst (snd (fetch st h))) key = gm_get (fst st) key)"

lemma fetcher_keepsD:
  "fetcher_keeps key ds \<Longrightarrow> recordFetcher ds = Some fetch \<Longrightarrow> gm_get (fst (snd (fetch st h))) key = gm_get (fst st) key"
  unfolding fetcher_keeps_def by blast

lemma validate_keeps_present:
  assumes "validateLatestPointerWithExisting E ds lp old sv w = (r, ds1, w1)" and "fetcher_keeps key ds"
    and "gm_get (ds_data ds) key = Some v"
  shows "gm_get (ds_data ds1) key = Some v"
  by (rule validate_data_inv [OF assms(1), where P = "\<lambda>d. gm_get d key = Some v"])
    (use assms(3) fetcher_keepsD [OF assms(2)] in auto)

lemma validate_error_keeps:
  assumes "validateLatestPointerWithExisting E ds lp old sv w = (Inl e, ds1, w1)" and "fetcher_keeps key ds"
  shows "gm_get (ds_data ds1) key = gm_get (ds_data ds) key"
proof -
  let ?V = "\<lambda>saver. ValidateLatestPointerChainWithDepth E (Some lp) old (dnsResolver ds)
    (Some (ds_getter (recordFetcher ds))) saver DefaultMaxChainDepth (ds_data ds, w)"
  from assms(1) obtain e' where "?V (if sv then Some ds_saver else None) = (Inl e', (ds_data ds1, w1))"
    by (auto simp: validateLatestPointerWithExisting_def ValidateLatestPointerChain_def
        split: prod.splits sum.splits) (metis Inl_Inr_False map_sum.simps(2) sumE)
  then have V: "?V None = (Inl e', (ds_data ds1, w1))" by (rule Validate_error_no_save)
  have "gm_get (fst (snd (?V None))) key = gm_get (ds_data ds) key"
    by (rule Validate_inv [where I = "\<lambda>st. gm_get (fst st) key = gm_get (ds_data ds) key" and save = "\<lambda>st h d. st"])
      (use fetcher_keepsD [OF assms(2)] in \<open>auto intro: ds_getter_inv\<close>)
  with V show ?thesis by simp
qed

text \<open>
  A second round has an entry to start from, which the fetcher keeps, so it is the last.  \<open>J\<close> is a
  property of the store and the world that the steps of \<open>Store\<close> keep.
\<close>

lemma validate_present_inv:
  assumes "validateLatestPointerWithExisting E ds lp old sv w = (r, ds1, w1)" and "J (ds_data ds, w)"
    and "gm_get (ds_data ds) key = Some v"
    and ins: "\<And>d w v. J (d, w) \<Longrightarrow> gm_get d (sha256 E v) = None \<Longrightarrow> J (gm_set (sha256 E v) v d, w)"
    and "fetcher_inv (\<lambda>st. J st \<and> gm_get (fst st) key = Some v) (recordFetcher ds)"
  shows "J (ds_data ds1, w1) \<and> gm_get (ds_data ds1) key = Some v"
proof -
  let ?J = "\<lambda>st. J st \<and> gm_get (fst st) key = Some v"
  have step: "?J (gm_set (sha256 E y) y d, w)" if "?J (d, w)" "gm_get d (sha256 E y) = None" for d w y
    using that ins [of d w y] by auto
  have "?J (ds_data ds, w)" using assms(2,3) by simp
  from validate_state_inv [where J = ?J, OF assms(1) this step assms(5)] show ?thesis by simp
qed

lemma Store_round_second:
  assumes "gm_get (ds_data ds) key = Some v" and "J (ds_data ds, w)"
    and "\<And>d w v. J (d, w) \<Longrightarrow> gm_get d (sha256 E v) = None \<Longrightarrow> J (gm_set (sha256 E v) v d, w)"
    and "fetcher_inv (\<lambda>st. J st \<and> gm_get (fst st) key = Some v) (recordFetcher ds)"
  shows "\<exists>r ds1 w1. Store_round E ds key value lp w = (Inl r, ds1, w1)"
proof (cases "validateLatestPointerWithExisting E ds lp (existing_pointer E (gm_get (ds_data ds) key)) True w")
  case (fields r ds1 w1)
  then have "J (ds_data ds1, w1) \<and> gm_get (ds_data ds1) key = Some v"
    using validate_present_inv [where J = J, OF fields assms(2,1,3,4)] by blast
  with fields assms(1) show ?thesis
    by (cases r) (simp_all add: Store_round_def Let_def)
qed

lemma Store_loop_returns_inv:
  assumes "J (ds_data ds, w)"
    and ins: "\<And>d w v. J (d, w) \<Longrightarrow> gm_get d (sha256 E v) = None \<Longrightarrow> J (gm_set (sha256 E v) v d, w)"
    and keep: "fetcher_inv J (recordFetcher ds)"
    and present: "\<And>v. fetcher_inv (\<lambda>st. J st \<and> gm_get (fst st) key = Some v) (recordFetcher ds)"
  shows "\<exists>x. Store_loop E key value lp ds w = Some x"
proof (cases "Store_round E ds key value lp w")
  case (fields a ds1 w1)
  show ?thesis
  proof (cases a)
    case (Inl r)
    with fields show ?thesis by (subst Store_loop.simps) simp
  next
    case (Inr u)
    with fields have v: "validateLatestPointerWithExisting E ds lp (existing_pointer E (gm_get (ds_data ds) key)) True w
        = (Inr (), ds1, w1)" and ch: "gm_get (ds_data ds1) key \<noteq> gm_get (ds_data ds) key"
      by (fastforce simp: Store_round_def Let_def split: prod.splits sum.splits if_splits)+
    have J1: "J (ds_data ds1, w1)" by (rule validate_state_inv [OF v assms(1) ins keep])
    have f: "recordFetcher ds1 = recordFetcher ds" by (rule validate_keeps_settings(3) [OF v])
    obtain y where y: "gm_get (ds_data ds1) key = Some y"
    proof (cases "gm_get (ds_data ds) key")
      case None
      with ch that show ?thesis by (cases "gm_get (ds_data ds1) key") auto
    next
      case (Some z)
      have "J (ds_data ds1, w1) \<and> gm_get (ds_data ds1) key = Some z"
        by (rule validate_present_inv [where J = J, OF v assms(1) Some ins present])
      with that show ?thesis by blast
    qed
    obtain r ds2 w2 where "Store_round E ds1 key value lp w1 = (Inl r, ds2, w2)"
      using Store_round_second [where J = J, OF y J1 ins, unfolded f, OF _ _ present] by blast
    with fields Inr show ?thesis
      by (subst Store_loop.simps) (simp add: Store_loop.simps [of E key "value" lp ds1])
  qed
qed

lemma Store_loop_returns:
  assumes "fetcher_keeps key ds"
  shows "\<exists>x. Store_loop E key value lp ds w = Some x"
  by (rule Store_loop_returns_inv [where J = "\<lambda>_. True"])
    (use fetcher_keepsD [OF assms] in \<open>simp_all add: fetcher_inv_def\<close>)

section \<open>What Store stores\<close>

lemma Store_round_cases:
  assumes "Store_round E ds key value lp w = (a, ds1, w1)"
  obtains (err) e where "a = Inl (Inl e)"
      "validateLatestPointerWithExisting E ds lp (existing_pointer E (gm_get (ds_data ds) key)) True w = (Inl e, ds1, w1)"
  | (ok) ds0 where "a = Inl (Inr ())" "ds1 = ds0\<lparr>ds_data := gm_set key value (ds_data ds0)\<rparr>"
      "validateLatestPointerWithExisting E ds lp (existing_pointer E (gm_get (ds_data ds) key)) True w = (Inr (), ds0, w1)"
      "gm_get (ds_data ds0) key = gm_get (ds_data ds) key"
  | (again) "a = Inr ()" "gm_get (ds_data ds1) key \<noteq> gm_get (ds_data ds) key"
      "validateLatestPointerWithExisting E ds lp (existing_pointer E (gm_get (ds_data ds) key)) True w = (Inr (), ds1, w1)"
  using assms
  by (fastforce simp: Store_round_def Let_def split: prod.splits sum.splits if_splits)

lemma Store_loop_step:
  assumes "Store_loop E key value lp ds w = Some (r, ds2, w2)"
    and "Store_round E ds key value lp w = (a, ds1, w1)"
  shows "(case a of Inl r' \<Rightarrow> r = r' \<and> ds2 = ds1 \<and> w2 = w1
    | Inr _ \<Rightarrow> Store_loop E key value lp ds1 w1 = Some (r, ds2, w2))"
  using assms by (cases a) (simp_all add: Store_loop.simps [of E key "value" lp ds])

text \<open>A property of the data that survives the rounds survives the loop.\<close>

lemma Store_loop_inv:
  assumes "Store_loop E key value lp ds w = Some (r, ds2, w2)" and "I ds w"
    and "\<And>ds w a ds1 w1. I ds w \<Longrightarrow> Store_round E ds key value lp w = (a, ds1, w1) \<Longrightarrow> I ds1 w1"
  shows "I ds2 w2"
proof -
  let ?keeps = "\<lambda>E key val lp. \<forall>ds w a ds1 w1. I ds w \<longrightarrow> Store_round E ds key val lp w = (a, ds1, w1) \<longrightarrow> I ds1 w1"
  let ?I = "\<lambda>y. I (fst (snd y)) (snd (snd y))"
  have "?keeps E key value lp \<longrightarrow> I ds w \<longrightarrow> ?I (r, ds2, w2)"
  proof (rule Store_loop.raw_induct [where P = "\<lambda>E key val lp ds w y. ?keeps E key val lp \<longrightarrow> I ds w \<longrightarrow> ?I y",
        OF _ assms(1)], intro impI)
    fix loop E key val lp ds w y
    assume IH: "\<And>E key val lp ds w y. loop E key val lp ds w = Some y \<Longrightarrow> ?keeps E key val lp \<longrightarrow> I ds w \<longrightarrow> ?I y"
      and y: "(case Store_round E ds key val lp w of (Inl r, ds1, w1) \<Rightarrow> Some (r, ds1, w1)
        | (Inr x, ds1, w1) \<Rightarrow> loop E key val lp ds1 w1) = Some y"
      and keeps: "?keeps E key val lp" and "I ds w"
    obtain a ds1 w1 where r: "Store_round E ds key val lp w = (a, ds1, w1)"
      by (cases "Store_round E ds key val lp w")
    with keeps \<open>I ds w\<close> have "I ds1 w1" by blast
    show "?I y"
    proof (cases a)
      case (Inl r')
      with y r \<open>I ds1 w1\<close> show ?thesis by auto
    next
      case (Inr u)
      with y r have "loop E key val lp ds1 w1 = Some y" by simp
      from IH [OF this] keeps \<open>I ds1 w1\<close> show ?thesis by (elim impE)
    qed
  qed
  with assms(2,3) show ?thesis by simp
qed

text \<open>\<open>Store\<close> returns, and keeps a property of the store and the world that its steps keep.\<close>

lemma DataStore_Store_ok:
  fixes ds :: "'w DataStore"
  assumes "J (ds_data ds, w)"
    and ins: "\<And>d w v. J (d, w) \<Longrightarrow> gm_get d (sha256 E v) = None \<Longrightarrow> J (gm_set (sha256 E v) v d, w)"
    and put: "\<And>d w c. J (d, w) \<Longrightarrow> classify E (maxValSize ds) key value = Inr c \<Longrightarrow> J (gm_set key value d, w)"
    and keep: "fetcher_inv J (recordFetcher ds)"
    and present: "\<And>v. fetcher_inv (\<lambda>st. J st \<and> gm_get (fst st) key = Some v) (recordFetcher ds)"
  shows "\<exists>r ds1 w1. DataStore_Store E ds key value w = Some (r, ds1, w1) \<and> J (ds_data ds1, w1)"
proof (cases "classify E (maxValSize ds) key value")
  case (Inl e)
  then show ?thesis using assms(1) by (simp add: DataStore_Store_def)
next
  case (Inr c)
  show ?thesis
  proof (cases c)
    case None
    with Inr put [OF assms(1) Inr] show ?thesis by (simp add: DataStore_Store_def)
  next
    case (Some lp)
    obtain r ds2 w2 where l: "Store_loop E key value lp ds w = Some (r, ds2, w2)"
      using Store_loop_returns_inv [where J = J, OF assms(1) ins keep present] by (metis prod_cases3)
    let ?I = "\<lambda>ds' w'. J (ds_data ds', w') \<and> recordFetcher ds' = recordFetcher ds"
    have "?I ds2 w2"
    proof (rule Store_loop_inv [where I = ?I, OF l])
      fix ds0 ds1 :: "'w DataStore" and w0 a w1
      assume I: "?I ds0 w0" and r: "Store_round E ds0 key value lp w0 = (a, ds1, w1)"
      have v: "?I ds' w'"
        if "validateLatestPointerWithExisting E ds0 lp old True w0 = (r, ds', w')" for old r ds' w'
      proof -
        have k: "fetcher_inv J (recordFetcher ds0)" using I keep by simp
        have "J (ds_data ds', w')" by (rule validate_state_inv [where J = J, OF that _ ins k]) (rule conjunct1 [OF I])
        with I validate_keeps_settings(3) [OF that] show ?thesis by simp
      qed
      from r show "?I ds1 w1"
      proof (cases rule: Store_round_cases)
        case (ok ds')
        with v [OF ok(3)] put [OF _ Inr, of "ds_data ds'" w1] show ?thesis by simp
      next
        case (err e)
        from v [OF err(2)] show ?thesis .
      next
        case again
        from v [OF again(3)] show ?thesis .
      qed
    qed (use assms(1) in simp)
    with l Inr Some show ?thesis by (simp add: DataStore_Store_def)
  qed
qed

text \<open>
  The integrity of a store: a value is stored under its own hash, or it is a latest pointer under
  the key of its domain and package.
\<close>

definition value_ok :: "'e reg_env_scheme \<Rightarrow> KademliaID \<Rightarrow> bytes \<Rightarrow> bool" where
  "value_ok E key v \<longleftrightarrow> sha256 E v = key \<or> (\<exists>lp. ParseLatestPointer E v = Inr lp \<and> DHTKeyBytes E (Some lp) = key)"

definition data_ok :: "'e reg_env_scheme \<Rightarrow> data \<Rightarrow> bool" where
  "data_ok E d \<longleftrightarrow> gm_wf d \<and> (\<forall>k v. gm_get d k = Some v \<longrightarrow> value_ok E k v)"

lemma data_ok_set: "data_ok E d \<Longrightarrow> value_ok E k v \<Longrightarrow> data_ok E (gm_set k v d)"
  by (simp add: data_ok_def gm.invar_set)

lemma value_ok_content [simp]: "value_ok E (sha256 E v) v"
  by (simp add: value_ok_def)

lemma classify_value_ok: "classify E maxSize key v = Inr c \<Longrightarrow> value_ok E key v"
  by (auto simp: classify_def value_ok_def split: if_splits sum.splits)

lemma Validate_value_ok: "DataStore_Validate E ds k v w = (Inr (), ds1, w1) \<Longrightarrow> value_ok E k v"
  using classify_value_ok by (auto simp: DataStore_Validate_def split: sum.splits)

definition fetcher_ok :: "'e reg_env_scheme \<Rightarrow> 'w DataStore \<Rightarrow> bool" where
  "fetcher_ok E ds \<longleftrightarrow> (\<forall>fetch st h. recordFetcher ds = Some fetch \<longrightarrow> data_ok E (fst st) \<longrightarrow> data_ok E (fst (snd (fetch st h))))"

lemma fetcher_okD:
  "fetcher_ok E ds \<Longrightarrow> recordFetcher ds = Some fetch \<Longrightarrow> data_ok E (fst st) \<Longrightarrow> data_ok E (fst (snd (fetch st h)))"
  unfolding fetcher_ok_def by blast

lemma validate_data_ok:
  assumes "validateLatestPointerWithExisting E ds lp old sv w = (r, ds1, w1)" and "data_ok E (ds_data ds)"
    and "fetcher_ok E ds"
  shows "data_ok E (ds_data ds1) \<and> fetcher_ok E ds1"
proof -
  have "data_ok E (ds_data ds1)"
    by (rule validate_data_inv [OF assms(1), where P = "data_ok E"])
      (use assms(2) fetcher_okD [OF assms(3)] in \<open>auto intro: data_ok_set\<close>)
  moreover have "fetcher_ok E ds1"
    using assms(3) validate_keeps_settings(3) [OF assms(1)] by (simp add: fetcher_ok_def)
  ultimately show ?thesis ..
qed

lemma Store_data_ok:
  fixes ds :: "'w DataStore"
  assumes "DataStore_Store E ds key value w = Some (r, ds1, w1)" and "data_ok E (ds_data ds)" and "fetcher_ok E ds"
  shows "data_ok E (ds_data ds1) \<and> fetcher_ok E ds1"
proof (cases "classify E (maxValSize ds) key value")
  case (Inl e)
  with assms show ?thesis by (simp add: DataStore_Store_def)
next
  case (Inr c)
  show ?thesis
  proof (cases c)
    case None
    with Inr have "sha256 E value = key" by (auto simp: classify_def split: if_splits sum.splits)
    with Inr None assms data_ok_set [OF assms(2), of key "value"] show ?thesis
      by (auto simp: DataStore_Store_def fetcher_ok_def)
  next
    case (Some lp)
    have v: "value_ok E key value" by (rule classify_value_ok [OF Inr])
    have "Store_loop E key value lp ds w = Some (r, ds1, w1)"
      using assms(1) Inr Some by (simp add: DataStore_Store_def)
    then show ?thesis
    proof (rule Store_loop_inv [where I = "\<lambda>ds _. data_ok E (ds_data ds) \<and> fetcher_ok E ds"])
      fix ds ds1 :: "'w DataStore" and w a w1
      assume I: "data_ok E (ds_data ds) \<and> fetcher_ok E ds" and r: "Store_round E ds key value lp w = (a, ds1, w1)"
      from r show "data_ok E (ds_data ds1) \<and> fetcher_ok E ds1"
      proof (cases rule: Store_round_cases)
        case (ok ds0)
        have "data_ok E (ds_data ds0)" "fetcher_ok E ds0"
          using validate_data_ok [OF ok(3)] I by simp_all
        then show ?thesis
          unfolding ok(2) using data_ok_set [OF _ v, of "ds_data ds0"] by (simp add: fetcher_ok_def)
      next
        case (err e)
        then show ?thesis using validate_data_ok [OF err(2)] I by simp
      next
        case again
        then show ?thesis using validate_data_ok [OF again(3)] I by simp
      qed
    qed (use assms(2,3) in simp)
  qed
qed

end
