(* ===== verification/Kad_DataStore_Props.thy ===== *)
theory Kad_DataStore_Props
  imports Kad_DataStore
begin

text \<open>
  The theorems about \<^verbatim>\<open>src/kademlia/datastore.go\<close>: what one call of \<^verbatim>\<open>Store\<close> promises, the integrity of
  the stored values, the order of versions under concurrent calls, and the case in which a latest
  pointer is lost.
\<close>

section \<open>Concurrent calls of Store\<close>

text \<open>
  A running call for a pointer: before its validation, or after it with the bytes it read under its
  key.  The critical sections are the steps.  The validation runs outside the locks; what its getter
  finds is any sequence of answers (\<open>get\<close>, a function of the number of the call), so every
  interleaving of its reads with other calls is covered.  The records it saves are saved one by one,
  under their hash and only where nothing is stored.  The step relation leaves out one thing, for the
  theorem below: storing content under the key \<open>k\<close>.
\<close>

datatype store_task =
    S_Start KademliaID bytes LatestPointer
  | S_Valid KademliaID bytes LatestPointer "bytes option"

record store_sys =
  sys_data :: data
  sys_tasks :: "store_task multiset"

inductive store_step :: "'e reg_env_scheme \<Rightarrow> KademliaID \<Rightarrow> store_sys \<Rightarrow> store_sys \<Rightarrow> bool" for E k where
  content: "sha256 E v \<noteq> k \<Longrightarrow> store_step E k s (s\<lparr>sys_data := gm_set (sha256 E v) v (sys_data s)\<rparr>)"
| call: "classify E maxSize key v = Inr (Some lp) \<Longrightarrow>
     store_step E k s (s\<lparr>sys_tasks := add_mset (S_Start key v lp) (sys_tasks s)\<rparr>)"
| rejected: "S_Start key v lp \<in># sys_tasks s \<Longrightarrow>
     store_step E k s (s\<lparr>sys_tasks := sys_tasks s - {#S_Start key v lp#}\<rparr>)"
| validated: "S_Start key v lp \<in># sys_tasks s \<Longrightarrow>
     fst (ValidateLatestPointerChain E (Some lp) (existing_pointer E (gm_get (sys_data s) key)) resolver
       (Some (get :: nat RecordGetter)) None 0) = Inr () \<Longrightarrow>
     store_step E k s (s\<lparr>sys_tasks := sys_tasks s - {#S_Start key v lp#}
       + {#S_Valid key v lp (gm_get (sys_data s) key)#}\<rparr>)"
| save: "gm_get (sys_data s) (sha256 E v) = None \<Longrightarrow>
     store_step E k s (s\<lparr>sys_data := gm_set (sha256 E v) v (sys_data s)\<rparr>)"
| commit: "S_Valid key v lp snap \<in># sys_tasks s \<Longrightarrow> gm_get (sys_data s) key = snap \<Longrightarrow>
     store_step E k s (s\<lparr>sys_data := gm_set key v (sys_data s),
       sys_tasks := sys_tasks s - {#S_Valid key v lp snap#}\<rparr>)"
| retry: "S_Valid key v lp snap \<in># sys_tasks s \<Longrightarrow> gm_get (sys_data s) key \<noteq> snap \<Longrightarrow>
     store_step E k s (s\<lparr>sys_tasks := sys_tasks s - {#S_Valid key v lp snap#} + {#S_Start key v lp#}\<rparr>)"

inductive_cases store_stepE: "store_step E k s s'"

definition pointer_at :: "'e reg_env_scheme \<Rightarrow> store_sys \<Rightarrow> KademliaID \<Rightarrow> LatestPointer option" where
  "pointer_at E s k = existing_pointer E (gm_get (sys_data s) k)"

fun store_task_ok :: "'e reg_env_scheme \<Rightarrow> store_task \<Rightarrow> bool" where
  "store_task_ok E (S_Start key v lp) = (ParseLatestPointer E v = Inr lp)"
| "store_task_ok E (S_Valid key v lp snap) =
     (ParseLatestPointer E v = Inr lp \<and>
      (case existing_pointer E snap of None \<Rightarrow> True | Some old \<Rightarrow> lp_ver old < lp_ver lp))"

definition tasks_ok :: "'e reg_env_scheme \<Rightarrow> store_sys \<Rightarrow> bool" where
  "tasks_ok E s \<longleftrightarrow> (\<forall>t \<in># sys_tasks s. store_task_ok E t)"

lemma Validate_accepted_version:
  assumes "fst (ValidateLatestPointerChain E (Some lp) old resolver (Some get) saver s) = Inr ()"
  shows "case old of None \<Rightarrow> True | Some p \<Rightarrow> lp_ver p < lp_ver lp"
proof (rule Validate_OK_pointer [OF assms [unfolded ValidateLatestPointerChain_def]])
  fix lp' pub get'
  assume "Some lp = Some lp'" and "pointer_ok E lp' old resolver pub"
  then show ?thesis by (cases old) (simp_all add: pointer_ok_def)
qed

lemma classify_pointer:
  "classify E maxSize key v = Inr (Some lp) \<Longrightarrow> ParseLatestPointer E v = Inr lp"
  by (auto simp: classify_def split: if_splits sum.splits)

lemma tasks_ok_step: "store_step E k s s' \<Longrightarrow> tasks_ok E s \<Longrightarrow> tasks_ok E s'"
proof (induction rule: store_step.induct)
  case (validated key v lp s resolver get)
  then have "store_task_ok E (S_Start key v lp)" by (auto simp: tasks_ok_def)
  with Validate_accepted_version [OF validated(2)] validated(3) show ?case
    by (auto simp: tasks_ok_def dest: in_diffD)
next
  case (retry key v lp snap s)
  then have "store_task_ok E (S_Valid key v lp snap)" by (auto simp: tasks_ok_def)
  with retry(3) show ?case by (auto simp: tasks_ok_def dest: in_diffD)
qed (auto simp: tasks_ok_def dest: in_diffD classify_pointer)

lemma existing_pointer_parse: "ParseLatestPointer E v = Inr lp \<Longrightarrow> existing_pointer E (Some v) = Some lp"
  by (simp add: existing_pointer_def)

lemma pointer_step:
  assumes "store_step E k s s'" and "tasks_ok E s" and "pointer_at E s k = Some lp"
  shows "\<exists>lp'. pointer_at E s' k = Some lp' \<and> (lp' = lp \<or> lp_ver lp < lp_ver lp')"
  using assms
proof (induction rule: store_step.induct)
  case (commit key v lp' snap s)
  then have t: "store_task_ok E (S_Valid key v lp' snap)" by (auto simp: tasks_ok_def)
  show ?case
  proof (cases "key = k")
    case True
    with t commit(2,4) show ?thesis by (auto simp: pointer_at_def existing_pointer_parse)
  next
    case False
    with commit(4) show ?thesis by (auto simp: pointer_at_def)
  qed
next
  case (save s v)
  then show ?case
    by (cases "sha256 E v = k") (auto simp: pointer_at_def existing_pointer_def)
qed (auto simp: pointer_at_def)

lemma pointer_run:
  assumes "(store_step E k)\<^sup>*\<^sup>* s s'" and "tasks_ok E s" and "pointer_at E s k = Some lp"
  shows "\<exists>lp'. pointer_at E s' k = Some lp' \<and> (lp' = lp \<or> lp_ver lp < lp_ver lp') \<and> tasks_ok E s'"
  using assms
proof (induction rule: rtranclp_induct)
  case (step y z)
  then obtain lp1 where "pointer_at E y k = Some lp1" "lp1 = lp \<or> lp_ver lp < lp_ver lp1" "tasks_ok E y"
    by blast
  with pointer_step [OF step(2)] tasks_ok_step [OF step(2)] show ?case by (metis less_trans)
qed auto

section \<open>One call\<close>

lemma Store_pointer_accepted:
  assumes "classify E (maxValSize ds) key value = Inr (Some lp)"
    and "fst (validateLatestPointerWithExisting E ds lp (existing_pointer E (gm_get (ds_data ds) key)) True w) = Inr ()"
    and "fetcher_keeps key ds" and "gm_get (ds_data ds) key = Some v"
  shows "\<exists>ds' w'. DataStore_Store E ds key value w = Some (Inr (), ds', w') \<and> DataStore_Get ds' key = Some value"
proof -
  obtain ds0 w0 where v: "validateLatestPointerWithExisting E ds lp (existing_pointer E (gm_get (ds_data ds) key)) True w = (Inr (), ds0, w0)"
    using assms(2) by (metis prod.collapse)
  have "gm_get (ds_data ds0) key = Some v" by (rule validate_keeps_present [OF v assms(3,4)])
  with v assms(1,4) show ?thesis
    by (simp add: DataStore_Store_def Store_loop.simps Store_round_def DataStore_Get_def)
qed

lemma Store_loop_contract:
  assumes "fetcher_keeps key ds" and "Store_loop E key value lp ds w = Some (r, ds2, w2)"
  shows "case r of Inr _ \<Rightarrow> gm_get (ds_data ds2) key = Some value
    | Inl _ \<Rightarrow> gm_get (ds_data ds2) key = gm_get (ds_data ds) key \<or>
        (gm_get (ds_data ds) key = None \<and> gm_get (ds_data ds2) key \<noteq> None)"
proof -
  obtain a ds1 w1 where r1: "Store_round E ds key value lp w = (a, ds1, w1)" by (cases "Store_round E ds key value lp w")
  note st = Store_loop_step [OF assms(2) r1]
  from r1 show ?thesis
  proof (cases rule: Store_round_cases)
    case (err e)
    then show ?thesis using st validate_error_keeps [OF err(2) assms(1)] by simp
  next
    case (ok ds0)
    then show ?thesis using st by simp
  next
    case again
    then have nxt: "Store_loop E key value lp ds1 w1 = Some (r, ds2, w2)" using st by simp
    have none: "gm_get (ds_data ds) key = None"
      using again(2) validate_keeps_present [OF again(3) assms(1)] by (cases "gm_get (ds_data ds) key") auto
    then obtain v where v: "gm_get (ds_data ds1) key = Some v" using again(2) by auto
    have f: "fetcher_keeps key ds1"
      using assms(1) validate_keeps_settings(3) [OF again(3)] by (simp add: fetcher_keeps_def)
    obtain b ds3 w3 where r2: "Store_round E ds1 key value lp w1 = (b, ds3, w3)" by (cases "Store_round E ds1 key value lp w1")
    note st2 = Store_loop_step [OF nxt r2]
    from r2 show ?thesis
    proof (cases rule: Store_round_cases)
      case (err e)
      then show ?thesis using st2 none validate_keeps_present [OF err(2) f v] by simp
    next
      case (ok ds0)
      then show ?thesis using st2 by simp
    next
      case again
      then show ?thesis using validate_keeps_present [OF again(3) f v] v by simp
    qed
  qed
qed

section \<open>A store for the examples\<close>

text \<open>The pointer to version 2 of the example package, with both records of its history.\<close>

abbreviation demo_key :: KademliaID where
  "demo_key \<equiv> DHTKeyBytes demo_env (Some demo_lp)"

definition demo_ds :: "unit DataStore" where
  "demo_ds = \<lparr>ds_data = [(demo_key, [4]), (mk_id [1], [1]), (mk_id [2], [2])], maxValSize = DefaultMaxValSize,
     dnsResolver = demo_resolver, recordFetcher = None\<rparr>"

lemma demo_keystring: "DHTKeyString demo_env (Some demo_lp) = ''example.com:pkg:latest''"
  using demo_valid(2,4) by (simp add: DHTKeyString_def LatestPointerKeyString_def) (simp add: demo_lp_def)

lemma demo_key_eq: "demo_key = mk_id (bytes_of_string ''example.com:pkg:latest'')"
proof -
  have "demo_key = sha256 demo_env (bytes_of_string (DHTKeyString demo_env (Some demo_lp)))"
    by (simp add: DHTKeyBytes_def DHTKeyString_def LatestPointerDHTKeyBytes_def)
  then show ?thesis unfolding demo_keystring by (simp add: demo_env_def)
qed

lemma demo_keys_ne: "mk_id [n] \<noteq> demo_key" if "n \<noteq> 101" for n
proof
  assume "mk_id [n] = demo_key"
  then have "hd (id_bytes (mk_id [n])) = hd (id_bytes demo_key)" by simp
  then show False
    using that unfolding demo_key_eq by (simp add: IDLength_def bytes_of_string_def of_char_def)
qed

lemma demo_parse: "ParseLatestPointer demo_env [3] = Inr demo_lp" "ParseLatestPointer demo_env [4] = Inr demo_lp2"
  using demo_ok(3,4) by (simp_all add: ParseLatestPointer_def) (simp_all add: demo_env_def)

lemma demo_classify: "classify demo_env DefaultMaxValSize demo_key [3] = Inr (Some demo_lp)"
  using demo_keys_ne [of 3] demo_parse(1)
  by (simp add: classify_def DefaultMaxValSize_def) (simp add: demo_env_def)

lemma demo_fetcher: "fetcher_keeps key demo_ds" "fetcher_ok E demo_ds"
  by (simp_all add: fetcher_keeps_def fetcher_ok_def demo_ds_def)

section \<open>Properties\<close>



text \<open>
  C11. A store that is written only through \<^verbatim>\<open>Store\<close> holds no stray data: every value is under its own
  hash or is a latest pointer under the key of its domain and package, the records saved during
  validation included.
\<close>

theorem Store_integrity:
  assumes "data_ok E (ds_data ds)" and "fetcher_ok E ds" and "DataStore_Store E ds key value w = Some (r, ds', w')"
  shows "data_ok E (ds_data ds')"
  using Store_data_ok [OF assms(3,1,2)] by simp

theorem Store_integrity_witness:
  "data_ok demo_env (ds_data (NewDataStore :: unit DataStore)) \<and>
   (\<exists>ds' w'. DataStore_Store demo_env (NewDataStore :: unit DataStore) (mk_id [7]) [7] () = Some (Inr (), ds', w') \<and>
     data_ok demo_env (ds_data ds'))"
proof -
  have n: "data_ok demo_env (ds_data (NewDataStore :: unit DataStore))" "fetcher_ok demo_env (NewDataStore :: unit DataStore)"
    by (simp_all add: NewDataStore_def data_ok_def fetcher_ok_def)
  have "sha256 demo_env [7] = mk_id [7]" by (simp add: demo_env_def)
  then have s: "DataStore_Store demo_env (NewDataStore :: unit DataStore) (mk_id [7]) [7] () =
    Some (Inr (), NewDataStore\<lparr>ds_data := gm_set (mk_id [7]) [7] (ds_data NewDataStore)\<rparr>, ())"
    by (simp add: DataStore_Store_def classify_def NewDataStore_def DefaultMaxValSize_def)
  from n(1) s Store_integrity [OF n s] show ?thesis by blast
qed

text \<open>
  C10. Versions only grow, under any interleaving of \<^verbatim>\<open>Store\<close> calls: in a run that does not store
  content under the key \<open>k\<close>, once a latest pointer is stored under \<open>k\<close> there is one from then on, and
  it is the same pointer or one with a strictly greater version.  This is what the optimistic
  compare-and-retry of \<^verbatim>\<open>Store\<close> is for.
\<close>

theorem pointer_versions_grow:
  assumes "sys_tasks s0 = {#}" and "(store_step E k)\<^sup>*\<^sup>* s0 s" and "(store_step E k)\<^sup>*\<^sup>* s s'"
    and "pointer_at E s k = Some lp"
  shows "\<exists>lp'. pointer_at E s' k = Some lp' \<and> (lp' = lp \<or> lp_ver lp < lp_ver lp')"
proof -
  have "tasks_ok E s0" using assms(1) by (simp add: tasks_ok_def)
  from assms(2) this have "tasks_ok E s" by (induction rule: rtranclp_induct) (auto intro: tasks_ok_step)
  from pointer_run [OF assms(3) this assms(4)] show ?thesis by blast
qed

theorem pointer_versions_grow_witness:
  "let s = \<lparr>sys_data = [(demo_key, [3])], sys_tasks = {#}\<rparr>;
       s' = s\<lparr>sys_data := gm_set (sha256 demo_env [7]) [7] (sys_data s)\<rparr> in
   (store_step demo_env demo_key)\<^sup>*\<^sup>* s s' \<and>
   (\<exists>lp'. pointer_at demo_env s' demo_key = Some lp' \<and> (lp' = demo_lp \<or> lp_ver demo_lp < lp_ver lp'))"
proof -
  let ?s = "\<lparr>sys_data = [(demo_key, [3])], sys_tasks = {#}\<rparr>"
  have "sha256 demo_env [7] \<noteq> demo_key" using demo_keys_ne [of 7] by (simp add: demo_env_def)
  then have st: "(store_step demo_env demo_key)\<^sup>*\<^sup>* ?s (?s\<lparr>sys_data := gm_set (sha256 demo_env [7]) [7] (sys_data ?s)\<rparr>)"
    by (blast intro: store_step.content)
  have "pointer_at demo_env ?s demo_key = Some demo_lp"
    by (simp add: pointer_at_def existing_pointer_def gm_get_def demo_parse)
  from pointer_versions_grow [OF _ rtranclp.rtrancl_refl st this] st show ?thesis by (simp add: Let_def)
qed

text \<open>
  C18. A latest pointer can be erased and rolled back by anyone.  The key of a pointer is the SHA-256 of
  the string \<^verbatim>\<open>domain:package:latest\<close>, so that string itself is content for the key: \<^verbatim>\<open>Store\<close> accepts it
  without any signature and overwrites the pointer.  After that every pointer \<open>lp\<close> with a valid
  history back to the first version is accepted again, however old it is.
\<close>

theorem Store_pointer_wipe:
  fixes ds :: "'w DataStore"
  assumes "maxValSize ds = DefaultMaxValSize" and "length (DHTKeyString E (Some lp)) \<le> 1024"
    and "unjson_LatestPointer E (bytes_of_string (DHTKeyString E (Some lp))) = None"
    and "classify E (maxValSize ds) (DHTKeyBytes E (Some lp)) value = Inr (Some lp)"
    and "fetcher_keeps (DHTKeyBytes E (Some lp)) ds"
    and "fst (validateLatestPointerWithExisting E
      (StoreUnchecked ds (DHTKeyBytes E (Some lp)) (bytes_of_string (DHTKeyString E (Some lp)))) lp None True w) = Inr ()"
  shows "\<exists>ds1 ds2 w2.
    DataStore_Store E ds (DHTKeyBytes E (Some lp)) (bytes_of_string (DHTKeyString E (Some lp))) w = Some (Inr (), ds1, w) \<and>
    existing_pointer E (DataStore_Get ds1 (DHTKeyBytes E (Some lp))) = None \<and>
    DataStore_Store E ds1 (DHTKeyBytes E (Some lp)) value w = Some (Inr (), ds2, w2) \<and>
    DataStore_Get ds2 (DHTKeyBytes E (Some lp)) = Some value"
proof -
  let ?k = "DHTKeyBytes E (Some lp)" and ?v = "bytes_of_string (DHTKeyString E (Some lp))"
  let ?ds1 = "StoreUnchecked ds ?k ?v"
  have "sha256 E ?v = ?k" by (simp add: DHTKeyBytes_def DHTKeyString_def LatestPointerDHTKeyBytes_def)
  then have s1: "DataStore_Store E ds ?k ?v w = Some (Inr (), ?ds1, w)"
    using assms(1,2) by (simp add: DataStore_Store_def classify_def StoreUnchecked_def DefaultMaxValSize_def)
  have g: "gm_get (ds_data ?ds1) ?k = Some ?v" by (simp add: StoreUnchecked_def)
  have e: "existing_pointer E (gm_get (ds_data ?ds1) ?k) = None"
    using assms(3) by (simp add: g existing_pointer_def ParseLatestPointer_def)
  have "fetcher_keeps ?k ?ds1" "maxValSize ?ds1 = maxValSize ds"
    using assms(5) by (simp_all add: fetcher_keeps_def StoreUnchecked_def)
  then have "\<exists>ds2 w2. DataStore_Store E ?ds1 ?k value w = Some (Inr (), ds2, w2) \<and> DataStore_Get ds2 ?k = Some value"
    using assms(4,6) e g by (intro Store_pointer_accepted [where lp = lp and v = ?v]) simp_all
  with s1 e show ?thesis by (auto simp: DataStore_Get_def)
qed

lemma demo_wiped_validates:
  "fst (validateLatestPointerWithExisting demo_env
     (StoreUnchecked demo_ds demo_key (bytes_of_string (DHTKeyString demo_env (Some demo_lp)))) demo_lp None True ()) = Inr ()"
proof -
  let ?ds = "StoreUnchecked demo_ds demo_key (bytes_of_string (DHTKeyString demo_env (Some demo_lp)))"
  have "gm_get (ds_data ?ds) (mk_id [1]) = Some [1]"
    using demo_keys_ne [of 1] by (simp add: StoreUnchecked_def) (simp add: demo_ds_def gm_get_def)
  moreover have "hex_DecodeString demo_h1 = (id_bytes (mk_id [1]), True)" unfolding demo_h1_def by simp
  ultimately have "ds_getter None (ds_data ?ds, ()) demo_h1 = (Inr [1], (ds_data ?ds, ()))"
    by (simp only: ds_getter_def Let_def prod.case hex_id(2) length_id_bytes fst_conv option.case) simp
  then have "fst (ValidateLatestPointerChainWithDepth demo_env (Some demo_lp) None demo_resolver (Some (ds_getter None))
    (Some ds_saver) 1000 (ds_data ?ds, ())) = Inr ()"
    by (intro Validate_complete [OF demo_pointer_ok(1) demo_histories(1)]) (simp add: demo_entry_def)
  moreover have "dnsResolver ?ds = demo_resolver" "recordFetcher ?ds = None"
    by (simp_all add: StoreUnchecked_def demo_ds_def)
  ultimately show ?thesis
    by (simp add: validateLatestPointerWithExisting_def ValidateLatestPointerChain_def DefaultMaxChainDepth_def
        case_prod_unfold Let_def)
qed

theorem Store_pointer_wipe_witness:
  "existing_pointer demo_env (DataStore_Get demo_ds demo_key) = Some demo_lp2 \<and> lp_ver demo_lp < lp_ver demo_lp2 \<and>
   (\<exists>ds1 ds2 w2. DataStore_Store demo_env demo_ds demo_key (bytes_of_string (DHTKeyString demo_env (Some demo_lp))) () =
       Some (Inr (), ds1, ()) \<and>
     DataStore_Store demo_env ds1 demo_key [3] () = Some (Inr (), ds2, w2) \<and>
     existing_pointer demo_env (DataStore_Get ds2 demo_key) = Some demo_lp)"
proof -
  have old: "existing_pointer demo_env (DataStore_Get demo_ds demo_key) = Some demo_lp2"
    by (simp add: DataStore_Get_def demo_ds_def gm_get_def existing_pointer_def demo_parse)
  have ver: "lp_ver demo_lp < lp_ver demo_lp2" using demo_pointer_ok(2) by (simp add: pointer_ok_def)
  have nojson: "unjson_LatestPointer demo_env (bytes_of_string (DHTKeyString demo_env (Some demo_lp))) = None"
    unfolding demo_keystring by (simp add: demo_env_def bytes_of_string_def)
  have size: "maxValSize demo_ds = DefaultMaxValSize" "length (DHTKeyString demo_env (Some demo_lp)) \<le> 1024"
    unfolding demo_keystring by (simp_all add: demo_ds_def)
  from Store_pointer_wipe [OF size nojson _ demo_fetcher(1) demo_wiped_validates, of "[3]"] demo_classify size(1)
  have "\<exists>ds1 ds2 w2. DataStore_Store demo_env demo_ds demo_key (bytes_of_string (DHTKeyString demo_env (Some demo_lp))) () =
       Some (Inr (), ds1, ()) \<and> DataStore_Store demo_env ds1 demo_key [3] () = Some (Inr (), ds2, w2) \<and>
     DataStore_Get ds2 demo_key = Some [3]" by auto
  then show ?thesis using old ver existing_pointer_parse [OF demo_parse(1)] by auto
qed

end
