(* ===== verification/Kad_RoutingTable.thy ===== *)
theory Kad_RoutingTable
  imports Kad_Contact
begin

text \<open>
  \<^verbatim>\<open>src/kademlia/routingtable.go\<close>: the 256 k-buckets of a node, the replacement cache and the
  ping-based eviction.  The state is the record \<open>RoutingTable\<close> (the two mutexes are the atomicity of
  the operations below; \<^verbatim>\<open>evictWg\<close> is its counter).  \<open>UpdateWithPing\<close> is split at its lock
  boundaries, and the eviction goroutine is the task type of the theory on eviction; here are the
  sequential operations and the invariant \<open>rt_wf\<close>.
\<close>

definition replacementCacheSize :: nat where
  "replacementCacheSize = 10"

definition numBuckets :: nat where
  "numBuckets = IDLength * 8"

record RoutingTable =
  me :: Contact
  buckets :: "bucket list"
  inFlight :: "(nat, bool) gomap"
  replacements :: "(nat, Contact list) gomap"
  evictWg :: nat

definition NewRoutingTable :: "Contact \<Rightarrow> RoutingTable" where
  "NewRoutingTable m =
     \<lparr>me = m, buckets = replicate numBuckets newBucket, inFlight = gm_empty,
      replacements = gm_empty, evictWg = 0\<rparr>"

section \<open>Bucket index\<close>

text \<open>The inner loop over the bits of byte \<open>i\<close>, then the outer loop over the bytes.\<close>

fun GetBucketIndex_bits :: "byte \<Rightarrow> nat \<Rightarrow> nat list \<Rightarrow> nat option" where
  "GetBucketIndex_bits d i [] = None"
| "GetBucketIndex_bits d i (j # js) =
     (if drop_bit (7 - j) d AND 1 \<noteq> 0 then Some (i * 8 + j) else GetBucketIndex_bits d i js)"

fun GetBucketIndex_bytes :: "bytes \<Rightarrow> nat \<Rightarrow> nat option" where
  "GetBucketIndex_bytes [] i = None"
| "GetBucketIndex_bytes (d # ds) i =
     (case GetBucketIndex_bits d i [0..<8] of
        Some r \<Rightarrow> Some r
      | None \<Rightarrow> GetBucketIndex_bytes ds (Suc i))"

definition bucket_index :: "KademliaID \<Rightarrow> KademliaID \<Rightarrow> nat" where
  "bucket_index m i =
     (case GetBucketIndex_bytes (id_bytes (KademliaID_CalcDistance i m)) 0 of
        Some r \<Rightarrow> r
      | None \<Rightarrow> IDLength * 8 - 1)"

definition GetBucketIndex :: "RoutingTable \<Rightarrow> KademliaID option \<Rightarrow> nat option" where
  "GetBucketIndex rt i =
     (case (i, ID (me rt)) of (Some x, Some m) \<Rightarrow> Some (bucket_index m x) | _ \<Rightarrow> None)"

section \<open>Adding and removing\<close>

definition RoutingTable_AddContact :: "RoutingTable \<Rightarrow> Contact \<Rightarrow> RoutingTable option" where
  "RoutingTable_AddContact rt contact =
     (if ID contact = None then Some rt
      else do {
        bi \<leftarrow> GetBucketIndex rt (ID contact);
        (b, added) \<leftarrow> bucket_AddContact (buckets rt ! bi) contact;
        Some (rt\<lparr>buckets := (buckets rt)[bi := b]\<rparr>)
      })"

definition RoutingTable_RemoveContact ::
  "RoutingTable \<Rightarrow> Contact \<Rightarrow> (RoutingTable \<times> bool) option" where
  "RoutingTable_RemoveContact rt contact =
     (if ID contact = None then Some (rt, False)
      else do {
        bi \<leftarrow> GetBucketIndex rt (ID contact);
        let (b, removed) = bucket_RemoveContact (buckets rt ! bi) contact in
        Some (rt\<lparr>buckets := (buckets rt)[bi := b]\<rparr>, removed)
      })"

section \<open>UpdateWithPing\<close>

text \<open>
  The critical section under \<^verbatim>\<open>mu\<close>: the candidate is added or promoted, or the bucket is full and
  the result names the bucket and its oldest contact.  \<open>None\<close> in the second component: the call
  returns here (done, or dropped because there is no pinger).
\<close>

definition UpdateWithPing_table ::
  "RoutingTable \<Rightarrow> Contact \<Rightarrow> bool \<Rightarrow> (RoutingTable \<times> (nat \<times> Contact) option) option" where
  "UpdateWithPing_table rt candidate has_pinger =
     (if ID candidate = None then Some (rt, None)
      else do {
        self \<leftarrow> (if ID (me rt) \<noteq> None then Equals_ptr (ID candidate) (ID (me rt)) else Some False);
        if self then Some (rt, None)
        else do {
          bi \<leftarrow> GetBucketIndex rt (ID candidate);
          (b, added) \<leftarrow> bucket_AddContact (buckets rt ! bi) candidate;
          if added then Some (rt\<lparr>buckets := (buckets rt)[bi := b]\<rparr>, None)
          else (case bucket_GetOldestContact b of
                  None \<Rightarrow> Some (rt, None)
                | Some oldest \<Rightarrow> Some (rt, if has_pinger then Some (bi, oldest) else None))
        }
      })"

fun in_cache :: "Contact \<Rightarrow> Contact list \<Rightarrow> bool" where
  "in_cache candidate [] = False"
| "in_cache candidate (c # cs) =
     (if ID c \<noteq> None \<and> Equals_ptr (ID c) (ID candidate) = Some True then True
      else in_cache candidate cs)"

definition enqueue_replacement :: "Contact list \<Rightarrow> Contact \<Rightarrow> Contact list" where
  "enqueue_replacement queue candidate =
     (if in_cache candidate queue then queue
      else (if replacementCacheSize \<le> length queue then tl queue else queue) @ [candidate])"

definition queue_of :: "RoutingTable \<Rightarrow> nat \<Rightarrow> Contact list" where
  "queue_of rt bi = (case gm_get (replacements rt) bi of None \<Rightarrow> [] | Some q \<Rightarrow> q)"

definition is_inFlight :: "RoutingTable \<Rightarrow> nat \<Rightarrow> bool" where
  "is_inFlight rt bi = (gm_get (inFlight rt) bi = Some True)"

text \<open>
  The critical section under \<^verbatim>\<open>evictMu\<close>: queue the candidate; True in the result when the
  eviction goroutine is launched.
\<close>

definition UpdateWithPing_queue ::
  "RoutingTable \<Rightarrow> Contact \<Rightarrow> nat \<Rightarrow> RoutingTable \<times> bool" where
  "UpdateWithPing_queue rt candidate bi =
     (let queue = queue_of rt bi;
          rt1 = (if in_cache candidate queue then rt
                 else rt\<lparr>replacements :=
                        gm_set bi (enqueue_replacement queue candidate) (replacements rt)\<rparr>)
      in if is_inFlight rt1 bi then (rt1, False)
         else (rt1\<lparr>inFlight := gm_set bi True (inFlight rt1), evictWg := Suc (evictWg rt1)\<rparr>, True))"

text \<open>
  The whole call when nothing runs between its two critical sections; the second component is the
  goroutine it launches, if any: bucket index and contact to ping.
\<close>

definition UpdateWithPing ::
  "RoutingTable \<Rightarrow> Contact \<Rightarrow> bool \<Rightarrow> (RoutingTable \<times> (nat \<times> Contact) option) option" where
  "UpdateWithPing rt candidate has_pinger = do {
     (rt1, r) \<leftarrow> UpdateWithPing_table rt candidate has_pinger;
     case r of
       None \<Rightarrow> Some (rt1, None)
     | Some (bi, oldest) \<Rightarrow>
         let (rt2, launched) = UpdateWithPing_queue rt1 candidate bi in
         Some (rt2, if launched then Some (bi, oldest) else None)
   }"

definition pop_replacement :: "RoutingTable \<Rightarrow> nat \<Rightarrow> RoutingTable \<times> Contact option" where
  "pop_replacement rt bi =
     (case queue_of rt bi of
        [] \<Rightarrow> (rt, None)
      | repl # rest \<Rightarrow> (rt\<lparr>replacements := gm_set bi rest (replacements rt)\<rparr>, Some repl))"

definition promote_target :: "RoutingTable \<Rightarrow> nat \<Rightarrow> Contact \<Rightarrow> RoutingTable option" where
  "promote_target rt bi target = do {
     (b, added) \<leftarrow> bucket_AddContact (buckets rt ! bi) target;
     Some (rt\<lparr>buckets := (buckets rt)[bi := b]\<rparr>)
   }"

definition clear_inFlight :: "RoutingTable \<Rightarrow> nat \<Rightarrow> RoutingTable" where
  "clear_inFlight rt bi = rt\<lparr>inFlight := gm_del bi (inFlight rt)\<rparr>"

text \<open>
  The body of the eviction goroutine run without interleaving, given whether the ping failed.
\<close>

definition eviction_probe :: "RoutingTable \<Rightarrow> nat \<Rightarrow> Contact \<Rightarrow> bool \<Rightarrow> RoutingTable option" where
  "eviction_probe rt bi target ping_failed = do {
     rt1 \<leftarrow> (if ping_failed then do {
               (ra, removed) \<leftarrow> RoutingTable_RemoveContact rt target;
               let (rb, repl) = pop_replacement ra bi in
               case repl of None \<Rightarrow> Some rb | Some c \<Rightarrow> RoutingTable_AddContact rb c
             } else promote_target rt bi target);
     Some ((clear_inFlight rt1 bi)\<lparr>evictWg := evictWg rt1 - 1\<rparr>)
   }"

definition GetReplacementCandidates :: "RoutingTable \<Rightarrow> nat \<Rightarrow> Contact list" where
  "GetReplacementCandidates rt bi = queue_of rt bi"

section \<open>Queries\<close>

function FindClosest_loop ::
  "bucket list \<Rightarrow> KademliaID option \<Rightarrow> int \<Rightarrow> nat \<Rightarrow> nat \<Rightarrow> Contact list \<Rightarrow> Contact list option" where
  "FindClosest_loop bs target cnt bi i candidates =
     (if (i \<le> bi \<or> bi + i < numBuckets) \<and> int (length candidates) < cnt then do {
        lo \<leftarrow> (if i \<le> bi then bucket_GetContactAndCalcDistance (bs ! (bi - i)) target
               else Some []);
        hi \<leftarrow> (if bi + i < numBuckets then bucket_GetContactAndCalcDistance (bs ! (bi + i)) target
               else Some []);
        FindClosest_loop bs target cnt bi (Suc i) (candidates @ lo @ hi)
      } else Some candidates)"
  by pat_completeness auto
termination
  by (relation "measure (\<lambda>(bs, target, cnt, bi, i, candidates). Suc (bi + numBuckets) - i)") auto

declare FindClosest_loop.simps [simp del]

definition FindClosestContacts ::
  "RoutingTable \<Rightarrow> KademliaID option \<Rightarrow> int \<Rightarrow> Contact list option" where
  "FindClosestContacts rt target cnt = do {
     bi \<leftarrow> GetBucketIndex rt target;
     own \<leftarrow> bucket_GetContactAndCalcDistance (buckets rt ! bi) target;
     candidates \<leftarrow> FindClosest_loop (buckets rt) target cnt bi 1 (ContactCandidates_Append [] own);
     sorted \<leftarrow> ContactCandidates_Sort candidates;
     ContactCandidates_GetContacts sorted
       (if cnt > ContactCandidates_Len sorted then ContactCandidates_Len sorted else cnt)
   }"

definition GetAllContacts :: "RoutingTable \<Rightarrow> Contact list" where
  "GetAllContacts rt = concat (buckets rt)"

fun highest_non_empty :: "bucket list \<Rightarrow> nat \<Rightarrow> int" where
  "highest_non_empty bs 0 = -1"
| "highest_non_empty bs (Suc i) =
     (if bucket_Len (bs ! i) > 0 then int i else highest_non_empty bs i)"

definition GetClosestNonEmptyBucketIndex :: "RoutingTable \<Rightarrow> int" where
  "GetClosestNonEmptyBucketIndex rt = highest_non_empty (buckets rt) numBuckets"

definition IsBucketEmpty :: "RoutingTable \<Rightarrow> int \<Rightarrow> bool" where
  "IsBucketEmpty rt index =
     (if index < 0 \<or> index \<ge> int numBuckets then True
      else bucket_Len (buckets rt ! nat index) = 0)"

section \<open>The bucket index is the length of the shared prefix\<close>

lemma bit_test_iff:
  fixes d :: byte
  assumes "k < 8" and "unat d < 2 ^ (8 - k)"
  shows "drop_bit (7 - k) d AND 1 \<noteq> 0 \<longleftrightarrow> 2 ^ (7 - k) \<le> unat d"
proof -
  define n where "n = 7 - k"
  have n: "8 - k = Suc n" using assms(1) by (simp add: n_def)
  have "unat d div 2 ^ n < 2"
    using assms(2) by (simp add: n less_mult_imp_div_less mult.commute)
  have "drop_bit n d AND 1 \<noteq> 0 \<longleftrightarrow> bit d n"
    by (simp add: and_one_eq mod2_eq_if bit_iff_odd_drop_bit)
  also have "\<dots> \<longleftrightarrow> bit (unat d) n"
    using assms(1) by (simp add: bit_unsigned_iff n_def)
  also have "\<dots> \<longleftrightarrow> unat d div 2 ^ n \<noteq> 0"
    using \<open>unat d div 2 ^ n < 2\<close> by (auto simp: bit_iff_odd less_2_cases_iff)
  also have "\<dots> \<longleftrightarrow> 2 ^ n \<le> unat d"
    by (simp add: div_eq_0_iff not_less)
  finally show ?thesis by (simp add: n_def)
qed

lemma GetBucketIndex_bits_spec:
  assumes "k \<le> 8" and "unat d < 2 ^ (8 - k)"
  shows "case GetBucketIndex_bits d i [k..<8] of
      None \<Rightarrow> unat d = 0
    | Some r \<Rightarrow> \<exists>j<8. r = i * 8 + j \<and> 2 ^ (7 - j) \<le> unat d \<and> unat d < 2 ^ (8 - j)"
  using assms
proof (induction "8 - k" arbitrary: k)
  case 0
  then show ?case by simp
next
  case (Suc n)
  then have k: "k < 8" by simp
  then have u: "[k..<8] = k # [Suc k..<8]" by (simp add: upt_conv_Cons)
  show ?case
  proof (cases "2 ^ (7 - k) \<le> unat d")
    case True
    with Suc.prems k show ?thesis by (auto simp: u bit_test_iff)
  next
    case False
    then have "unat d < 2 ^ (8 - Suc k)" by simp
    with Suc False k show ?thesis by (simp add: u bit_test_iff)
  qed
qed

lemma GetBucketIndex_bytes_spec:
  "case GetBucketIndex_bytes ds i of
     None \<Rightarrow> be_nat ds = 0
   | Some r \<Rightarrow> \<exists>m < 8 * length ds. r = 8 * i + m \<and>
       2 ^ (8 * length ds - 1 - m) \<le> be_nat ds \<and> be_nat ds < 2 ^ (8 * length ds - m)"
proof (induction ds arbitrary: i)
  case (Cons d ds)
  let ?n = "8 * length ds"
  have pw: "(256 :: nat) ^ length ds = 2 ^ ?n" by (simp add: power_mult)
  have lo: "be_nat ds < 2 ^ ?n" using be_nat_less [of ds] pw by simp
  have b: "case GetBucketIndex_bits d i [0..<8] of
      None \<Rightarrow> unat d = 0
    | Some r \<Rightarrow> \<exists>j<8. r = i * 8 + j \<and> 2 ^ (7 - j) \<le> unat d \<and> unat d < 2 ^ (8 - j)"
    by (rule GetBucketIndex_bits_spec) simp_all
  show ?case
  proof (cases "GetBucketIndex_bits d i [0..<8]")
    case None
    with b have "unat d = 0" by simp
    show ?thesis
    proof (cases "GetBucketIndex_bytes ds (Suc i)")
      case None': None
      with None Cons.IH [of "Suc i"] \<open>unat d = 0\<close> show ?thesis by simp
    next
      case (Some r)
      with Cons.IH [of "Suc i"] obtain m where "m < ?n" "r = 8 * Suc i + m"
        "2 ^ (?n - 1 - m) \<le> be_nat ds" "be_nat ds < 2 ^ (?n - m)"
        by auto
      with None Some \<open>unat d = 0\<close> show ?thesis by (auto intro!: exI [of _ "8 + m"])
    qed
  next
    case (Some r)
    with b obtain j where j: "j < 8" "r = i * 8 + j" "2 ^ (7 - j) \<le> unat d" "unat d < 2 ^ (8 - j)"
      by auto
    have "2 ^ (7 - j) * 2 ^ ?n \<le> be_nat (d # ds)"
      unfolding be_nat.simps pw by (rule trans_le_add1 [OF mult_le_mono1 [OF j(3)]])
    moreover have "be_nat (d # ds) < 2 ^ (8 - j) * 2 ^ ?n"
      using mult_le_mono1 [of "unat d + 1" "2 ^ (8 - j)" "2 ^ ?n"] j(4) pw lo
      by (simp add: algebra_simps)
    moreover have "8 * length (d # ds) - 1 - j = 7 - j + ?n" "8 * length (d # ds) - j = 8 - j + ?n"
      using j(1) by simp_all
    ultimately have "2 ^ (8 * length (d # ds) - 1 - j) \<le> be_nat (d # ds)"
      and "be_nat (d # ds) < 2 ^ (8 * length (d # ds) - j)"
      by (simp_all only: power_add)
    with Some j show ?thesis by (auto simp del: be_nat.simps)
  qed
qed simp

text \<open>
  \<open>bucket_index m x = i\<close> says that the distance of \<open>x\<close> and \<open>m\<close> has its highest bit at position
  \<open>255 - i\<close>: the identifiers share a prefix of exactly \<open>i\<close> bits.
\<close>

lemma numBuckets_256: "numBuckets = 256"
  by (simp add: numBuckets_def IDLength_def)

lemma bucket_index_bounds:
  assumes "x \<noteq> m"
  shows "bucket_index m x < numBuckets"
    and "2 ^ (255 - bucket_index m x) \<le> id_num (KademliaID_CalcDistance x m)"
    and "id_num (KademliaID_CalcDistance x m) < 2 ^ (256 - bucket_index m x)"
proof -
  let ?d = "id_bytes (KademliaID_CalcDistance x m)"
  have "be_nat ?d \<noteq> 0"
    using assms CalcDistance_zero [of x m] by (simp add: id_num_def)
  with GetBucketIndex_bytes_spec [of ?d 0] obtain r where
    r: "GetBucketIndex_bytes ?d 0 = Some r" "r < 8 * length ?d"
      "2 ^ (8 * length ?d - 1 - r) \<le> be_nat ?d" "be_nat ?d < 2 ^ (8 * length ?d - r)"
    by (auto split: option.splits)
  then show "bucket_index m x < numBuckets"
    "2 ^ (255 - bucket_index m x) \<le> id_num (KademliaID_CalcDistance x m)"
    "id_num (KademliaID_CalcDistance x m) < 2 ^ (256 - bucket_index m x)"
    by (simp_all add: bucket_index_def numBuckets_def id_num_def IDLength_def)
qed

lemma bucket_index_self: "bucket_index m m = numBuckets - 1"
proof -
  have "be_nat (id_bytes (KademliaID_CalcDistance m m)) = 0"
    using CalcDistance_zero [of m m] by (simp add: id_num_def)
  with GetBucketIndex_bytes_spec [of "id_bytes (KademliaID_CalcDistance m m)" 0]
  have "GetBucketIndex_bytes (id_bytes (KademliaID_CalcDistance m m)) 0 = None"
    by (auto split: option.splits)
  then show ?thesis by (simp add: bucket_index_def numBuckets_def)
qed

lemma bucket_index_less [simp]: "bucket_index m x < numBuckets"
  using bucket_index_bounds(1) [of x m] bucket_index_self [of m]
  by (cases "x = m") (auto simp: numBuckets_256)

section \<open>The invariant\<close>

definition tbl_wf :: "KademliaID \<Rightarrow> bucket list \<Rightarrow> bool" where
  "tbl_wf m bs \<longleftrightarrow>
     length bs = numBuckets \<and>
     (\<forall>i < numBuckets. bucket_wf (bs ! i) \<and> list_all (\<lambda>c. bucket_index m (cid c) = i) (bs ! i))"

definition queue_wf :: "KademliaID \<Rightarrow> nat \<Rightarrow> Contact list \<Rightarrow> bool" where
  "queue_wf m bi q \<longleftrightarrow>
     length q \<le> replacementCacheSize \<and> distinct (map cid q) \<and>
     list_all (\<lambda>c. ID c \<noteq> None \<and> bucket_index m (cid c) = bi) q"

definition rt_wf :: "RoutingTable \<Rightarrow> bool" where
  "rt_wf rt \<longleftrightarrow>
     ID (me rt) \<noteq> None \<and> tbl_wf (cid (me rt)) (buckets rt) \<and>
     gm_wf (inFlight rt) \<and> gm_wf (replacements rt) \<and>
     (\<forall>bi. queue_wf (cid (me rt)) bi (queue_of rt bi))"

lemma rt_wf_New [wf_intros]: "ID m \<noteq> None \<Longrightarrow> rt_wf (NewRoutingTable m)"
  by (simp add: rt_wf_def NewRoutingTable_def tbl_wf_def queue_wf_def queue_of_def newBucket_def
      bucket_wf_def)

lemma rt_wfD:
  assumes "rt_wf rt"
  shows "\<exists>m. ID (me rt) = Some m" "length (buckets rt) = numBuckets"
    "\<And>i. i < numBuckets \<Longrightarrow> bucket_wf (buckets rt ! i)"
    "\<And>i c. i < numBuckets \<Longrightarrow> c \<in> set (buckets rt ! i) \<Longrightarrow>
      ID c \<noteq> None \<and> bucket_index (cid (me rt)) (cid c) = i"
  using assms by (auto simp: rt_wf_def tbl_wf_def list_all_iff bucket_wf_def)

lemma tbl_wf_update:
  assumes "tbl_wf m bs" and "bucket_wf b" and "\<forall>c \<in> set b. bucket_index m (cid c) = bi"
  shows "tbl_wf m (bs[bi := b])"
  using assms by (cases "bi < numBuckets")
    (auto simp: tbl_wf_def list_all_iff nth_list_update list_update_beyond split: if_splits)

lemma rt_wf_buckets_update:
  assumes "rt_wf rt" and "bucket_wf b"
    and "\<forall>c \<in> set b. bucket_index (cid (me rt)) (cid c) = bi"
  shows "rt_wf (rt\<lparr>buckets := (buckets rt)[bi := b]\<rparr>)"
  using assms tbl_wf_update [of "cid (me rt)" "buckets rt" b bi]
  by (simp add: rt_wf_def queue_of_def)

lemma GetBucketIndex_eq [simp]:
  "rt_wf rt \<Longrightarrow> GetBucketIndex rt (Some x) = Some (bucket_index (cid (me rt)) x)"
  by (auto simp: GetBucketIndex_def rt_wf_def)

lemma bucket_add_in_place:
  assumes "rt_wf rt" and "ID c \<noteq> None" and "bi = bucket_index (cid (me rt)) (cid c)"
    and "bucket_AddContact (buckets rt ! bi) c = Some (b, r)"
  shows "rt_wf (rt\<lparr>buckets := (buckets rt)[bi := b]\<rparr>)"
proof (rule rt_wf_buckets_update [OF assms(1)])
  have w: "bucket_wf (buckets rt ! bi)" and "bi < numBuckets"
    using assms(1,3) by (auto simp: rt_wfD)
  show "bucket_wf b" by (rule bucket_AddContact_wf [OF w assms(2,4)])
  show "\<forall>x \<in> set b. bucket_index (cid (me rt)) (cid x) = bi"
    using bucket_AddContact_ids(2) [OF w _ assms(4)] assms(2,3) rt_wfD(4) [OF assms(1) \<open>bi < numBuckets\<close>]
    by fastforce
qed

lemma RoutingTable_AddContact_eq:
  assumes "rt_wf rt" and "ID c = Some k"
  obtains b r where "bucket_AddContact (buckets rt ! bucket_index (cid (me rt)) k) c = Some (b, r)"
    and "RoutingTable_AddContact rt c =
           Some (rt\<lparr>buckets := (buckets rt)[bucket_index (cid (me rt)) k := b]\<rparr>)"
proof -
  have "bucket_wf (buckets rt ! bucket_index (cid (me rt)) k)"
    using assms(1) by (simp add: rt_wfD)
  then obtain b r where "bucket_AddContact (buckets rt ! bucket_index (cid (me rt)) k) c = Some (b, r)"
    using bucket_AddContact_no_panic assms(2) by blast
  with assms that show thesis by (simp add: RoutingTable_AddContact_def)
qed

lemma RoutingTable_AddContact_no_panic [panic_free]:
  "rt_wf rt \<Longrightarrow> \<exists>rt'. RoutingTable_AddContact rt c = Some rt'"
  by (cases "ID c") (auto simp: RoutingTable_AddContact_def elim: RoutingTable_AddContact_eq)

lemma RoutingTable_AddContact_wf [wf_intros]:
  assumes "rt_wf rt" and "RoutingTable_AddContact rt c = Some rt'"
  shows "rt_wf rt'"
proof (cases "ID c")
  case None
  with assms show ?thesis by (simp add: RoutingTable_AddContact_def)
next
  case (Some k)
  with assms(1) show ?thesis
  proof (rule RoutingTable_AddContact_eq)
    fix b r
    assume "bucket_AddContact (buckets rt ! bucket_index (cid (me rt)) k) c = Some (b, r)"
      "RoutingTable_AddContact rt c =
        Some (rt\<lparr>buckets := (buckets rt)[bucket_index (cid (me rt)) k := b]\<rparr>)"
    with assms(2) Some bucket_add_in_place [OF assms(1), of c _ b r] show ?thesis by auto
  qed
qed

lemma RoutingTable_AddContact_me:
  "RoutingTable_AddContact rt c = Some rt' \<Longrightarrow> me rt' = me rt"
  by (auto simp: RoutingTable_AddContact_def bind_eq_Some_conv split: if_splits)

lemma RoutingTable_RemoveContact_eq:
  assumes "rt_wf rt" and "ID c = Some k"
  defines "bi \<equiv> bucket_index (cid (me rt)) k"
  shows "RoutingTable_RemoveContact rt c =
    Some (rt\<lparr>buckets := (buckets rt)[bi := filter (\<lambda>e. cid e \<noteq> k) (buckets rt ! bi)]\<rparr>,
          k \<in> cid ` set (buckets rt ! bi))"
  using assms rt_wfD(3) [OF assms(1), of bi]
  by (simp add: RoutingTable_RemoveContact_def bucket_RemoveContact_eq)

lemma RoutingTable_RemoveContact_no_panic [panic_free]:
  "rt_wf rt \<Longrightarrow> \<exists>rt' r. RoutingTable_RemoveContact rt c = Some (rt', r)"
  by (cases "ID c") (auto simp: RoutingTable_RemoveContact_def split: prod.splits)

lemma RoutingTable_RemoveContact_wf [wf_intros]:
  assumes "rt_wf rt" and "RoutingTable_RemoveContact rt c = Some (rt', r)"
  shows "rt_wf rt'"
proof (cases "ID c")
  case None
  with assms show ?thesis by (simp add: RoutingTable_RemoveContact_def)
next
  case (Some k)
  let ?bi = "bucket_index (cid (me rt)) k"
  have "rt_wf (rt\<lparr>buckets := (buckets rt)[?bi := filter (\<lambda>e. cid e \<noteq> k) (buckets rt ! ?bi)]\<rparr>)"
    using rt_wfD(3,4) [OF assms(1), of ?bi]
    by (intro rt_wf_buckets_update [OF assms(1)] bucket_filter_wf) auto
  with assms Some show ?thesis by (simp add: RoutingTable_RemoveContact_eq)
qed

section \<open>No identifier is stored twice\<close>

lemma distinct_ids_of_buckets:
  assumes "tbl_wf m bs" and "distinct idxs" and "set idxs \<subseteq> {..<numBuckets}"
  shows "distinct (map cid (concat (map ((!) bs) idxs)))"
  using assms(2,3)
proof (induction idxs)
  case (Cons i js)
  have "cid ` set (bs ! i) \<inter> cid ` (\<Union>j \<in> set js. set (bs ! j)) = {}"
  proof (rule ccontr)
    assume "\<not> ?thesis"
    then obtain c c' j where *: "c \<in> set (bs ! i)" "c' \<in> set (bs ! j)" "j \<in> set js" "cid c = cid c'"
      by auto
    have "bucket_index m (cid x) = k" if "x \<in> set (bs ! k)" "k < numBuckets" for x k
      using assms(1) that by (simp add: tbl_wf_def list_all_iff)
    from this [of c i] this [of c' j] * Cons.prems show False by auto
  qed
  moreover have "distinct (map cid (bs ! i))"
    using assms(1) Cons.prems by (auto simp: tbl_wf_def bucket_wf_def)
  ultimately show ?case using Cons by auto
qed simp

lemma GetAllContacts_nth: "rt_wf rt \<Longrightarrow> GetAllContacts rt = concat (map ((!) (buckets rt)) [0..<numBuckets])"
  unfolding GetAllContacts_def by (metis map_nth rt_wfD(2))

lemma distinct_all_ids: "rt_wf rt \<Longrightarrow> distinct (map cid (GetAllContacts rt))"
  by (simp add: GetAllContacts_nth) (rule distinct_ids_of_buckets, auto simp: rt_wf_def)

section \<open>FindClosestContacts\<close>

text \<open>The bucket indices visited by the loop before its counter reaches \<open>m\<close>.\<close>

definition visit :: "nat \<Rightarrow> nat \<Rightarrow> nat list" where
  "visit bi m = bi # concat (map (\<lambda>i. (if i \<le> bi then [bi - i] else [])
     @ (if bi + i < numBuckets then [bi + i] else [])) [1..<m])"

lemma visit_Suc:
  "1 \<le> m \<Longrightarrow> visit bi (Suc m) = visit bi m @ (if m \<le> bi then [bi - m] else [])
     @ (if bi + m < numBuckets then [bi + m] else [])"
  by (simp add: visit_def)

lemma set_visit:
  assumes "bi < numBuckets" and "1 \<le> m"
  shows "set (visit bi m) = {j. j < numBuckets \<and> j < bi + m \<and> bi < j + m}"
  using assms(2)
proof (induction m rule: dec_induct)
  case base
  with assms(1) show ?case by (auto simp: visit_def)
next
  case (step m)
  have "set (visit bi (Suc m)) = set (visit bi m)
     \<union> (if m \<le> bi then {bi - m} else {}) \<union> (if bi + m < numBuckets then {bi + m} else {})"
    using step.hyps by (simp add: visit_Suc)
  also have "\<dots> = {j. j < numBuckets \<and> j < bi + Suc m \<and> bi < j + Suc m}"
    unfolding step.IH using assms(1) by (auto split: if_splits)
  finally show ?case .
qed

lemma distinct_visit:
  assumes "bi < numBuckets" and "1 \<le> m"
  shows "distinct (visit bi m)"
  using assms(2)
proof (induction m rule: dec_induct)
  case base
  show ?case by (simp add: visit_def)
next
  case (step m)
  show ?case
    unfolding visit_Suc [OF step.hyps(1)]
    using step.IH step.hyps(1)
    by (simp add: set_visit [OF assms(1) step.hyps(1)]) linarith
qed

definition visited :: "bucket list \<Rightarrow> nat \<Rightarrow> nat \<Rightarrow> Contact list" where
  "visited bs bi m = concat (map ((!) bs) (visit bi m))"

lemma visited_Suc:
  "1 \<le> m \<Longrightarrow> visited bs bi (Suc m) = visited bs bi m @ (if m \<le> bi then bs ! (bi - m) else [])
     @ (if bi + m < numBuckets then bs ! (bi + m) else [])"
  by (simp add: visited_def visit_Suc)

lemma FindClosest_loop_visits:
  assumes "tbl_wf m bs" and "bi < numBuckets" and "1 \<le> i"
  shows "\<exists>n \<ge> i. FindClosest_loop bs (Some t) cnt bi i (map (with_dist t) (visited bs bi i))
        = Some (map (with_dist t) (visited bs bi n)) \<and>
      (cnt \<le> int (length (visited bs bi n)) \<or> (bi < n \<and> numBuckets \<le> bi + n))"
  using assms(3)
proof (induction "Suc (bi + numBuckets) - i" arbitrary: i rule: less_induct)
  case less
  let ?c = "map (with_dist t) (visited bs bi i)"
  have ok: "bucket_GetContactAndCalcDistance (bs ! k) (Some t) = Some (map (with_dist t) (bs ! k))"
    if "k < numBuckets" for k
    using assms(1) that
    by (intro bucket_GetContactAndCalcDistance_eq) (simp add: tbl_wf_def bucket_wf_def)
  show ?case
  proof (cases "(i \<le> bi \<or> bi + i < numBuckets) \<and> int (length ?c) < cnt")
    case True
    have "FindClosest_loop bs (Some t) cnt bi i ?c =
        FindClosest_loop bs (Some t) cnt bi (Suc i) (map (with_dist t) (visited bs bi (Suc i)))"
      using True assms(2) less.prems
      by (subst FindClosest_loop.simps)
        (simp add: ok visited_Suc)
    moreover have "Suc (bi + numBuckets) - Suc i < Suc (bi + numBuckets) - i"
      using True assms(2) by linarith
    ultimately show ?thesis
      using less.hyps [of "Suc i"] less.prems by (metis Suc_leD le_SucI)
  next
    case False
    then show ?thesis
      by (subst FindClosest_loop.simps) (auto intro!: exI [of _ i])
  qed
qed

lemma FindClosestContacts_visits:
  fixes t :: KademliaID
  assumes "rt_wf rt" and "0 \<le> cnt"
  defines "bi \<equiv> bucket_index (cid (me rt)) t"
  obtains n where "1 \<le> n"
    and "FindClosestContacts rt (Some t) cnt =
      Some (take (nat cnt) (go_sort dist_less (map (with_dist t) (visited (buckets rt) bi n))))"
    and "cnt \<le> int (length (visited (buckets rt) bi n)) \<or> set (visit bi n) = {..<numBuckets}"
proof -
  have w: "tbl_wf (cid (me rt)) (buckets rt)" using assms(1) by (simp add: rt_wf_def)
  have bi: "bi < numBuckets" by (simp add: bi_def)
  then have "list_all (\<lambda>e. ID e \<noteq> None) (buckets rt ! bi)"
    using rt_wfD(3) [OF assms(1)] by (simp add: bucket_wf_def)
  then have own: "bucket_GetContactAndCalcDistance (buckets rt ! bi) (Some t)
      = Some (map (with_dist t) (visited (buckets rt) bi 1))"
    by (simp add: bucket_GetContactAndCalcDistance_eq visited_def visit_def)
  obtain n where n: "1 \<le> n" "FindClosest_loop (buckets rt) (Some t) cnt bi 1
      (map (with_dist t) (visited (buckets rt) bi 1)) = Some (map (with_dist t) (visited (buckets rt) bi n))"
    "cnt \<le> int (length (visited (buckets rt) bi n)) \<or> (bi < n \<and> numBuckets \<le> bi + n)"
    using FindClosest_loop_visits [OF w bi, of 1 t cnt] by auto
  have "FindClosestContacts rt (Some t) cnt =
      Some (take (nat cnt) (go_sort dist_less (map (with_dist t) (visited (buckets rt) bi n))))"
    using assms(1,2) own n(2)
    by (simp add: FindClosestContacts_def bi_def [symmetric] ContactCandidates_Append_def
        ContactCandidates_Sort_eq list_all_iff ContactCandidates_GetContacts_def
        ContactCandidates_Len_def)
  moreover have "set (visit bi n) = {..<numBuckets}" if "bi < n" "numBuckets \<le> bi + n"
    using that bi n(1) by (auto simp: set_visit)
  ultimately show thesis using that n by blast
qed

lemma distinct_visited:
  assumes "rt_wf rt" and "bi < numBuckets" and "1 \<le> n"
  shows "distinct (map cid (visited (buckets rt) bi n))"
  unfolding visited_def using assms
  by (intro distinct_ids_of_buckets distinct_visit) (auto simp: set_visit rt_wf_def)

lemma set_visited:
  assumes "rt_wf rt" and "bi < numBuckets" and "1 \<le> n"
  shows "set (visited (buckets rt) bi n) \<subseteq> set (GetAllContacts rt)"
    and "set (visit bi n) = {..<numBuckets} \<Longrightarrow>
      set (visited (buckets rt) bi n) = set (GetAllContacts rt)"
proof -
  have v: "set (visited (buckets rt) bi n) = (\<Union>j \<in> set (visit bi n). set (buckets rt ! j))"
    by (simp add: visited_def)
  have a: "set (GetAllContacts rt) = (\<Union>j \<in> {..<numBuckets}. set (buckets rt ! j))"
    using assms(1) by (simp add: GetAllContacts_nth atLeast0LessThan)
  have "set (visit bi n) \<subseteq> {..<numBuckets}"
    using set_visit [OF assms(2,3)] by blast
  then show "set (visited (buckets rt) bi n) \<subseteq> set (GetAllContacts rt)"
    unfolding v a by blast
  show "set (visited (buckets rt) bi n) = set (GetAllContacts rt)"
    if "set (visit bi n) = {..<numBuckets}"
    unfolding v a that ..
qed

lemma length_visited:
  assumes "rt_wf rt" and "bi < numBuckets" and "1 \<le> n"
  shows "length (visited (buckets rt) bi n) \<le> length (GetAllContacts rt)"
    and "set (visit bi n) = {..<numBuckets} \<Longrightarrow>
      length (visited (buckets rt) bi n) = length (GetAllContacts rt)"
proof -
  have d: "distinct (visited (buckets rt) bi n)" "distinct (GetAllContacts rt)"
    using distinct_visited [OF assms] distinct_all_ids [OF assms(1)] by (auto simp: distinct_map)
  show "length (visited (buckets rt) bi n) \<le> length (GetAllContacts rt)"
    using card_mono [OF _ set_visited(1) [OF assms]] d by (simp add: distinct_card)
  show "length (visited (buckets rt) bi n) = length (GetAllContacts rt)"
    if "set (visit bi n) = {..<numBuckets}"
    using set_visited(2) [OF assms that] d by (metis distinct_card)
qed

lemma distinct_dists:
  "distinct (map cid xs) \<Longrightarrow> distinct (map cdist (map (with_dist t) xs))"
  by (induction xs) auto

lemma sorted_dists:
  assumes "distinct (map cid xs)"
  shows "sorted_wrt (<) (map cdist (take k (go_sort dist_less (map (with_dist t) xs))))"
proof -
  let ?s = "go_sort dist_less (map (with_dist t) xs)"
  have "sorted (map cdist ?s)"
    by (rule by_dist.sorted_go_sort) (simp add: list_all_iff)
  moreover have "distinct (map cdist ?s)"
    using distinct_dists [OF assms] by (subst distinct_map_go_sort) simp
  ultimately have "sorted_wrt (<) (map cdist ?s)" by (rule sorted_distinct_strict)
  then show ?thesis by (simp add: take_map [symmetric] sorted_wrt_take)
qed

lemma in_set_take_with_dist:
  "c \<in> set (take k (go_sort dist_less (map (with_dist t) xs))) \<Longrightarrow> c \<in> with_dist t ` set xs"
  by (drule in_set_takeD) simp

section \<open>Which bucket is how far from a target\<close>

lemma xor_same_top:
  fixes x y :: nat
  assumes "2 ^ n \<le> x" "x < 2 * 2 ^ n" "2 ^ n \<le> y" "y < 2 * 2 ^ n"
  shows "x XOR y < 2 ^ n"
proof -
  have one: "drop_bit n z = 1" if "2 ^ n \<le> z" "z < 2 * 2 ^ n" for z :: nat
    using that by (simp add: drop_bit_eq_div div_nat_eqI)
  have "drop_bit n (x XOR y) = drop_bit n x XOR drop_bit n y"
    by (rule drop_bit_xor)
  also have "\<dots> = 0" using assms one by simp
  finally show ?thesis by (simp add: drop_bit_eq_div div_eq_0_iff)
qed

lemma xor_higher_top:
  fixes x y :: nat
  assumes "2 ^ n \<le> x" and "y < 2 ^ n"
  shows "2 ^ n \<le> x XOR y"
proof (rule ccontr)
  assume "\<not> ?thesis"
  then have "(x XOR y) XOR y < 2 ^ n" using assms(2) xor_less_exp [of "x XOR y" n y] by linarith
  with assms(1) show False by (simp add: xor.assoc)
qed

lemma dist_via: "id_num (KademliaID_CalcDistance x t) =
    id_num (KademliaID_CalcDistance x m) XOR id_num (KademliaID_CalcDistance t m)"
  by (simp add: id_num_CalcDistance ac_simps) (simp add: xor.assoc [symmetric])

text \<open>A contact of the target's own bucket is closer to the target than any other contact.\<close>

lemma own_bucket_closer:
  assumes "bucket_index m x = bucket_index m t" and "bucket_index m y \<noteq> bucket_index m t"
  shows "KademliaID_CalcDistance x t < KademliaID_CalcDistance y t"
proof -
  let ?b = "bucket_index m t" and ?j = "bucket_index m y"
  let ?d = "\<lambda>z. id_num (KademliaID_CalcDistance z m)"
  have lim: "?b < 256" "?j < 256" using bucket_index_less [of m] numBuckets_256 by auto
  have self: "bucket_index m m = 255" by (simp add: bucket_index_self numBuckets_256)
  have up: "?d z < 2 ^ (256 - bucket_index m z)" for z
    using bucket_index_bounds(3) [of z m] CalcDistance_zero [of m m] by (cases "z = m") auto
  show ?thesis
  proof (cases "?j < ?b")
    case True
    then have "y \<noteq> m" using self lim by auto
    then have "2 ^ (255 - ?j) \<le> ?d y" by (rule bucket_index_bounds)
    moreover have le: "(2 :: nat) ^ (256 - ?b) \<le> 2 ^ (255 - ?j)"
      using True lim by (intro power_increasing) auto
    ultimately have "2 ^ (255 - ?j) \<le> ?d y XOR ?d t"
      using up [of t] by (intro xor_higher_top) linarith+
    moreover have "?d x XOR ?d t < 2 ^ (256 - ?b)"
      using up [of t] up [of x] assms(1) by (intro xor_less_exp) auto
    ultimately show ?thesis
      unfolding less_id_num dist_via [of _ t m] using le by linarith
  next
    case False
    with assms(2) have bj: "?b < ?j" by simp
    then have "t \<noteq> m" "x \<noteq> m" using self lim assms(1) by auto
    then have lo: "2 ^ (255 - ?b) \<le> ?d t" "2 ^ (255 - ?b) \<le> ?d x"
      using bucket_index_bounds(2) [of t m] bucket_index_bounds(2) [of x m] assms(1) by auto
    have two: "(2 :: nat) ^ (256 - ?b) = 2 * 2 ^ (255 - ?b)"
      using lim(1) power_Suc [of "2 :: nat" "255 - ?b"] by (simp add: Suc_diff_le [symmetric])
    have "(2 :: nat) ^ (256 - ?j) \<le> 2 ^ (255 - ?b)"
      using bj lim by (intro power_increasing) auto
    then have "2 ^ (255 - ?b) \<le> ?d t XOR ?d y"
      using lo(1) up [of y] by (intro xor_higher_top) linarith+
    moreover have "?d x XOR ?d t < 2 ^ (255 - ?b)"
      using lo up [of t] up [of x] assms(1) two by (intro xor_same_top) auto
    ultimately show ?thesis
      by (simp add: less_id_num dist_via [of _ t m] xor.commute [of "?d t"])
  qed
qed

end
