(* ===== verification/Kad_Closest.thy ===== *)
theory Kad_Closest
  imports Kad_RoutingTable
begin

text \<open>
  What \<^verbatim>\<open>FindClosestContacts\<close> of \<^verbatim>\<open>src/kademlia/routingtable.go\<close> returns: how many contacts, in
  which order, which of the table's contacts are certain to be among them, and the case in which
  it misses a closer contact.
\<close>

section \<open>A table for the examples\<close>

definition fill_table :: "Contact \<Rightarrow> Contact list \<Rightarrow> RoutingTable option" where
  "fill_table m cs = foldl (\<lambda>r c. Option.bind r (\<lambda>rt. RoutingTable_AddContact rt c))
     (Some (NewRoutingTable m)) cs"

definition peer :: "bytes \<Rightarrow> Contact" where
  "peer bs = NewContact (Some (mk_id bs)) ''10.0.0.1:8000''"

lemma fill_table_wf: "ID m \<noteq> None \<Longrightarrow> fill_table m cs = Some rt \<Longrightarrow> rt_wf rt"
proof (induction cs arbitrary: rt rule: rev_induct)
  case Nil
  then show ?case by (auto simp: fill_table_def intro: rt_wf_New)
next
  case (snoc c cs)
  then show ?case
    by (auto simp: fill_table_def bind_eq_Some_conv intro: RoutingTable_AddContact_wf)
qed

text \<open>The local node 0, two contacts in bucket 0 and one in bucket 3.\<close>

definition demo_rt :: RoutingTable where
  "demo_rt = the (fill_table (peer []) [peer [0x80], peer [0x80, 1], peer [0x10]])"

lemma demo_rt_wf: "rt_wf demo_rt"
proof -
  have "fill_table (peer []) [peer [0x80], peer [0x80, 1], peer [0x10]] \<noteq> None"
    by code_simp
  then have "fill_table (peer []) [peer [0x80], peer [0x80, 1], peer [0x10]] = Some demo_rt"
    by (simp add: demo_rt_def)
  then show ?thesis by (rule fill_table_wf [rotated]) (simp add: peer_def NewContact_def)
qed

section \<open>The target's own bucket comes first\<close>

lemma own_bucket_in_prefix:
  assumes wf: "rt_wf rt" and c: "c \<in> set (buckets rt ! bucket_index (cid (me rt)) t)"
    and n: "1 \<le> n"
    and k: "length (buckets rt ! bucket_index (cid (me rt)) t) \<le> k"
  shows "with_dist t c \<in> set (take k (go_sort dist_less
    (map (with_dist t) (visited (buckets rt) (bucket_index (cid (me rt)) t) n))))"
    (is "_ \<in> set (take k ?s)")
proof (rule ccontr)
  let ?m = "cid (me rt)"
  let ?own = "set (buckets rt ! bucket_index ?m t)" and ?vis = "visited (buckets rt) (bucket_index ?m t) n"
  assume out: "with_dist t c \<notin> set (take k ?s)"
  have own_vis: "?own \<subseteq> set ?vis" by (auto simp: visited_def visit_def)
  have "set ?s = set (take k ?s) \<union> set (drop k ?s)"
    by (metis append_take_drop_id set_append)
  moreover have "with_dist t c \<in> set ?s" using c own_vis by auto
  ultimately have drop: "with_dist t c \<in> set (drop k ?s)" using out by blast
  have d: "distinct (map cid ?vis)" by (rule distinct_visited [OF wf bucket_index_less n])
  have dist_s: "distinct ?s"
  proof -
    have "distinct (map cdist ?s)"
      using distinct_dists [OF d] by (subst distinct_map_go_sort) simp
    then show ?thesis by (simp add: distinct_map)
  qed
  have "set (take k ?s) \<subseteq> with_dist t ` (?own - {c})"
  proof
    fix e assume e: "e \<in> set (take k ?s)"
    then obtain e0 where e0: "e = with_dist t e0" "e0 \<in> set ?vis"
      using in_set_take_with_dist by blast
    have le: "cdist e \<le> cdist (with_dist t c)"
      by (rule by_dist.take_go_sort_le [OF _ e drop]) (simp add: list_all_iff)
    have bc: "bucket_index ?m (cid c) = bucket_index ?m t"
      using rt_wfD(4) [OF wf bucket_index_less c] by simp
    have same: "bucket_index ?m (cid e0) = bucket_index ?m t"
    proof (rule ccontr)
      assume "\<not> ?thesis"
      with bc have "KademliaID_CalcDistance (cid c) t < KademliaID_CalcDistance (cid e0) t"
        by (rule own_bucket_closer)
      with le e0(1) show False by simp
    qed
    obtain j where "j < numBuckets" "e0 \<in> set (buckets rt ! j)"
      using e0(2) set_visit [OF bucket_index_less n, of ?m t] by (auto simp: visited_def)
    with same rt_wfD(4) [OF wf] have "e0 \<in> ?own" by metis
    moreover have "e0 \<noteq> c" using e out e0(1) by auto
    ultimately show "e \<in> with_dist t ` (?own - {c})" using e0(1) by blast
  qed
  then have "card (set (take k ?s)) \<le> card (with_dist t ` (?own - {c}))"
    by (intro card_mono) auto
  also have "\<dots> \<le> card (?own - {c})" by (rule card_image_le) simp
  also have "\<dots> < card ?own" using c by (intro card_Diff1_less) auto
  also have "\<dots> \<le> k" using k card_length le_trans by blast
  finally have "length (take k ?s) < k"
    using distinct_card [of "take k ?s"] dist_s by simp
  moreover have "k < length ?s" using drop by (cases "k < length ?s") auto
  ultimately show False by simp
qed

section \<open>The result\<close>

lemma result_sorted:
  assumes "rt_wf rt" and "0 \<le> cnt"
  shows "\<exists>cs. FindClosestContacts rt (Some t) cnt = Some cs \<and>
    length cs = min (nat cnt) (length (GetAllContacts rt)) \<and>
    sorted_wrt (<) (map cdist cs) \<and>
    set cs \<subseteq> with_dist t ` set (GetAllContacts rt)"
proof -
  obtain n where n: "1 \<le> n"
    "FindClosestContacts rt (Some t) cnt = Some (take (nat cnt) (go_sort dist_less
       (map (with_dist t) (visited (buckets rt) (bucket_index (cid (me rt)) t) n))))"
    "cnt \<le> int (length (visited (buckets rt) (bucket_index (cid (me rt)) t) n))
      \<or> set (visit (bucket_index (cid (me rt)) t) n) = {..<numBuckets}"
    using FindClosestContacts_visits [OF assms] by blast
  let ?v = "visited (buckets rt) (bucket_index (cid (me rt)) t) n"
  note len = length_visited [OF assms(1) bucket_index_less [of "cid (me rt)" t] n(1)]
  have "nat cnt \<le> length ?v \<or> length ?v = length (GetAllContacts rt)"
    using n(3) by (rule disj_forward) (use len(2) in simp_all)
  then have "min (length ?v) (nat cnt) = min (nat cnt) (length (GetAllContacts rt))"
    using len(1) by linarith
  then have "length (take (nat cnt) (go_sort dist_less (map (with_dist t) ?v)))
      = min (nat cnt) (length (GetAllContacts rt))" by simp
  moreover have "set (take (nat cnt) (go_sort dist_less (map (with_dist t) ?v)))
      \<subseteq> with_dist t ` set (GetAllContacts rt)"
    using set_visited(1) [OF assms(1) bucket_index_less n(1)] in_set_take_with_dist by fast
  ultimately show ?thesis
    using n(2) sorted_dists [OF distinct_visited [OF assms(1) bucket_index_less n(1)]] by simp
qed

lemma own_bucket_returned:
  assumes "rt_wf rt" and "c \<in> set (buckets rt ! bucket_index (cid (me rt)) t)"
    and "int (length (buckets rt ! bucket_index (cid (me rt)) t)) \<le> cnt"
  shows "\<exists>cs. FindClosestContacts rt (Some t) cnt = Some cs \<and> with_dist t c \<in> set cs"
proof -
  let ?bi = "bucket_index (cid (me rt)) t"
  have cnt: "0 \<le> cnt" using assms(3) by linarith
  obtain n where n: "1 \<le> n"
    "FindClosestContacts rt (Some t) cnt = Some (take (nat cnt) (go_sort dist_less
       (map (with_dist t) (visited (buckets rt) ?bi n))))"
    using FindClosestContacts_visits [OF assms(1) cnt] by metis
  let ?s = "go_sort dist_less (map (with_dist t) (visited (buckets rt) ?bi n))"
  have "with_dist t c \<in> set (take (nat cnt) ?s)"
    by (rule own_bucket_in_prefix [OF assms(1,2) n(1)]) (use assms(3) in linarith)
  with n(2) show ?thesis by blast
qed

lemma all_returned:
  assumes "rt_wf rt" and "int (length (GetAllContacts rt)) \<le> cnt"
  shows "\<exists>cs. FindClosestContacts rt (Some t) cnt = Some cs \<and>
    set cs = with_dist t ` set (GetAllContacts rt)"
proof -
  have cnt: "0 \<le> cnt" using assms(2) by linarith
  obtain n where n: "1 \<le> n"
    "FindClosestContacts rt (Some t) cnt = Some (take (nat cnt) (go_sort dist_less
       (map (with_dist t) (visited (buckets rt) (bucket_index (cid (me rt)) t) n))))"
    "cnt \<le> int (length (visited (buckets rt) (bucket_index (cid (me rt)) t) n))
      \<or> set (visit (bucket_index (cid (me rt)) t) n) = {..<numBuckets}"
    using FindClosestContacts_visits [OF assms(1) cnt] by blast
  let ?v = "visited (buckets rt) (bucket_index (cid (me rt)) t) n"
  note bi = bucket_index_less [of "cid (me rt)" t]
  have len: "length ?v \<le> nat cnt"
    using length_visited(1) [OF assms(1) bi n(1)] assms(2) by linarith
  have "length ?v = length (GetAllContacts rt)"
    using n(3) length_visited [OF assms(1) bi n(1)] assms(2) by linarith
  moreover have "distinct ?v" "distinct (GetAllContacts rt)"
    using distinct_visited [OF assms(1) bi n(1)] distinct_all_ids [OF assms(1)]
    by (simp_all add: distinct_map)
  ultimately have "set ?v = set (GetAllContacts rt)"
    using set_visited(1) [OF assms(1) bi n(1)]
    by (intro card_subset_eq) (simp_all add: distinct_card)
  with n(2) len show ?thesis by simp
qed

section \<open>Properties\<close>

text \<open>
  C34. On a well-formed table \<^verbatim>\<open>FindClosestContacts\<close> does not panic; it returns contacts of the table with their
  distance to the target filled in, in strictly increasing order of that distance, as many as were asked for or all
  when the table holds fewer.  The bucket of the target is in the result when it holds no more contacts
  than were asked for (the callers ask for \<^verbatim>\<open>bucketSize\<close>, so always).
\<close>

theorem FindClosestContacts_result:
  assumes "rt_wf rt" and "int (length (buckets rt ! bucket_index (cid (me rt)) t)) \<le> cnt"
  shows "\<exists>cs. FindClosestContacts rt (Some t) cnt = Some cs \<and>
    length cs = min (nat cnt) (length (GetAllContacts rt)) \<and>
    sorted_wrt (<) (map cdist cs) \<and>
    set cs \<subseteq> with_dist t ` set (GetAllContacts rt) \<and>
    with_dist t ` set (buckets rt ! bucket_index (cid (me rt)) t) \<subseteq> set cs \<and>
    (int (length (GetAllContacts rt)) \<le> cnt \<longrightarrow> set cs = with_dist t ` set (GetAllContacts rt))"
proof -
  have "0 \<le> cnt" using assms(2) by linarith
  then obtain cs where cs: "FindClosestContacts rt (Some t) cnt = Some cs"
    "length cs = min (nat cnt) (length (GetAllContacts rt))" "sorted_wrt (<) (map cdist cs)"
    "set cs \<subseteq> with_dist t ` set (GetAllContacts rt)"
    using result_sorted [OF assms(1), of cnt t] by blast
  have "with_dist t c \<in> set cs" if "c \<in> set (buckets rt ! bucket_index (cid (me rt)) t)" for c
    using own_bucket_returned [OF assms(1) that assms(2)] cs(1) by simp
  moreover have "set cs = with_dist t ` set (GetAllContacts rt)" if "int (length (GetAllContacts rt)) \<le> cnt"
    using all_returned [OF assms(1) that, of t] cs(1) by simp
  ultimately show ?thesis using cs by blast
qed

theorem FindClosestContacts_result_witness:
  "\<exists>cs. FindClosestContacts demo_rt (Some (mk_id [0xC0])) 10 = Some cs \<and>
     with_dist (mk_id [0xC0]) (peer [0x80]) \<in> set cs \<and> set cs = with_dist (mk_id [0xC0]) ` set (GetAllContacts demo_rt)"
proof -
  have "peer [0x80] \<in> set (buckets demo_rt ! bucket_index (cid (me demo_rt)) (mk_id [0xC0]))"
    and "int (length (buckets demo_rt ! bucket_index (cid (me demo_rt)) (mk_id [0xC0]))) \<le> 10"
    and "int (length (GetAllContacts demo_rt)) \<le> 10"
    by code_simp+
  then show ?thesis using FindClosestContacts_result [OF demo_rt_wf] by blast
qed

text \<open>
  C35. The function does not always return the closest contacts: the search widens by one bucket on
  each side and stops as soon as it has enough, so contacts of the next lower bucket (farther from
  the target) can displace contacts of a higher bucket two or more steps away (closer to it).  Here,
  asked for two contacts, it returns the two of bucket 0 and leaves out the one of bucket 3, which is
  closer to the target than both.
\<close>

theorem FindClosestContacts_misses_closer:
  "\<exists>cs. FindClosestContacts demo_rt (Some (mk_id [0x40])) 2 = Some cs \<and>
     (\<exists>c \<in> set (GetAllContacts demo_rt). with_dist (mk_id [0x40]) c \<notin> set cs \<and>
        list_all (\<lambda>r. cdist (with_dist (mk_id [0x40]) c) < cdist r) cs)"
proof -
  have "map_option (map ID) (FindClosestContacts demo_rt (Some (mk_id [0x40])) 2)
      = Some [Some (mk_id [0x80]), Some (mk_id [0x80, 1])]"
    by code_simp
  then obtain cs where cs: "FindClosestContacts demo_rt (Some (mk_id [0x40])) 2 = Some cs"
    by auto
  have "list_all (\<lambda>r. cdist (with_dist (mk_id [0x40]) (peer [0x10])) < cdist r)
      (the (FindClosestContacts demo_rt (Some (mk_id [0x40])) 2))"
    and "peer [0x10] \<in> set (GetAllContacts demo_rt)"
    by code_simp+
  with cs show ?thesis by (auto simp: list_all_iff intro!: bexI [of _ "peer [0x10]"])
qed

end
