(* ===== verification/Kad_Message.thy ===== *)
theory Kad_Message
  imports Kad_DataStore Kad_Closest
begin

text \<open>
  The messages of \<^verbatim>\<open>src/kademlia/network.go\<close>, the errors of its calls, and the node's configuration in
  \<^verbatim>\<open>src/kademlia/kademlia.go\<close>.  A UUID is only compared with others, and two draws of one are taken never
  to agree; it is a number here.  A nil byte slice is \<open>None\<close> where the code tells it from an empty one.
\<close>

datatype RPCType = Ping | Pong | FindContact | FindContactReply | FindData | FindDataReply | Store | StoreReply

type_synonym uuid = nat

record RPCMessage =
  TransactionID :: uuid
  Type :: RPCType
  Sender :: Contact
  Receiver :: Contact
  TargetID :: "KademliaID option"
  Contacts :: "Contact list"
  Data :: "bytes option"

datatype net_error =
    ErrNetworkNil | ErrNilContact | ErrNilTarget | ErrHubNil | ErrPacketLoss | ErrUnreachable
  | ErrTimeout | ErrClosed | ErrAddress | ErrWrite | ErrRejected ds_error

text \<open>The zero \<^verbatim>\<open>Contact\<close>, and a message with the fields that are set by every use.\<close>

definition no_contact :: Contact where
  "no_contact = \<lparr>ID = None, Address = [], distance = None\<rparr>"

definition new_message :: "RPCType \<Rightarrow> uuid \<Rightarrow> Contact \<Rightarrow> RPCMessage" where
  "new_message ty tx sender = \<lparr>TransactionID = tx, Type = ty, Sender = sender, Receiver = no_contact,
     TargetID = None, Contacts = [], Data = None\<rparr>"

text \<open>
  The filter a node applies to the contacts it hands out: not the requester, not itself.  \<^verbatim>\<open>None\<close>
  of an identifier never matches.
\<close>

definition same_id :: "KademliaID option \<Rightarrow> Contact \<Rightarrow> bool" where
  "same_id i c \<longleftrightarrow> i \<noteq> None \<and> ID c \<noteq> None \<and> Equals_ptr (ID c) i = Some True"

lemma same_id_iff [simp]: "same_id i c \<longleftrightarrow> i \<noteq> None \<and> ID c = i"
  by (cases i; cases "ID c") (auto simp: same_id_def Equals_ptr_def)

definition filter_contacts :: "KademliaID option \<Rightarrow> KademliaID option \<Rightarrow> Contact list \<Rightarrow> Contact list" where
  "filter_contacts requester self cs = filter (\<lambda>c. \<not> same_id requester c \<and> \<not> same_id self c) cs"

lemma filter_contacts_iff [simp]:
  "c \<in> set (filter_contacts requester self cs) \<longleftrightarrow>
     c \<in> set cs \<and> (requester = None \<or> ID c \<noteq> requester) \<and> (self = None \<or> ID c \<noteq> self)"
  by (auto simp: filter_contacts_def)

lemma length_filter_contacts: "length (filter_contacts requester self cs) \<le> length cs"
  by (simp add: filter_contacts_def)

lemma sorted_filter_contacts:
  "sorted_wrt (<) (map cdist cs) \<Longrightarrow> sorted_wrt (<) (map cdist (filter_contacts requester self cs))"
  by (simp add: filter_contacts_def sorted_wrt_map sorted_wrt_filter)

section \<open>The node\<close>

record Kademlia =
  Me :: Contact
  kad_alpha :: int
  kad_RoutingTable :: "nat option"
  kad_Network :: "nat option"
  kad_DataStore :: "nat option"

definition defaultAlpha :: int where
  "defaultAlpha = 3"

text \<open>\<^verbatim>\<open>NewKademlia\<close>; the fetcher it installs in the data store is a parameter of the world below.\<close>

definition NewKademlia :: "Contact \<Rightarrow> nat option \<Rightarrow> nat option \<Rightarrow> nat option \<Rightarrow> int \<Rightarrow> Kademlia" where
  "NewKademlia self network routingTable ds alpha =
     (let a = (if alpha > 0 then alpha else defaultAlpha) in
      \<lparr>Me = self, kad_alpha = a, kad_RoutingTable = routingTable, kad_Network = network, kad_DataStore = ds\<rparr>)"

lemma NewKademlia_simps [simp]:
  "0 < kad_alpha (NewKademlia self net rt ds a)" "Me (NewKademlia self net rt ds a) = self"
  "kad_RoutingTable (NewKademlia self net rt ds a) = rt" "kad_Network (NewKademlia self net rt ds a) = net"
  "kad_DataStore (NewKademlia self net rt ds a) = ds"
  by (simp_all add: NewKademlia_def Let_def defaultAlpha_def)

end
