(* ===== verification/Kad_Lookup.thy ===== *)
theory Kad_Lookup
  imports Kad_Message Kad_Shortlist
begin

text \<open>
  \<^verbatim>\<open>src/kademlia/kademlia.go\<close>: the node.  It works on a world \<open>'w\<close> (its routing table, its data store and
  the other nodes) through the operations of \<open>node_ops\<close>: the \<^verbatim>\<open>Network\<close> interface, the routing table
  and the methods of the \<^verbatim>\<open>DataStore\<close>.  Each operation may change the world; \<open>None\<close> is a panic or a
  call that does not return.  The probes of a round run concurrently in the code; here they are made
  in the order in which their answers arrive (\<open>op_arrival\<close>) and then handled in that order.  The
  iterative lookups are partial functions; that they return is a theorem.
\<close>

section \<open>The operations of a node\<close>

record 'w node_ops =
  op_Me :: Contact
  op_alpha :: int
  op_has_rt :: bool
  op_rt :: "'w \<Rightarrow> RoutingTable"
  op_set_rt :: "RoutingTable \<Rightarrow> 'w \<Rightarrow> 'w"
  op_has_net :: bool
  op_arrival :: "'w \<Rightarrow> Contact list \<Rightarrow> Contact list"
  op_SendPing :: "Contact option \<Rightarrow> 'w \<Rightarrow> ((net_error + RPCMessage) \<times> 'w) option"
  op_FindContact :: "KademliaID \<Rightarrow> Contact \<Rightarrow> 'w \<Rightarrow> ((net_error + Contact list) \<times> 'w) option"
  op_FindData :: "KademliaID \<Rightarrow> Contact \<Rightarrow> 'w \<Rightarrow> ((net_error + bytes \<times> Contact list) \<times> 'w) option"
  op_SendStore :: "Contact \<Rightarrow> KademliaID \<Rightarrow> bytes \<Rightarrow> 'w \<Rightarrow> ((net_error + unit) \<times> 'w) option"
  op_has_ds :: bool
  op_ds_Get :: "'w \<Rightarrow> KademliaID \<Rightarrow> bytes option"
  op_ds_Validate :: "KademliaID \<Rightarrow> bytes \<Rightarrow> 'w \<Rightarrow> (ds_error + unit) \<times> 'w"
  op_ds_Store :: "KademliaID \<Rightarrow> bytes \<Rightarrow> 'w \<Rightarrow> ((ds_error + unit) \<times> 'w) option"
  op_ds_StoreUnchecked :: "KademliaID \<Rightarrow> bytes \<Rightarrow> 'w \<Rightarrow> 'w"
  op_ds_GetAllKeys :: "'w \<Rightarrow> KademliaID list"

section \<open>Node lookup\<close>

definition rt_AddContact :: "'w node_ops \<Rightarrow> Contact \<Rightarrow> 'w \<Rightarrow> 'w option" where
  "rt_AddContact N c w =
     (if op_has_rt N then map_option (\<lambda>rt. op_set_rt N rt w) (RoutingTable_AddContact (op_rt N w) c)
      else Some w)"

text \<open>The answers of the probes, in the order of their arrival.\<close>

fun send_probes ::
  "(Contact \<Rightarrow> 'w \<Rightarrow> ((net_error + 'a) \<times> 'w) option) \<Rightarrow> Contact list \<Rightarrow> 'w \<Rightarrow>
   ((Contact \<times> (net_error + 'a)) list \<times> 'w) option" where
  "send_probes send [] w = Some ([], w)"
| "send_probes send (c # cs) w = do {
     (r, w1) \<leftarrow> send c w;
     (rs, w2) \<leftarrow> send_probes send cs w1;
     Some ((c, r) # rs, w2)
   }"

text \<open>\<^verbatim>\<open>found.ID == nil || (kademlia.Me.ID != nil && found.ID.Equals(kademlia.Me.ID))\<close>\<close>

definition skip_found :: "Contact \<Rightarrow> Contact \<Rightarrow> bool" where
  "skip_found self found \<longleftrightarrow> ID found = None \<or> (ID self \<noteq> None \<and> Equals_ptr (ID found) (ID self) = Some True)"

fun add_found :: "Contact \<Rightarrow> Shortlist \<Rightarrow> Contact list \<Rightarrow> Shortlist option" where
  "add_found self s [] = Some s"
| "add_found self s (f # fs) =
     (if skip_found self f then add_found self s fs
      else Option.bind (Shortlist_Add s [f]) (\<lambda>s1. add_found self s1 fs))"

fun handle_results ::
  "'w node_ops \<Rightarrow> (Contact \<times> (net_error + Contact list)) list \<Rightarrow> Shortlist \<Rightarrow> 'w \<Rightarrow>
   (Shortlist \<times> 'w) option" where
  "handle_results N [] s w = Some (s, w)"
| "handle_results N ((c, Inl e) # rs) s w = handle_results N rs (MarkUnresponsive s (ID c)) w"
| "handle_results N ((c, Inr found) # rs) s w = do {
     let s1 = MarkQueried s (ID c);
     w1 \<leftarrow> rt_AddContact N c w;
     s2 \<leftarrow> add_found (op_Me N) s1 found;
     handle_results N rs s2 w1
   }"

partial_function (option) lookup_loop ::
  "'w node_ops \<Rightarrow> KademliaID \<Rightarrow> Shortlist \<Rightarrow> 'w \<Rightarrow> (Shortlist \<times> 'w) option" where
  "lookup_loop N target s w =
     Option.bind (HasUnqueriedInTopK s (int bucketSize)) (\<lambda>more.
       if \<not> more then Some (s, w)
       else Option.bind (GetClosestUnqueried s (op_alpha N) (int bucketSize)) (\<lambda>probes.
         if probes = [] then Some (s, w)
         else Option.bind (send_probes (op_FindContact N target) (op_arrival N w probes) w) (\<lambda>(results, w1).
           Option.bind (handle_results N results s w1) (\<lambda>(s1, w2). lookup_loop N target s1 w2))))"

definition LookupContactByID ::
  "'w node_ops \<Rightarrow> KademliaID option \<Rightarrow> 'w \<Rightarrow> (Contact list \<times> 'w) option" where
  "LookupContactByID N target w =
     (case target of
        None \<Rightarrow> Some ([], w)
      | Some t \<Rightarrow>
          if \<not> op_has_rt N then Some ([], w)
          else do {
            initialContacts \<leftarrow> FindClosestContacts (op_rt N w) (Some t) (int bucketSize);
            s \<leftarrow> Shortlist_Add (NewShortlist (Some t) (ID (op_Me N))) initialContacts;
            if \<not> op_has_net N \<or> Shortlist_Len s = 0
            then map_option (\<lambda>cs. (cs, w)) (FindClosestContacts (op_rt N w) (Some t) (int bucketSize))
            else do {
              (s1, w1) \<leftarrow> lookup_loop N t s w;
              closest \<leftarrow> GetClosestQueried s1 (int bucketSize);
              Some (closest, w1)
            }
          })"

definition LookupContact ::
  "'w node_ops \<Rightarrow> Contact option \<Rightarrow> 'w \<Rightarrow> (Contact list \<times> 'w) option" where
  "LookupContact N target w =
     (case target of None \<Rightarrow> Some ([], w) | Some c \<Rightarrow> LookupContactByID N (ID c) w)"

section \<open>Value lookup\<close>

datatype lookup_error = ErrValueNotFound | ErrLookupNil

text \<open>The check of a value that came from another node, and what is done with it.\<close>

definition accept_value ::
  "'e crypto_env_scheme \<Rightarrow> 'w node_ops \<Rightarrow> KademliaID \<Rightarrow> bytes \<Rightarrow> 'w \<Rightarrow> (bool \<times> 'w) option" where
  "accept_value E N target data w =
     (if \<not> KademliaID_Equals (NewKademliaIDFromData (sha256 E) data) target then
        (if \<not> op_has_ds N then Some (False, w)
         else (case op_ds_Validate N target data w of
           (Inl e, w1) \<Rightarrow> Some (False, w1)
         | (Inr _, w1) \<Rightarrow> Some (True, w1)))
      else if op_has_ds N then map_option (\<lambda>(r, w1). (True, w1)) (op_ds_Store N target data w)
      else Some (True, w))"

text \<open>The results of a round: a value, or the shortlist to go on with.\<close>

fun handle_data_results ::
  "'e crypto_env_scheme \<Rightarrow> 'w node_ops \<Rightarrow> KademliaID \<Rightarrow> (Contact \<times> (net_error + bytes \<times> Contact list)) list \<Rightarrow>
   Shortlist \<Rightarrow> 'w \<Rightarrow> ((bytes \<times> Contact) option \<times> Shortlist \<times> 'w) option" where
  "handle_data_results E N target [] s w = Some (None, s, w)"
| "handle_data_results E N target ((c, Inl e) # rs) s w =
     handle_data_results E N target rs (MarkUnresponsive s (ID c)) w"
| "handle_data_results E N target ((c, Inr (data, found)) # rs) s w = do {
     let s1 = MarkQueried s (ID c);
     w1 \<leftarrow> rt_AddContact N c w;
     if length data > 0 then do {
       (accepted, w2) \<leftarrow> accept_value E N target data w1;
       if accepted then Some (Some (data, c), s1, w2)
       else handle_data_results E N target rs s1 w2
     } else do {
       s2 \<leftarrow> add_found (op_Me N) s1 found;
       handle_data_results E N target rs s2 w1
     }
   }"

partial_function (option) data_loop ::
  "'e crypto_env_scheme \<Rightarrow> 'w node_ops \<Rightarrow> KademliaID \<Rightarrow> Shortlist \<Rightarrow> 'w \<Rightarrow>
   ((bytes \<times> Contact) option \<times> 'w) option" where
  "data_loop E N target s w =
     Option.bind (HasUnqueriedInTopK s (int bucketSize)) (\<lambda>more.
       if \<not> more then Some (None, w)
       else Option.bind (GetClosestUnqueried s (op_alpha N) (int bucketSize)) (\<lambda>probes.
         if probes = [] then Some (None, w)
         else Option.bind (send_probes (op_FindData N target) (op_arrival N w probes) w) (\<lambda>(results, w1).
           Option.bind (handle_data_results E N target results s w1) (\<lambda>(found, s1, w2).
             case found of
               Some dc \<Rightarrow> Some (Some dc, w2)
             | None \<Rightarrow> data_loop E N target s1 w2))))"

definition LookupDataByID ::
  "'e crypto_env_scheme \<Rightarrow> 'w node_ops \<Rightarrow> KademliaID option \<Rightarrow> 'w \<Rightarrow>
   ((lookup_error + bytes \<times> Contact) \<times> 'w) option" where
  "LookupDataByID E N target w =
     (case target of
        None \<Rightarrow> Some (Inl ErrLookupNil, w)
      | Some t \<Rightarrow>
          (case (if op_has_ds N then op_ds_Get N w t else None) of
             Some val \<Rightarrow> Some (Inr (val, op_Me N), w)
           | None \<Rightarrow>
               if \<not> op_has_rt N \<or> \<not> op_has_net N then Some (Inl ErrValueNotFound, w)
               else do {
                 initialContacts \<leftarrow> FindClosestContacts (op_rt N w) (Some t) (int bucketSize);
                 s \<leftarrow> Shortlist_Add (NewShortlist (Some t) (ID (op_Me N))) initialContacts;
                 if Shortlist_Len s = 0 then Some (Inl ErrValueNotFound, w)
                 else map_option (\<lambda>(r, w1).
                   ((case r of None \<Rightarrow> Inl ErrValueNotFound | Some dc \<Rightarrow> Inr dc), w1))
                   (data_loop E N t s w)
               }))"

definition LookupData ::
  "'e crypto_env_scheme \<Rightarrow> 'w node_ops \<Rightarrow> string \<Rightarrow> 'w \<Rightarrow> ((lookup_error + bytes \<times> Contact) \<times> 'w) option" where
  "LookupData E N hash w = LookupDataByID E N (Some (NewKademliaID hash)) w"

section \<open>How a shortlist grows\<close>

text \<open>Entries stay, with their contact, and a candidate once probed is never unqueried again.\<close>

definition sl_le :: "Shortlist \<Rightarrow> Shortlist \<Rightarrow> bool" where
  "sl_le s s' \<longleftrightarrow>
     sl_meID s' = sl_meID s \<and>
     (\<forall>i c. entry s i = Some c \<longrightarrow> (\<exists>c'. entry s' i = Some c' \<and> cand_Contact c' = cand_Contact c \<and>
        (cand_Status c \<noteq> StatusUnqueried \<longrightarrow> cand_Status c' \<noteq> StatusUnqueried)))"

definition probed :: "Shortlist \<Rightarrow> KademliaID set" where
  "probed s = {i. \<exists>c. entry s i = Some c \<and> cand_Status c \<noteq> StatusUnqueried}"

lemma sl_le_refl [simp]: "sl_le s s"
  by (simp add: sl_le_def)

lemma sl_le_trans: "sl_le s s' \<Longrightarrow> sl_le s' s'' \<Longrightarrow> sl_le s s''"
  unfolding sl_le_def by metis

lemma sl_le_probed: "sl_le s s' \<Longrightarrow> probed s \<subseteq> probed s'"
  unfolding sl_le_def probed_def by blast

lemma sl_le_entry: "sl_le s s' \<Longrightarrow> entry s i \<noteq> None \<Longrightarrow> entry s' i \<noteq> None"
  unfolding sl_le_def by blast

lemma sl_le_Add:
  assumes "sl_wf t s" and "Shortlist_Add s cs = Some s'"
  shows "sl_le s s'"
proof -
  have "sl_meID s' = sl_meID s" using Shortlist_Add_wf [OF assms(1), of cs] assms(2) by auto
  moreover have "entry s' i = Some c" if "entry s i = Some c" for i c
    using Shortlist_Add_entry [OF assms, of i] that by simp
  ultimately show ?thesis unfolding sl_le_def by blast
qed

lemma sl_le_set_status:
  assumes "st \<noteq> StatusUnqueried"
  shows "sl_le s (set_status st s i)"
proof (cases i)
  case None
  then show ?thesis by (simp add: set_status_def)
next
  case (Some j)
  then show ?thesis
    using assms unfolding sl_le_def by (auto simp: set_status_entry)
qed

lemma probed_set_status:
  assumes "st \<noteq> StatusUnqueried" and "entry s i \<noteq> None"
  shows "i \<in> probed (set_status st s (Some i))"
  using assms by (auto simp: probed_def set_status_entry)

lemma add_found_ok:
  "sl_wf t s \<Longrightarrow> \<exists>s'. add_found self s fs = Some s' \<and> sl_wf t s' \<and> sl_le s s'"
proof (induction fs arbitrary: s)
  case (Cons f fs)
  obtain s1 where s1: "Shortlist_Add s [f] = Some s1" "sl_wf t s1"
    using Shortlist_Add_wf [OF Cons.prems] by blast
  note le = sl_le_Add [OF Cons.prems s1(1)]
  from Cons.IH [OF Cons.prems] Cons.IH [OF s1(2)] s1(1) le show ?case
    by (auto simp del: Shortlist_Add.simps intro: sl_le_trans)
qed simp

lemma send_probes_ok:
  assumes "\<And>c w. c \<in> set cs \<Longrightarrow> V w \<Longrightarrow> \<exists>r w'. send c w = Some (r, w') \<and> V w'" and "V w"
  shows "\<exists>rs w'. send_probes send cs w = Some (rs, w') \<and> V w' \<and> map fst rs = cs"
  using assms
proof (induction cs arbitrary: w)
  case (Cons c cs)
  obtain r w1 where 1: "send c w = Some (r, w1)" "V w1" using Cons.prems by (meson list.set_intros(1))
  obtain rs w2 where "send_probes send cs w1 = Some (rs, w2) \<and> V w2 \<and> map fst rs = cs"
    using Cons.IH [OF _ 1(2)] Cons.prems(1) by (meson list.set_intros(2))
  with 1 show ?case by simp
qed simp

text \<open>
  What makes a value from another node acceptable under a key: it is the content the key is the
  digest of, or the data store of the node accepts it.
\<close>

definition authentic ::
  "'e crypto_env_scheme \<Rightarrow> 'w node_ops \<Rightarrow> ('w \<Rightarrow> bool) \<Rightarrow> KademliaID \<Rightarrow> bytes \<Rightarrow> bool" where
  "authentic E N valid t d \<longleftrightarrow> d \<noteq> [] \<and>
     (sha256 E d = t \<or> (op_has_ds N \<and> (\<exists>w w'. valid w \<and> op_ds_Validate N t d w = (Inr (), w'))))"

text \<open>What the answers of a round do to the shortlist: all contacts that were asked are probed.\<close>

definition round_done :: "KademliaID \<Rightarrow> Shortlist \<Rightarrow> Contact set \<Rightarrow> Shortlist \<Rightarrow> bool" where
  "round_done t s asked s' \<longleftrightarrow> sl_wf t s' \<and> sl_le s s' \<and>
     (\<forall>c \<in> asked. \<forall>i. ID c = Some i \<longrightarrow> entry s i \<noteq> None \<longrightarrow> i \<in> probed s')"

lemma round_done_Nil [simp]: "sl_wf t s \<Longrightarrow> round_done t s {} s"
  by (simp add: round_done_def)

lemma round_done_step:
  assumes "st \<noteq> StatusUnqueried" and "sl_le (set_status st s (ID c)) s2" and "round_done t s2 asked s'"
  shows "round_done t s (insert c asked) s'"
proof -
  let ?s1 = "set_status st s (ID c)"
  have le: "sl_le s s2" "sl_le ?s1 s'" "sl_le s s'"
    using assms sl_le_set_status [OF assms(1), of s "ID c"] sl_le_trans unfolding round_done_def by blast+
  have "i \<in> probed s'" if "ID c = Some i" "entry s i \<noteq> None" for i
    using that probed_set_status [OF assms(1) that(2)] sl_le_probed [OF le(2)] by auto
  moreover have "i \<in> probed s'" if "c' \<in> asked" "ID c' = Some i" "entry s i \<noteq> None" for c' i
    using that assms(3) sl_le_entry [OF le(1) that(3)] by (auto simp: round_done_def)
  ultimately show ?thesis using assms(3) le(3) by (auto simp: round_done_def)
qed

text \<open>How a lookup ends: nothing left to ask among the ten closest.\<close>

definition lookup_done :: "KademliaID \<Rightarrow> Shortlist \<Rightarrow> Shortlist \<Rightarrow> bool" where
  "lookup_done t s s' \<longleftrightarrow> sl_wf t s' \<and> sl_le s s' \<and> HasUnqueriedInTopK s' (int bucketSize) = Some False"

text \<open>The ten closest candidates that are not unresponsive are then the ten closest that answered.\<close>

lemma take_filter_all: "(\<forall>x \<in> set (take n xs). P x) \<Longrightarrow> take n (filter P xs) = take n xs"
  by (induction xs arbitrary: n) (auto simp: take_Cons' split: if_splits)

lemma queried_of_active:
  assumes "sl_wf t s"
  shows "queried_list s = filter (\<lambda>c. cand_Status c = StatusQueried) (active_list s)"
proof -
  have "sorted_wrt (\<lambda>a b. cand_dist a < cand_dist b) (active_list s)"
    using active_list_strict [OF assms] by (simp add: sorted_wrt_map)
  then have "sorted_wrt (<) (map cand_dist (filter (\<lambda>c. cand_Status c = StatusQueried) (active_list s)))"
    by (simp add: sorted_wrt_map sorted_wrt_filter)
  moreover have "set (filter (\<lambda>c. cand_Status c = StatusQueried) (active_list s)) = set (queried_list s)"
    by (auto simp: set_active_list set_queried_list)
  ultimately show ?thesis
    using queried_list_strict [OF assms] 
    by (intro map_sorted_distinct_set_unique [where f = cand_dist])
      (auto simp: strict_sorted_iff distinct_map)
qed

lemma lookup_done_closest:
  assumes "lookup_done t s s'"
  shows "GetClosestQueried s' (int bucketSize) = Some (map cand_Contact (take bucketSize (active_list s')))"
    and "\<forall>c \<in> set (take bucketSize (active_list s')). cand_Status c = StatusQueried"
proof -
  have wf: "sl_wf t s'" using assms by (simp add: lookup_done_def)
  have "cand_Status c \<noteq> StatusUnqueried" if "c \<in> set (take bucketSize (active_list s'))" for c
    using that assms HasUnqueriedInTopK_eq [OF wf, of "int bucketSize"] by (auto simp: lookup_done_def)
  moreover have "cand_Status c \<noteq> StatusUnresponsive" if "c \<in> set (take bucketSize (active_list s'))" for c
    using in_set_takeD [OF that] by (simp add: set_active_list)
  ultimately show q: "\<forall>c \<in> set (take bucketSize (active_list s')). cand_Status c = StatusQueried"
    by (metis CandidateStatus.exhaust)
  show "GetClosestQueried s' (int bucketSize) = Some (map cand_Contact (take bucketSize (active_list s')))"
    using take_filter_all [OF q] GetClosestQueried_eq [OF wf, of "int bucketSize"] queried_of_active [OF wf] by simp
qed

lemma rt_ids: "rt_wf rt \<Longrightarrow> c \<in> set (GetAllContacts rt) \<Longrightarrow> ID c \<noteq> None"
  using rt_wfD(3) by (force simp: GetAllContacts_nth bucket_wf_def list_all_iff)

lemma FindClosest_ids:
  assumes "rt_wf rt" and "0 \<le> n" and "FindClosestContacts rt (Some t) n = Some cs"
  shows "length cs \<le> nat n \<and> list_all (\<lambda>c. ID c \<noteq> None) cs \<and> sorted_wrt (<) (map cdist cs)"
proof -
  obtain k where k: "1 \<le> k" "FindClosestContacts rt (Some t) n = Some (take (nat n) (go_sort dist_less
     (map (with_dist t) (visited (buckets rt) (bucket_index (cid (me rt)) t) k))))"
    by (rule FindClosestContacts_visits [OF assms(1,2)])
  have "ID c \<noteq> None" if "c \<in> set (visited (buckets rt) (bucket_index (cid (me rt)) t) k)" for c
    using that set_visited(1) [OF assms(1) bucket_index_less k(1)] rt_ids [OF assms(1)] by blast
  with k(2) assms(3) sorted_dists [OF distinct_visited [OF assms(1) bucket_index_less k(1)]]
  show ?thesis by (auto simp: list_all_iff dest!: in_set_takeD)
qed

section \<open>What the node relies on\<close>

text \<open>
  The contract between the node and its surroundings.  \<open>valid\<close> is the invariant of the world: the
  routing table is well-formed, and the calls of the node return and keep it.  \<open>okkey\<close> are the keys whose
  content may be cached without breaking it.  Nothing is assumed about what other nodes answer.
\<close>

locale kad_net =
  fixes E :: "'e crypto_env_scheme"
    and N :: "'w node_ops"
    and valid :: "'w \<Rightarrow> bool"
    and okkey :: "KademliaID \<Rightarrow> bool"
  assumes alpha_pos: "0 < op_alpha N"
    and rt_ok: "valid w \<Longrightarrow> op_has_rt N \<Longrightarrow> rt_wf (op_rt N w)"
    and set_rt_ok: "valid w \<Longrightarrow> op_has_rt N \<Longrightarrow> RoutingTable_AddContact (op_rt N w) c = Some rt \<Longrightarrow>
      valid (op_set_rt N rt w)"
    and arrival_perm: "mset (op_arrival N w ps) = mset ps"
    and FindContact_ok: "valid w \<Longrightarrow> ID c \<noteq> None \<Longrightarrow> \<exists>r w'. op_FindContact N t c w = Some (r, w') \<and> valid w'"
    and FindData_ok: "valid w \<Longrightarrow> ID c \<noteq> None \<Longrightarrow> \<exists>r w'. op_FindData N t c w = Some (r, w') \<and> valid w'"
    and ds_Validate_ok: "valid w \<Longrightarrow> op_has_ds N \<Longrightarrow> valid (snd (op_ds_Validate N key data w))"
    and ds_Store_content: "valid w \<Longrightarrow> op_has_ds N \<Longrightarrow> okkey key \<Longrightarrow> sha256 E data = key \<Longrightarrow>
      \<exists>r w'. op_ds_Store N key data w = Some (r, w') \<and> valid w'"
begin

lemma rt_AddContact_ok:
  assumes "valid w"
  shows "\<exists>w'. rt_AddContact N c w = Some w' \<and> valid w'"
proof (cases "op_has_rt N")
  case True
  note wf = rt_ok [OF assms True]
  obtain rt where "RoutingTable_AddContact (op_rt N w) c = Some rt"
    using RoutingTable_AddContact_no_panic [OF wf] by blast
  then show ?thesis
    using set_rt_ok [OF assms True] True by (simp add: rt_AddContact_def)
qed (use assms in \<open>simp add: rt_AddContact_def\<close>)

text \<open>Handling the answers of a round.\<close>

lemma handle_results_ok:
  assumes "sl_wf t s" and "valid w"
  shows "\<exists>s' w'. handle_results N rs s w = Some (s', w') \<and> valid w' \<and> round_done t s (fst ` set rs) s'"
  using assms
proof (induction rs arbitrary: s w)
  case (Cons x rs)
  show ?case
  proof (cases x)
    case (Pair c r)
    show ?thesis
    proof (cases r)
      case (Inl e)
      have "sl_wf t (MarkUnresponsive s (ID c))" using Cons.prems(1) by (simp add: MarkUnresponsive_def set_status_wf)
      from Cons.IH [OF this Cons.prems(2)] obtain s' w' where
        "handle_results N rs (MarkUnresponsive s (ID c)) w = Some (s', w')" "valid w'"
        "round_done t (MarkUnresponsive s (ID c)) (fst ` set rs) s'" by blast
      with round_done_step [of StatusUnresponsive s c "MarkUnresponsive s (ID c)" t "fst ` set rs" s'] Pair Inl show ?thesis
        by (simp add: MarkUnresponsive_def)
    next
      case (Inr found)
      have "sl_wf t (MarkQueried s (ID c))" using Cons.prems(1) by (simp add: MarkQueried_def set_status_wf)
      from add_found_ok [OF this] obtain s2 where s2: "add_found (op_Me N) (MarkQueried s (ID c)) found = Some s2"
        "sl_wf t s2" "sl_le (MarkQueried s (ID c)) s2" by blast
      obtain w1 where w1: "rt_AddContact N c w = Some w1" "valid w1" using rt_AddContact_ok [OF Cons.prems(2)] by blast
      from Cons.IH [OF s2(2) w1(2)] obtain s' w' where
        "handle_results N rs s2 w1 = Some (s', w')" "valid w'" "round_done t s2 (fst ` set rs) s'" by blast
      with round_done_step [of StatusQueried s c s2 t "fst ` set rs" s'] Pair Inr s2 w1 show ?thesis
        by (simp add: MarkQueried_def)
    qed
  qed
qed simp

text \<open>The probes of a round are unqueried candidates; when there is one in the ten closest, there is a probe.\<close>

lemma probes_unqueried:
  assumes "sl_wf t s" and "GetClosestUnqueried s n k = Some ps" and "c \<in> set ps"
  shows "ID c = Some (cid c) \<and> entry s (cid c) \<noteq> None \<and> cid c \<notin> probed s"
proof -
  obtain e where e: "e \<in> set (active_list s)" "cand_Status e = StatusUnqueried" "c = cand_Contact e"
    using assms GetClosestUnqueried_eq [OF assms(1), of n k] by (auto dest!: in_set_takeD)
  then have "e \<in> snd ` set (candidates s)" by (simp add: set_active_list)
  then have "ID c \<noteq> None" "entry s (cid c) = Some e" using sl_wf_entry_of [OF assms(1)] e(3) by simp_all
  with e(2) show ?thesis by (auto simp: probed_def)
qed

lemma probes_nonempty:
  assumes "sl_wf t s" and "HasUnqueriedInTopK s k = Some True"
  shows "\<exists>p ps. GetClosestUnqueried s (op_alpha N) k = Some (p # ps)"
proof -
  have "filter (\<lambda>c. cand_Status c = StatusUnqueried) (take (nat k) (active_list s)) \<noteq> []"
    using assms HasUnqueriedInTopK_eq [OF assms(1), of k] by (auto simp: filter_empty_conv)
  then have "take (nat (op_alpha N)) (map cand_Contact
      (filter (\<lambda>c. cand_Status c = StatusUnqueried) (take (nat k) (active_list s)))) \<noteq> []"
    using alpha_pos by simp
  then show ?thesis using GetClosestUnqueried_eq [OF assms(1), of "op_alpha N" k]
    by (metis neq_Nil_conv)
qed

lemma probes_arrive: "set (op_arrival N w ps) = set ps"
  by (metis arrival_perm set_mset_mset)

text \<open>The rounds are well-founded: each one probes a candidate that was not probed before.\<close>

lemma probed_grows:
  assumes "round_done t s (set (p # ps)) s'" and "sl_wf t s" and "GetClosestUnqueried s n k = Some (p # ps)"
  shows "card (- probed s') < card (- probed s)"
proof (intro psubset_card_mono)
  have c: "ID p = Some (cid p) \<and> entry s (cid p) \<noteq> None \<and> cid p \<notin> probed s"
    by (rule probes_unqueried [OF assms(2,3)]) simp
  then have "cid p \<in> probed s'" using assms(1) unfolding round_done_def by (meson list.set_intros(1))
  moreover have "probed s \<subseteq> probed s'" using assms(1) by (intro sl_le_probed) (simp add: round_done_def)
  ultimately show "- probed s' \<subset> - probed s" using c by blast
qed simp

lemma round_sends:
  assumes "sl_wf t s" and "valid w" and "HasUnqueriedInTopK s (int bucketSize) = Some True"
    and "\<And>c v. valid v \<Longrightarrow> ID c \<noteq> None \<Longrightarrow> \<exists>r w'. send c v = Some (r, w') \<and> valid w'"
  obtains p ps rs w1 where "GetClosestUnqueried s (op_alpha N) (int bucketSize) = Some (p # ps)"
    and "send_probes send (op_arrival N w (p # ps)) w = Some (rs, w1)" and "valid w1"
    and "fst ` set rs = set (p # ps)"
proof -
  obtain p ps where ps: "GetClosestUnqueried s (op_alpha N) (int bucketSize) = Some (p # ps)"
    using probes_nonempty [OF assms(1,3)] by blast
  have send: "\<exists>r w'. send c v = Some (r, w') \<and> valid w'"
    if "c \<in> set (op_arrival N w (p # ps))" "valid v" for c v
    using that probes_unqueried [OF assms(1) ps] assms(4) probes_arrive by (metis option.distinct(1))
  from send_probes_ok [where V = valid and cs = "op_arrival N w (p # ps)" and send = send, OF send assms(2)]
  obtain rs w1 where rs: "send_probes send (op_arrival N w (p # ps)) w = Some (rs, w1)"
    "valid w1" "map fst rs = op_arrival N w (p # ps)" by blast
  then have "fst ` set rs = set (p # ps)" by (metis list.set_map probes_arrive)
  with ps rs that show ?thesis by blast
qed

lemma lookup_round_ok:
  assumes "sl_wf t s" and "valid w" and "HasUnqueriedInTopK s (int bucketSize) = Some True"
  shows "\<exists>s1 w1. lookup_loop N t s w = lookup_loop N t s1 w1 \<and> sl_wf t s1 \<and> valid w1 \<and> sl_le s s1 \<and>
    card (- probed s1) < card (- probed s)"
proof -
  obtain p ps rs w1 where ps: "GetClosestUnqueried s (op_alpha N) (int bucketSize) = Some (p # ps)"
    and rs: "send_probes (op_FindContact N t) (op_arrival N w (p # ps)) w = Some (rs, w1)" "valid w1"
    "fst ` set rs = set (p # ps)" by (rule round_sends [OF assms FindContact_ok])
  obtain s2 w2 where h: "handle_results N rs s w1 = Some (s2, w2)" "valid w2" "round_done t s (set (p # ps)) s2"
    using handle_results_ok [OF assms(1) rs(2), of rs, unfolded rs(3)] by blast
  have "lookup_loop N t s w = lookup_loop N t s2 w2"
    using assms(3) ps rs(1) h(1) by (subst lookup_loop.simps) simp
  with h(2,3) probed_grows [OF h(3) assms(1) ps] show ?thesis unfolding round_done_def by blast
qed

lemma lookup_loop_ok:
  assumes "sl_wf t s" and "valid w"
  shows "\<exists>s' w'. lookup_loop N t s w = Some (s', w') \<and> valid w' \<and> lookup_done t s s'"
  using assms
proof (induction "card (- probed s)" arbitrary: s w rule: less_induct)
  case less
  show ?case
  proof (cases "HasUnqueriedInTopK s (int bucketSize) = Some True")
    case True
    obtain s1 w1 where r: "lookup_loop N t s w = lookup_loop N t s1 w1" "sl_wf t s1" "valid w1" "sl_le s s1"
      "card (- probed s1) < card (- probed s)" using lookup_round_ok [OF less.prems True] by blast
    show ?thesis using less.hyps [OF r(5,2,3)] r(1) sl_le_trans [OF r(4)]
      by (auto simp: lookup_done_def)
  next
    case False
    then have F: "HasUnqueriedInTopK s (int bucketSize) = Some False"
      using HasUnqueriedInTopK_eq [OF less.prems(1)] by simp
    then have "lookup_loop N t s w = Some (s, w)" by (subst lookup_loop.simps) simp
    then show ?thesis using less.prems F by (simp add: lookup_done_def)
  qed
qed

lemma start_ok:
  assumes "valid w" and "op_has_rt N"
  obtains cs s where "FindClosestContacts (op_rt N w) (Some t) (int bucketSize) = Some cs"
    and "Shortlist_Add (NewShortlist (Some t) (ID (op_Me N))) cs = Some s" and "sl_wf t s"
    and "sl_meID s = ID (op_Me N)"
proof -
  obtain cs where cs: "FindClosestContacts (op_rt N w) (Some t) (int bucketSize) = Some cs"
    by (rule FindClosestContacts_visits [OF rt_ok [OF assms] of_nat_0_le_iff])
  have "sl_wf t (NewShortlist (Some t) (ID (op_Me N)))" by (rule sl_wf_New)
  from Shortlist_Add_wf [OF this, of cs] cs that show ?thesis by (auto simp: NewShortlist_def)
qed

text \<open>A node lookup returns the ten closest of the candidates it heard of and that did not fail.\<close>

lemma LookupContactByID_ok:
  assumes "valid w" and "op_has_rt N" and "op_has_net N"
    and "FindClosestContacts (op_rt N w) (Some t) (int bucketSize) = Some cs"
    and "Shortlist_Add (NewShortlist (Some t) (ID (op_Me N))) cs = Some s" and "Shortlist_Len s \<noteq> 0"
  shows "\<exists>s' w'. lookup_loop N t s w = Some (s', w') \<and> valid w' \<and> lookup_done t s s' \<and>
    LookupContactByID N (Some t) w = Some (map cand_Contact (take bucketSize (active_list s')), w')"
proof -
  have "sl_wf t (NewShortlist (Some t) (ID (op_Me N)))" by (rule sl_wf_New)
  from Shortlist_Add_wf [OF this, of cs] assms(5) have "sl_wf t s" by auto
  from lookup_loop_ok [OF this assms(1)] obtain s' w' where
    l: "lookup_loop N t s w = Some (s', w')" "valid w'" "lookup_done t s s'" by blast
  moreover have "LookupContactByID N (Some t) w = Some (map cand_Contact (take bucketSize (active_list s')), w')"
    using assms l(1) lookup_done_closest(1) [OF l(3)] by (simp add: LookupContactByID_def)
  ultimately show ?thesis by blast
qed

lemma LookupContactByID_total:
  assumes "valid w"
  shows "\<exists>cs w'. LookupContactByID N target w = Some (cs, w') \<and> valid w' \<and> length cs \<le> bucketSize \<and>
    list_all (\<lambda>c. ID c \<noteq> None) cs \<and> sorted_wrt (<) (map cdist cs)"
proof (cases "target = None \<or> \<not> op_has_rt N")
  case True
  then show ?thesis using assms by (auto simp: LookupContactByID_def split: option.splits)
next
  case False
  then obtain t where t: "target = Some t" and rt: "op_has_rt N" by auto
  obtain cs s where st: "FindClosestContacts (op_rt N w) (Some t) (int bucketSize) = Some cs"
    "Shortlist_Add (NewShortlist (Some t) (ID (op_Me N))) cs = Some s" "sl_wf t s"
    by (rule start_ok [OF assms rt])
  show ?thesis
  proof (cases "op_has_net N \<and> Shortlist_Len s \<noteq> 0")
    case True
    then obtain s' w' where l: "valid w'" "lookup_done t s s'"
      "LookupContactByID N (Some t) w = Some (map cand_Contact (take bucketSize (active_list s')), w')"
      using LookupContactByID_ok [OF assms rt _ st(1,2)] by blast
    then have "sl_wf t s'" by (simp add: lookup_done_def)
    then have "ID (cand_Contact c) \<noteq> None" if "c \<in> set (active_list s')" for c
      using that sl_wf_entry_of by (simp add: set_active_list)
    then have "list_all (\<lambda>c. ID c \<noteq> None) (map cand_Contact (take bucketSize (active_list s')))"
      by (auto simp: list_all_iff dest!: in_set_takeD)
    moreover have "sorted_wrt (<) (map cdist (map cand_Contact (take bucketSize (active_list s'))))"
      using sorted_wrt_take [OF active_list_strict [OF \<open>sl_wf t s'\<close>], of bucketSize] by (simp add: take_map comp_def)
    ultimately show ?thesis using l t by auto
  next
    case False
    have "length cs \<le> bucketSize \<and> list_all (\<lambda>c. ID c \<noteq> None) cs \<and> sorted_wrt (<) (map cdist cs)"
      using FindClosest_ids [OF rt_ok [OF assms rt] _ st(1)] by simp
    with False t rt st(1,2) assms show ?thesis by (auto simp: LookupContactByID_def)
  qed
qed

text \<open>Value lookup.\<close>

lemma accept_value_ok:
  assumes "valid w" and "d \<noteq> []" and "okkey t"
  shows "\<exists>a w'. accept_value E N t d w = Some (a, w') \<and> valid w' \<and> (a \<longrightarrow> authentic E N valid t d)"
proof (cases "sha256 E d = t")
  case True
  then show ?thesis
    using assms ds_Store_content [OF assms(1) _ assms(3) True]
    by (cases "op_has_ds N") (auto simp: accept_value_def NewKademliaIDFromData_def authentic_def)
next
  case False
  show ?thesis
  proof (cases "op_has_ds N")
    case ds: True
    obtain r w1 where v: "op_ds_Validate N t d w = (r, w1)" by (cases "op_ds_Validate N t d w")
    then have "valid w1" using ds_Validate_ok [OF assms(1) ds, of t d] by simp
    with v ds False assms show ?thesis
      by (cases r) (auto simp: accept_value_def NewKademliaIDFromData_def authentic_def)
  next
    case False
    with \<open>sha256 E d \<noteq> t\<close> have "accept_value E N t d w = Some (False, w)"
      by (simp add: accept_value_def NewKademliaIDFromData_def)
    with assms(1) show ?thesis by blast
  qed
qed

text \<open>The answer to one probe of a value lookup: the value is taken, or the round goes on.\<close>

lemma handle_data_result:
  assumes "sl_wf t s" and "valid w" and "okkey t"
  shows "(\<exists>d s1 w1. handle_data_results E N t ((c, r) # rs) s w = Some (Some (d, c), s1, w1) \<and>
      valid w1 \<and> authentic E N valid t d)
    \<or> (\<exists>st s2 w1. handle_data_results E N t ((c, r) # rs) s w = handle_data_results E N t rs s2 w1 \<and>
      st \<noteq> StatusUnqueried \<and> sl_wf t s2 \<and> valid w1 \<and> sl_le (set_status st s (ID c)) s2)"
proof (cases r)
  case (Inl e)
  then have "handle_data_results E N t ((c, r) # rs) s w = handle_data_results E N t rs (set_status StatusUnresponsive s (ID c)) w"
    by (simp add: MarkUnresponsive_def)
  then show ?thesis using assms(1,2) set_status_wf sl_le_refl by (metis CandidateStatus.distinct(3))
next
  case (Inr p)
  obtain d fs where r: "r = Inr (d, fs)" using Inr by (cases p) simp
  define s1 where "s1 = set_status StatusQueried s (ID c)"
  have s1: "sl_wf t s1" "MarkQueried s (ID c) = s1" using assms(1) by (simp_all add: s1_def set_status_wf MarkQueried_def)
  obtain w1 where w1: "rt_AddContact N c w = Some w1" "valid w1" using rt_AddContact_ok [OF assms(2)] by blast
  have going: "\<exists>st s2 w1. handle_data_results E N t ((c, r) # rs) s w = handle_data_results E N t rs s2 w1 \<and>
      st \<noteq> StatusUnqueried \<and> sl_wf t s2 \<and> valid w1 \<and> sl_le (set_status st s (ID c)) s2"
    if "handle_data_results E N t ((c, r) # rs) s w = handle_data_results E N t rs s2 w2"
      "sl_wf t s2" "valid w2" "sl_le s1 s2" for s2 w2
    using that by (intro exI [of _ StatusQueried] exI [of _ s2] exI [of _ w2]) (simp add: s1_def)
  show ?thesis
  proof (cases "d = []")
    case True
    obtain s2 where s2: "add_found (op_Me N) s1 fs = Some s2" "sl_wf t s2" "sl_le s1 s2"
      using add_found_ok [OF s1(1)] by blast
    with w1 s1 r True have "handle_data_results E N t ((c, r) # rs) s w = handle_data_results E N t rs s2 w1" by simp
    from going [OF this s2(2) w1(2) s2(3)] show ?thesis by (rule disjI2)
  next
    case False
    obtain a w2 where a: "accept_value E N t d w1 = Some (a, w2)" "valid w2" "a \<longrightarrow> authentic E N valid t d"
      using accept_value_ok [OF w1(2) False assms(3)] by blast
    show ?thesis
    proof (cases a)
      case True
      with a w1 s1 r False show ?thesis by (intro disjI1 exI [of _ d] exI [of _ s1] exI [of _ w2]) simp
    next
      case F: False
      with a w1 s1 r False have "handle_data_results E N t ((c, r) # rs) s w = handle_data_results E N t rs s1 w2" by simp
      from going [OF this s1(1) a(2) sl_le_refl] show ?thesis by (rule disjI2)
    qed
  qed
qed

definition data_round :: "KademliaID \<Rightarrow> Shortlist \<Rightarrow> Contact set \<Rightarrow> (bytes \<times> Contact) option \<Rightarrow> Shortlist \<Rightarrow> bool" where
  "data_round t s asked f s' \<longleftrightarrow>
     (case f of Some (d, c) \<Rightarrow> authentic E N valid t d \<and> c \<in> asked | None \<Rightarrow> round_done t s asked s')"

lemma handle_data_results_ok:
  assumes "sl_wf t s" and "valid w" and "okkey t"
  shows "\<exists>f s' w'. handle_data_results E N t rs s w = Some (f, s', w') \<and> valid w' \<and> data_round t s (fst ` set rs) f s'"
  using assms
proof (induction rs arbitrary: s w)
  case (Cons x rs)
  obtain c r where x: "x = (c, r)" by (cases x)
  from handle_data_result [OF Cons.prems, of c r rs, folded x] show ?case
  proof (elim disjE exE conjE)
    fix d s1 w1 assume "handle_data_results E N t (x # rs) s w = Some (Some (d, c), s1, w1)" "valid w1"
      "authentic E N valid t d"
    then show ?thesis by (simp add: data_round_def x)
  next
    fix st s2 w1 assume h: "handle_data_results E N t (x # rs) s w = handle_data_results E N t rs s2 w1"
      "st \<noteq> StatusUnqueried" "sl_wf t s2" "valid w1" "sl_le (set_status st s (ID c)) s2"
    from Cons.IH [OF h(3,4) Cons.prems(3)] obtain f s' w' where r: "handle_data_results E N t rs s2 w1 = Some (f, s', w')"
      "valid w'" "data_round t s2 (fst ` set rs) f s'" by blast
    with round_done_step [OF h(2,5)] have "data_round t s (fst ` set (x # rs)) f s'"
      by (auto simp: data_round_def x split: option.splits)
    with h(1) r show ?thesis by simp
  qed
qed (simp add: data_round_def)

lemma data_loop_ok:
  assumes "sl_wf t s" and "valid w" and "okkey t"
  shows "\<exists>f w'. data_loop E N t s w = Some (f, w') \<and> valid w' \<and>
    (case f of None \<Rightarrow> True | Some (d, c) \<Rightarrow> authentic E N valid t d \<and> ID c \<noteq> None)"
  using assms
proof (induction "card (- probed s)" arbitrary: s w rule: less_induct)
  case less
  show ?case
  proof (cases "HasUnqueriedInTopK s (int bucketSize) = Some True")
    case True
    obtain p ps rs w1 where ps: "GetClosestUnqueried s (op_alpha N) (int bucketSize) = Some (p # ps)"
      and rs: "send_probes (op_FindData N t) (op_arrival N w (p # ps)) w = Some (rs, w1)" "valid w1"
      "fst ` set rs = set (p # ps)" by (rule round_sends [OF less.prems(1,2) True FindData_ok])
    obtain f s2 w2 where h: "handle_data_results E N t rs s w1 = Some (f, s2, w2)" "valid w2"
      "data_round t s (set (p # ps)) f s2"
      using handle_data_results_ok [OF less.prems(1) rs(2) less.prems(3), of rs, unfolded rs(3)] by blast
    have l: "data_loop E N t s w = (case f of Some dc \<Rightarrow> Some (Some dc, w2) | None \<Rightarrow> data_loop E N t s2 w2)"
      using True ps rs(1) h(1) by (subst data_loop.simps) simp
    show ?thesis
    proof (cases f)
      case None
      then have "round_done t s (set (p # ps)) s2" using h(3) by (simp add: data_round_def)
      from less.hyps [OF probed_grows [OF this less.prems(1) ps] _ h(2) less.prems(3)] this l None show ?thesis
        by (simp add: round_done_def)
    next
      case (Some dc)
      then have "authentic E N valid t (fst dc)" "snd dc \<in> set (p # ps)"
        using h(3) by (auto simp: data_round_def split: prod.splits)
      with probes_unqueried [OF less.prems(1) ps] l h(2) Some show ?thesis by (cases dc) fastforce
    qed
  next
    case False
    then have "HasUnqueriedInTopK s (int bucketSize) = Some False"
      using HasUnqueriedInTopK_eq [OF less.prems(1)] by simp
    then have "data_loop E N t s w = Some (None, w)" by (subst data_loop.simps) simp
    then show ?thesis using less.prems by simp
  qed
qed

lemma LookupDataByID_ok:
  assumes "valid w" and "okkey t \<or> (op_has_ds N \<and> op_ds_Get N w t \<noteq> None)"
  shows "\<exists>r w'. LookupDataByID E N (Some t) w = Some (r, w') \<and> valid w' \<and>
    (case r of
       Inl e \<Rightarrow> e = ErrValueNotFound \<and> \<not> (op_has_ds N \<and> op_ds_Get N w t \<noteq> None)
     | Inr (d, c) \<Rightarrow> (op_has_ds N \<and> op_ds_Get N w t = Some d \<and> c = op_Me N) \<or> (authentic E N valid t d \<and> ID c \<noteq> None))"
proof (cases "op_has_ds N \<and> op_ds_Get N w t \<noteq> None")
  case True
  then show ?thesis using assms by (auto simp: LookupDataByID_def)
next
  case False
  then have local: "(if op_has_ds N then op_ds_Get N w t else None) = None" by auto
  show ?thesis
  proof (cases "op_has_rt N \<and> op_has_net N")
    case True
    obtain cs s where st: "FindClosestContacts (op_rt N w) (Some t) (int bucketSize) = Some cs"
      "Shortlist_Add (NewShortlist (Some t) (ID (op_Me N))) cs = Some s" "sl_wf t s"
      using True by (blast intro: start_ok [OF assms(1)])
    obtain f w' where l: "data_loop E N t s w = Some (f, w')" "valid w'"
      "case f of None \<Rightarrow> True | Some (d, c) \<Rightarrow> authentic E N valid t d \<and> ID c \<noteq> None"
      using data_loop_ok [OF st(3) assms(1)] assms(2) False by blast
    show ?thesis
      using False local True st(1,2) l assms(1)
      by (cases "Shortlist_Len s = 0"; cases f) (auto simp: LookupDataByID_def)
  next
    case net: False
    then have "LookupDataByID E N (Some t) w = Some (Inl ErrValueNotFound, w)"
      using local by (auto simp: LookupDataByID_def)
    with assms False show ?thesis by simp
  qed
qed

end

end
