(* ===== verification/Kad_Node.thy ===== *)
theory Kad_Node
  imports Kad_Lookup
begin

text \<open>
  The operations of \<^verbatim>\<open>src/kademlia/kademlia.go\<close> that are built on the lookups: joining, publishing,
  fetching and replicating.  The STORE messages of a publication go out concurrently in the code; here
  they are sent in the order of the contacts, and their results are dropped as the code drops them.
  Random draws are arguments.
\<close>

section \<open>Random identifiers for a bucket\<close>

definition random_low_bits :: "(nat \<Rightarrow> nat) \<Rightarrow> nat \<Rightarrow> byte \<Rightarrow> byte" where
  "random_low_bits coin bitOffset x =
     foldl (\<lambda>x b. if coin b = 1 then x OR push_bit b 1 else x AND NOT (push_bit b 1)) x [0..<bitOffset]"

definition random_rest :: "(nat \<Rightarrow> byte) \<Rightarrow> nat \<Rightarrow> bytes \<Rightarrow> bytes" where
  "random_rest draw byteIdx target = foldl (\<lambda>bs b. bs[b := draw b]) target [byteIdx + 1..<IDLength]"

text \<open>\<open>coin b\<close> is the \<^verbatim>\<open>rand.Intn(2)\<close> drawn for bit \<open>b\<close>, \<open>draw b\<close> the \<^verbatim>\<open>rand.Intn(256)\<close> for byte \<open>b\<close>.\<close>

definition generateRandomIDForBucket ::
  "KademliaID option \<Rightarrow> (nat \<Rightarrow> nat) \<Rightarrow> (nat \<Rightarrow> byte) \<Rightarrow> int \<Rightarrow> KademliaID" where
  "generateRandomIDForBucket self coin draw index =
     (case self of
        None \<Rightarrow> NewRandomKademliaID draw
      | Some m \<Rightarrow>
          if index < 0 \<or> index \<ge> int (IDLength * 8) then NewRandomKademliaID draw
          else
            (let target = id_bytes m;
                 byteIdx = nat (index div 8);
                 bitOffset = nat (7 - index mod 8);
                 flipped = target ! byteIdx XOR push_bit bitOffset 1;
                 low = random_low_bits coin bitOffset flipped in
             mk_id (random_rest draw byteIdx (target[byteIdx := low]))))"

section \<open>Joining\<close>

datatype node_error =
    ErrBootstrapNil | ErrBootstrapSelf | ErrRoutingTableNil | ErrKeyNil | ErrEmptyData | ErrPointerNil
  | ErrPointerInvalid reg_error | ErrPointerUnsigned | ErrPointerMarshal reg_error
  | ErrStore ds_error | ErrLookup lookup_error | ErrPointerParse reg_error

definition Kademlia_SendPing ::
  "'w node_ops \<Rightarrow> Contact option \<Rightarrow> 'w \<Rightarrow> ((net_error + RPCMessage) \<times> 'w) option" where
  "Kademlia_SendPing N targetContact w =
     (if \<not> op_has_net N then Some (Inl ErrNetworkNil, w) else op_SendPing N targetContact w)"

text \<open>The refresh of the empty buckets below the closest neighbour's; \<open>rnd i\<close> are the draws for bucket \<open>i\<close>.\<close>

fun refresh_loop ::
  "'w node_ops \<Rightarrow> (int \<Rightarrow> (nat \<Rightarrow> nat) \<times> (nat \<Rightarrow> byte)) \<Rightarrow> int list \<Rightarrow> 'w \<Rightarrow> 'w option" where
  "refresh_loop N rnd [] w = Some w"
| "refresh_loop N rnd (i # is) w =
     (if IsBucketEmpty (op_rt N w) i then
        Option.bind (LookupContactByID N
            (Some (generateRandomIDForBucket (ID (op_Me N)) (fst (rnd i)) (snd (rnd i)) i)) w)
          (\<lambda>(_, w1). refresh_loop N rnd is w1)
      else refresh_loop N rnd is w)"

definition Join ::
  "'w node_ops \<Rightarrow> (int \<Rightarrow> (nat \<Rightarrow> nat) \<times> (nat \<Rightarrow> byte)) \<Rightarrow> Contact \<Rightarrow> 'w \<Rightarrow> ((node_error + unit) \<times> 'w) option" where
  "Join N rnd bootstrap w =
     (if ID bootstrap = None then Some (Inl ErrBootstrapNil, w)
      else if ID (op_Me N) \<noteq> None \<and> Equals_ptr (ID bootstrap) (ID (op_Me N)) = Some True
      then Some (Inl ErrBootstrapSelf, w)
      else if \<not> op_has_rt N then Some (Inl ErrRoutingTableNil, w)
      else Option.bind (rt_AddContact N bootstrap w) (\<lambda>w1.
        if ID (op_Me N) = None then Some (Inr (), w1)
        else Option.bind (LookupContactByID N (ID (op_Me N)) w1) (\<lambda>(_, w2).
          let closestBucket = GetClosestNonEmptyBucketIndex (op_rt N w2) in
          Option.bind (refresh_loop N rnd [0..closestBucket - 1] w2) (\<lambda>w3. Some (Inr (), w3)))))"

section \<open>Publishing\<close>

text \<open>The STORE messages to the contacts, the node itself left out.\<close>

fun send_stores :: "'w node_ops \<Rightarrow> KademliaID \<Rightarrow> bytes \<Rightarrow> Contact list \<Rightarrow> 'w \<Rightarrow> 'w option" where
  "send_stores N key data [] w = Some w"
| "send_stores N key data (c # cs) w =
     (if same_id (ID (op_Me N)) c then send_stores N key data cs w
      else Option.bind (op_SendStore N c key data w) (\<lambda>(_, w1). send_stores N key data cs w1))"

definition publish :: "'w node_ops \<Rightarrow> KademliaID \<Rightarrow> bytes \<Rightarrow> 'w \<Rightarrow> 'w option" where
  "publish N key data w =
     Option.bind (LookupContact N (Some (NewContact (Some key) [])) w)
       (\<lambda>(closest, w1). send_stores N key data closest w1)"

definition StoreWithKey ::
  "'w node_ops \<Rightarrow> KademliaID option \<Rightarrow> bytes \<Rightarrow> 'w \<Rightarrow> ((node_error + unit) \<times> 'w) option" where
  "StoreWithKey N key data w =
     (case key of
        None \<Rightarrow> Some (Inl ErrKeyNil, w)
      | Some k \<Rightarrow>
          if length data = 0 then Some (Inl ErrEmptyData, w)
          else Option.bind (if op_has_ds N then op_ds_Store N k data w else Some (Inr (), w)) (\<lambda>(r, w1).
            case r of
              Inl e \<Rightarrow> Some (Inl (ErrStore e), w1)
            | Inr _ \<Rightarrow>
                if \<not> op_has_net N \<or> \<not> op_has_rt N then Some (Inr (), w1)
                else map_option (\<lambda>w2. (Inr (), w2)) (publish N k data w1)))"

definition Kademlia_Store ::
  "'e crypto_env_scheme \<Rightarrow> 'w node_ops \<Rightarrow> bytes \<Rightarrow> 'w \<Rightarrow> ((node_error + KademliaID) \<times> 'w) option" where
  "Kademlia_Store E N data w =
     (if length data = 0 then Some (Inl ErrEmptyData, w)
      else
        (let key = NewKademliaIDFromData (sha256 E) data in
         map_option (\<lambda>(r, w1). (map_sum id (\<lambda>_. key) r, w1)) (StoreWithKey N (Some key) data w)))"

definition StoreLatestPointer ::
  "'e reg_env_scheme \<Rightarrow> 'w node_ops \<Rightarrow> LatestPointer option \<Rightarrow> 'w \<Rightarrow> ((node_error + unit) \<times> 'w) option" where
  "StoreLatestPointer E N lp w =
     (case lp of
        None \<Rightarrow> Some (Inl ErrPointerNil, w)
      | Some p \<Rightarrow>
          (case LatestPointer_Validate E lp of
             Inl e \<Rightarrow> Some (Inl (ErrPointerInvalid e), w)
           | Inr _ \<Rightarrow>
               if lp_Signature p = [] then Some (Inl ErrPointerUnsigned, w)
               else (case LatestPointer_MarshalJSON E lp of
                 Inl e \<Rightarrow> Some (Inl (ErrPointerMarshal e), w)
               | Inr data \<Rightarrow> StoreWithKey N (Some (DHTKeyBytes E lp)) data w)))"

definition StoreWithKeyForce ::
  "'w node_ops \<Rightarrow> KademliaID option \<Rightarrow> bytes \<Rightarrow> 'w \<Rightarrow> ((node_error + unit) \<times> 'w) option" where
  "StoreWithKeyForce N key data w =
     (case key of
        None \<Rightarrow> Some (Inl ErrKeyNil, w)
      | Some k \<Rightarrow>
          if length data = 0 then Some (Inl ErrEmptyData, w)
          else
            (let w1 = (if op_has_ds N then op_ds_StoreUnchecked N k data w else w) in
             if \<not> op_has_net N \<or> \<not> op_has_rt N then Some (Inr (), w1)
             else map_option (\<lambda>w2. (Inr (), w2)) (publish N k data w1)))"

definition StoreLatestPointerForce ::
  "'e reg_env_scheme \<Rightarrow> 'w node_ops \<Rightarrow> LatestPointer option \<Rightarrow> 'w \<Rightarrow> ((node_error + unit) \<times> 'w) option" where
  "StoreLatestPointerForce E N lp w =
     (case lp of
        None \<Rightarrow> Some (Inl ErrPointerNil, w)
      | Some p \<Rightarrow>
          (case LatestPointer_MarshalJSON E lp of
             Inl e \<Rightarrow> Some (Inl (ErrPointerMarshal e), w)
           | Inr data \<Rightarrow> StoreWithKeyForce N (Some (DHTKeyBytes E lp)) data w))"

section \<open>Fetching\<close>

text \<open>
  The record getter the node hands to the registry.  A lookup that does not return (\<open>None\<close>) would
  hang the walk; the theorems on \<open>LookupData\<close> exclude it.
\<close>

definition kad_getter :: "'e crypto_env_scheme \<Rightarrow> 'w node_ops \<Rightarrow> 'w RecordGetter" where
  "kad_getter E N w hash =
     (case LookupData E N hash w of
        None \<Rightarrow> (Inl (ErrText ''panic''), w)
      | Some (Inl _, w1) \<Rightarrow> (Inl (ErrText ''value not found in DHT''), w1)
      | Some (Inr (val, _), w1) \<Rightarrow> (Inr val, w1))"

definition Kademlia_WalkVersionChain ::
  "'e reg_env_scheme \<Rightarrow> 'w node_ops \<Rightarrow> string \<Rightarrow> 'w \<Rightarrow> (VersionRecord list \<times> unit result) \<times> 'w" where
  "Kademlia_WalkVersionChain E N headHash w = WalkVersionChain E headHash (Some (kad_getter E N)) w"

definition LookupLatestPointer ::
  "'e reg_env_scheme \<Rightarrow> 'w node_ops \<Rightarrow> string \<Rightarrow> string \<Rightarrow> 'w \<Rightarrow>
   ((node_error + LatestPointer \<times> Contact) \<times> 'w) option" where
  "LookupLatestPointer E N domain pkg w =
     (let target = LatestPointerDHTKeyBytes E domain pkg in
      Option.bind (LookupDataByID E N (Some target) w) (\<lambda>(r, w1).
        case r of
          Inl e \<Rightarrow> Some (Inl (ErrLookup e), w1)
        | Inr (data, contact) \<Rightarrow>
            (case ParseLatestPointer E data of
               Inl e \<Rightarrow> Some (Inl (ErrPointerParse e), w1)
             | Inr lp \<Rightarrow> Some (Inr (lp, contact), w1))))"

section \<open>Replication\<close>

fun replicate_keys :: "'w node_ops \<Rightarrow> KademliaID list \<Rightarrow> 'w \<Rightarrow> 'w option" where
  "replicate_keys N [] w = Some w"
| "replicate_keys N (k # ks) w =
     (case op_ds_Get N w k of
        None \<Rightarrow> replicate_keys N ks w
      | Some val \<Rightarrow> Option.bind (publish N k val w) (replicate_keys N ks))"

definition Replicate :: "'w node_ops \<Rightarrow> 'w \<Rightarrow> 'w option" where
  "Replicate N w =
     (if \<not> op_has_ds N \<or> \<not> op_has_net N \<or> \<not> op_has_rt N then Some w
      else replicate_keys N (op_ds_GetAllKeys N w) w)"

section \<open>The replication worker\<close>

text \<open>
  The fields of the node that the worker uses.  A channel is a number; \<open>workers\<close> are the running
  goroutines, each with the channel it selects on, and \<open>closed\<close> the channels that were closed.
  \<^verbatim>\<open>replicateWg.Wait\<close> returns when every goroutine has left its loop, which it does when its channel is
  closed; a goroutine whose channel stays open keeps the wait from returning (\<open>None\<close>).
\<close>

record Worker =
  replicationInterval :: int
  stopReplication :: "nat option"
  workers :: "nat list"
  closed :: "nat list"
  next_chan :: nat

definition DefaultReplicationInterval :: int where
  "DefaultReplicationInterval = 60 * 60 * 1000000000"

definition replicateWg_Wait :: "Worker \<Rightarrow> Worker option" where
  "replicateWg_Wait k =
     (if list_all (\<lambda>ch. ch \<in> set (closed k)) (workers k) then Some (k\<lparr>workers := []\<rparr>) else None)"

definition StopReplicationWorker :: "Worker \<Rightarrow> Worker option" where
  "StopReplicationWorker k =
     (case stopReplication k of
        None \<Rightarrow> Some k
      | Some ch \<Rightarrow>
          if ch \<in> set (closed k) then None
          else map_option (\<lambda>k1. k1\<lparr>stopReplication := None\<rparr>)
            (replicateWg_Wait (k\<lparr>closed := ch # closed k\<rparr>)))"

definition StartReplicationWorker :: "int \<Rightarrow> Worker \<Rightarrow> Worker option" where
  "StartReplicationWorker interval k =
     Option.bind (StopReplicationWorker k) (\<lambda>k1.
       let interval = (if interval \<le> 0 then DefaultReplicationInterval else interval);
           stopCh = next_chan k1 in
       Some (k1\<lparr>replicationInterval := interval, stopReplication := Some stopCh,
         workers := stopCh # workers k1, next_chan := Suc stopCh\<rparr>))"

text \<open>What a node does over time: start and stop the worker; a running worker's ticker fires.\<close>

datatype worker_event = Start int | Stop | Tick

text \<open>The number of replication passes that run at one tick is the number of goroutines.\<close>

fun worker_run :: "worker_event list \<Rightarrow> Worker \<Rightarrow> nat list \<Rightarrow> (Worker \<times> nat list) option" where
  "worker_run [] k ticks = Some (k, ticks)"
| "worker_run (Start i # es) k ticks = Option.bind (StartReplicationWorker i k) (\<lambda>k1. worker_run es k1 ticks)"
| "worker_run (Stop # es) k ticks = Option.bind (StopReplicationWorker k) (\<lambda>k1. worker_run es k1 ticks)"
| "worker_run (Tick # es) k ticks = worker_run es k (ticks @ [length (workers k)])"

definition new_worker :: Worker where
  "new_worker = \<lparr>replicationInterval = 0, stopReplication = None, workers = [], closed = [], next_chan = 0\<rparr>"

definition worker_ok :: "Worker \<Rightarrow> bool" where
  "worker_ok k \<longleftrightarrow> workers k = (case stopReplication k of None \<Rightarrow> [] | Some ch \<Rightarrow> [ch]) \<and>
     list_all (\<lambda>ch. ch < next_chan k) (closed k) \<and>
     (case stopReplication k of None \<Rightarrow> True | Some ch \<Rightarrow> ch < next_chan k \<and> ch \<notin> set (closed k) \<and> 0 < replicationInterval k)"

lemma Stop_ok:
  assumes "worker_ok k"
  shows "\<exists>k'. StopReplicationWorker k = Some k' \<and> worker_ok k' \<and> stopReplication k' = None \<and> workers k' = []"
  using assms
  by (cases "stopReplication k") (auto simp: StopReplicationWorker_def replicateWg_Wait_def worker_ok_def)

lemma Start_ok:
  assumes "worker_ok k"
  shows "\<exists>k' ch. StartReplicationWorker i k = Some k' \<and> worker_ok k' \<and> stopReplication k' = Some ch \<and>
    workers k' = [ch] \<and> replicationInterval k' = (if i \<le> 0 then DefaultReplicationInterval else i)"
proof -
  obtain k1 where "StopReplicationWorker k = Some k1" "worker_ok k1" "stopReplication k1 = None" "workers k1 = []"
    using Stop_ok [OF assms] by blast
  then show ?thesis
    by (auto simp: StartReplicationWorker_def worker_ok_def Let_def DefaultReplicationInterval_def list_all_iff)
qed

lemma worker_run_ok:
  "worker_ok k \<Longrightarrow> list_all (\<lambda>n. n \<le> 1) ticks \<Longrightarrow>
   \<exists>k' ticks'. worker_run es k ticks = Some (k', ticks') \<and> worker_ok k' \<and> list_all (\<lambda>n. n \<le> 1) ticks'"
proof (induction es arbitrary: k ticks)
  case (Cons e es)
  show ?case
  proof (cases e)
    case (Start i)
    then show ?thesis using Start_ok [OF Cons.prems(1), of i] Cons.IH Cons.prems(2) by fastforce
  next
    case Stop
    then show ?thesis using Stop_ok [OF Cons.prems(1)] Cons.IH Cons.prems(2) by fastforce
  next
    case Tick
    have "length (workers k) \<le> 1" using Cons.prems(1) by (simp add: worker_ok_def split: option.splits)
    with Tick Cons.IH [OF Cons.prems(1), of "ticks @ [length (workers k)]"] Cons.prems(2) show ?thesis by simp
  qed
qed simp

section \<open>A random identifier falls into its bucket\<close>

lemma random_low_bits_bit:
  "n \<le> 8 \<Longrightarrow> k < 8 \<Longrightarrow> bit (random_low_bits coin n x) k = (if k < n then coin k = 1 else bit x k)"
  by (induction n)
    (auto simp: random_low_bits_def bit_or_iff bit_and_iff bit_not_iff bit_exp_iff less_Suc_eq)

lemma random_rest_nth:
  "length (random_rest draw n bs) = length bs" "i \<le> n \<Longrightarrow> random_rest draw n bs ! i = bs ! i"
proof -
  have "length (foldl (\<lambda>bs b. bs[b := draw b]) bs js) = length bs \<and>
      (\<forall>i. i \<notin> set js \<longrightarrow> foldl (\<lambda>bs b. bs[b := draw b]) bs js ! i = bs ! i)" for bs and js :: "nat list"
    by (induction js arbitrary: bs) auto
  then show "length (random_rest draw n bs) = length bs" "i \<le> n \<Longrightarrow> random_rest draw n bs ! i = bs ! i"
    by (simp_all add: random_rest_def)
qed

lemma high_bit_bounds:
  fixes d :: byte
  assumes "bit d k" and "k < 8" and "\<And>j. k < j \<Longrightarrow> j < 8 \<Longrightarrow> \<not> bit d j"
  shows "2 ^ k \<le> unat d" and "unat d < 2 ^ Suc k"
proof -
  have "take_bit (Suc k) d = d"
    by (rule bit_word_eqI) (use assms in \<open>auto simp: bit_take_bit_iff less_Suc_eq elim: linorder_neqE_nat\<close>)
  then have "take_bit (Suc k) (unat d) = unat d" by (metis unsigned_take_bit_eq)
  then show "unat d < 2 ^ Suc k" using take_bit_nat_eq_self_iff by blast
  have "bit (unat d) k" using assms(1,2) by (simp add: bit_unsigned_iff)
  then have "unat d div 2 ^ k \<noteq> 0" by (metis bit_iff_odd even_zero)
  then show "2 ^ k \<le> unat d" by (metis div_less not_less)
qed

lemma GetBucketIndex_bits_high:
  assumes "2 ^ (7 - j) \<le> unat d" and "unat d < 2 ^ (8 - j)" and "j < 8"
  shows "GetBucketIndex_bits d i [0..<8] = Some (i * 8 + j)"
proof -
  have "unat d < 2 ^ (8 - 0)" using unat_byte_less [of d] by simp
  from GetBucketIndex_bits_spec [OF _ this, of i] assms(1) obtain j' where
    j': "GetBucketIndex_bits d i [0..<8] = Some (i * 8 + j')" "j' < 8" "2 ^ (7 - j') \<le> unat d" "unat d < 2 ^ (8 - j')"
    by (fastforce split: option.splits)
  have "(2 :: nat) ^ (7 - j') < 2 ^ (8 - j)" using j' assms(2) by linarith
  then have "7 - j' < 8 - j" by (rule nat_power_less_imp_less [rotated]) simp
  moreover have "(2 :: nat) ^ (7 - j) < 2 ^ (8 - j')" using j' assms(1) by linarith
  then have "7 - j < 8 - j'" by (rule nat_power_less_imp_less [rotated]) simp
  ultimately have "j' = j" using j'(2) assms(3) by linarith
  with j'(1) show ?thesis by simp
qed

lemma GetBucketIndex_bytes_nth:
  assumes "n < length ds" and "\<And>k. k < n \<Longrightarrow> ds ! k = 0" and "2 ^ (7 - j) \<le> unat (ds ! n)"
    and "unat (ds ! n) < 2 ^ (8 - j)" and "j < 8"
  shows "GetBucketIndex_bytes ds i = Some ((i + n) * 8 + j)"
  using assms
proof (induction n arbitrary: ds i)
  case 0
  then obtain d ds' where "ds = d # ds'" by (cases ds) auto
  with 0 GetBucketIndex_bits_high [of j d i] show ?case by simp
next
  case (Suc n)
  then obtain d ds' where ds: "ds = d # ds'" by (cases ds) auto
  have "d = 0" using Suc.prems(2) [of 0] ds by simp
  then have "GetBucketIndex_bits d i [0..<8] = None" by (simp add: upt_rec)
  moreover have "GetBucketIndex_bytes ds' (Suc i) = Some ((Suc i + n) * 8 + j)"
    using Suc.prems(1,3-5) Suc.prems(2) [of "Suc _"] by (intro Suc.IH) (simp_all add: ds)
  ultimately show ?case by (simp add: ds)
qed

lemma generateRandomIDForBucket_index:
  assumes "0 \<le> index" and "index < int numBuckets"
  shows "bucket_index m (generateRandomIDForBucket (Some m) coin draw index) = nat index"
proof -
  define n where "n = nat (index div 8)"
  define k where "k = nat (7 - index mod 8)"
  have idx: "index div 8 < 32" using assms(2) by (simp add: numBuckets_256)
  have n: "n < 32" using assms(1) idx by (simp add: n_def)
  have k: "k < 8" by (simp add: k_def)
  have nk: "n * 8 + (7 - k) = nat index" 
  proof -
    have "index mod 8 \<le> 7" using pos_mod_bound [of 8 index] by linarith
    then have "int (nat index) = int (nat (index div 8)) * 8 + (7 - int (nat (7 - index mod 8)))"
      using assms(1) pos_imp_zdiv_nonneg_iff [of 8 index] by simp
    with k show ?thesis unfolding n_def k_def by linarith
  qed
  define low where "low = random_low_bits coin k (id_bytes m ! n XOR push_bit k 1)"
  define t where "t = random_rest draw n ((id_bytes m)[n := low])"
  have g: "id_bytes (generateRandomIDForBucket (Some m) coin draw index) = t"
    using assms idx
    by (simp add: generateRandomIDForBucket_def Let_def n_def [symmetric] k_def [symmetric] numBuckets_def)
      (simp add: t_def random_rest_nth low_def)
  let ?ds = "map2 (XOR) t (id_bytes m)"
  have len: "length ?ds = 32" by (simp add: t_def random_rest_nth IDLength_def)
  have zero: "?ds ! i = 0" if "i < n" for i
    using that n len random_rest_nth(2) [of i n draw] by (simp add: t_def IDLength_def)
  have dn: "?ds ! n = low XOR id_bytes m ! n"
    using n len random_rest_nth(2) [of n n draw] by (simp add: t_def IDLength_def)
  have b: "bit (?ds ! n) j = (if j < k then (coin j = 1) \<noteq> bit (id_bytes m ! n) j else j = k)" if "j < 8" for j
    using that k by (auto simp: dn low_def random_low_bits_bit bit_xor_iff bit_exp_iff)
  have "2 ^ k \<le> unat (?ds ! n)" "unat (?ds ! n) < 2 ^ Suc k"
    by (rule high_bit_bounds; use b k in simp)+
  then have "GetBucketIndex_bytes ?ds 0 = Some ((0 + n) * 8 + (7 - k))"
    using n len zero k by (intro GetBucketIndex_bytes_nth) (simp_all add: Suc_diff_le)
  then show ?thesis using nk by (simp add: bucket_index_def g)
qed

section \<open>The operations return\<close>

lemma walk_loop_inv:
  assumes get: "\<And>s h. I s \<Longrightarrow> I (snd (getter s h))"
  shows "I s \<Longrightarrow> I (snd (walk_loop E getter maxDepth h vis chain s))"
proof (induction "maxDepth - length vis" arbitrary: h vis chain s rule: less_induct)
  case less
  obtain got s1 where g: "getter s h = (got, s1)" by (cases "getter s h")
  with get [OF less.prems, of h] have "I s1" by simp
  with less.hyps [of "h # vis" s1] less.prems g show ?case
    by (subst walk_loop.simps) (auto split: sum.splits)
qed

context kad_net
begin

text \<open>Publishing under one key, when its STORE messages return and keep the world valid.\<close>

lemma send_stores_keeps:
  assumes send: "\<And>w c. valid w \<Longrightarrow> ID c \<noteq> None \<Longrightarrow> \<exists>r w'. op_SendStore N c k d w = Some (r, w') \<and> valid w'"
  shows "valid w \<Longrightarrow> list_all (\<lambda>c. ID c \<noteq> None) cs \<Longrightarrow> \<exists>w'. send_stores N k d cs w = Some w' \<and> valid w'"
proof (induction cs arbitrary: w)
  case (Cons c cs)
  show ?case
  proof (cases "same_id (ID (op_Me N)) c")
    case False
    obtain r w1 where "op_SendStore N c k d w = Some (r, w1)" "valid w1"
      using send [OF Cons.prems(1)] Cons.prems(2) by force
    moreover obtain w2 where "send_stores N k d cs w1 = Some w2" "valid w2"
      using Cons.IH [of w1] Cons.prems(2) calculation(2) by auto
    ultimately show ?thesis using False by (simp del: same_id_iff)
  qed (use Cons in simp)
qed simp

lemma publish_keeps:
  assumes "\<And>w c. valid w \<Longrightarrow> ID c \<noteq> None \<Longrightarrow> \<exists>r w'. op_SendStore N c k d w = Some (r, w') \<and> valid w'" and "valid w"
  shows "\<exists>w'. publish N k d w = Some w' \<and> valid w'"
proof -
  obtain cs w1 where "LookupContactByID N (Some k) w = Some (cs, w1)" "valid w1" "list_all (\<lambda>c. ID c \<noteq> None) cs"
    using LookupContactByID_total [OF assms(2)] by blast
  then show ?thesis using send_stores_keeps [of k d w1 cs] assms(1)
    by (simp add: publish_def LookupContact_def NewContact_def)
qed

lemma kad_getter_keeps:
  assumes "valid w" and "okkey (NewKademliaID h) \<or> (op_has_ds N \<and> op_ds_Get N w (NewKademliaID h) \<noteq> None)"
  shows "valid (snd (kad_getter E N w h))"
proof -
  obtain r w' where "LookupDataByID E N (Some (NewKademliaID h)) w = Some (r, w')" "valid w'"
    using LookupDataByID_ok [OF assms] by blast
  then show ?thesis by (cases r) (auto simp: kad_getter_def LookupData_def)
qed

end

text \<open>
  The contract of the whole node: beside the lookups, a STORE message or a PING to a contact and a store into
  the node's own data store return and keep the world valid, for every key.
\<close>

locale kad_store = kad_net +
  assumes all_keys: "okkey k"
    and SendStore_ok: "valid w \<Longrightarrow> ID c \<noteq> None \<Longrightarrow> \<exists>r w'. op_SendStore N c k d w = Some (r, w') \<and> valid w'"
    and SendPing_Some: "valid w \<Longrightarrow> \<exists>r w'. op_SendPing N (Some c) w = Some (r, w') \<and> valid w'"
    and ds_Store_ok: "valid w \<Longrightarrow> op_has_ds N \<Longrightarrow> \<exists>r w'. op_ds_Store N k d w = Some (r, w') \<and> valid w'"
begin

lemma publish_ok: "valid w \<Longrightarrow> \<exists>w'. publish N k d w = Some w' \<and> valid w'"
  by (rule publish_keeps [OF SendStore_ok])

lemma StoreWithKey_ok:
  assumes "valid w" and "d \<noteq> []"
  shows "\<exists>r w'. StoreWithKey N (Some k) d w = Some (r, w') \<and> valid w' \<and>
    (op_has_ds N \<longrightarrow> (\<exists>s w1. op_ds_Store N k d w = Some (s, w1) \<and> r = map_sum ErrStore id s)) \<and>
    (\<not> op_has_ds N \<longrightarrow> r = Inr ())"
proof -
  obtain s w1 where s: "(if op_has_ds N then op_ds_Store N k d w else Some (Inr (), w)) = Some (s, w1)" "valid w1"
  proof (cases "op_has_ds N")
    case True
    from ds_Store_ok [OF assms(1) True] that True show ?thesis by auto
  qed (use assms(1) that in auto)
  obtain w2 where "publish N k d w1 = Some w2" "valid w2" using publish_ok [OF s(2)] by blast
  with s assms(2) show ?thesis
    by (cases s) (auto simp: StoreWithKey_def split: if_splits)
qed

lemma refresh_loop_ok: "valid w \<Longrightarrow> \<exists>w'. refresh_loop N rnd is w = Some w' \<and> valid w'"
proof (induction "is" arbitrary: w)
  case (Cons i "is")
  obtain cs w1 where "LookupContactByID N (Some (generateRandomIDForBucket (ID (op_Me N)) (fst (rnd i)) (snd (rnd i)) i)) w
      = Some (cs, w1)" "valid w1"
    using LookupContactByID_total [OF Cons.prems] by blast
  with Cons.IH [of w1] Cons.IH [OF Cons.prems] show ?case by simp
qed simp

lemma Join_ok:
  assumes "valid w"
  shows "\<exists>w'. Join N rnd b w = Some
      (if ID b = None then Inl ErrBootstrapNil
       else if ID b = ID (op_Me N) then Inl ErrBootstrapSelf
       else if \<not> op_has_rt N then Inl ErrRoutingTableNil else Inr (), w') \<and> valid w'"
proof -
  obtain w1 where w1: "rt_AddContact N b w = Some w1" "valid w1" using rt_AddContact_ok [OF assms] by blast
  obtain cs w2 where w2: "LookupContactByID N (ID (op_Me N)) w1 = Some (cs, w2)" "valid w2"
    using LookupContactByID_total [OF w1(2)] by blast
  obtain w3 where w3: "refresh_loop N rnd [0..GetClosestNonEmptyBucketIndex (op_rt N w2) - 1] w2 = Some w3" "valid w3"
    using refresh_loop_ok [OF w2(2)] by blast
  show ?thesis
    using assms w1 w2 w3
    by (cases "ID b"; cases "ID (op_Me N)") (auto simp: Join_def Let_def)
qed

lemma kad_getter_ok: "valid w \<Longrightarrow> valid (snd (kad_getter E N w h))"
  using kad_getter_keeps all_keys by blast

lemma Kademlia_Walk_ok:
  fixes R :: "'e reg_env_scheme"
  assumes "valid w" and "\<And>w h. valid w \<Longrightarrow> valid (snd (kad_getter R N w h))"
  shows "valid (snd (Kademlia_WalkVersionChain R N h w))"
proof -
  have "valid (snd (walk_loop R (kad_getter R N) n h [] [] w))" for n h
    by (rule walk_loop_inv [where I = valid, OF assms(2) assms(1)])
  with assms(1) show ?thesis
    by (simp add: Kademlia_WalkVersionChain_def WalkVersionChain_def WalkVersionChainWithDepth_def Let_def)
qed

lemma replicate_keys_ok: "valid w \<Longrightarrow> \<exists>w'. replicate_keys N ks w = Some w' \<and> valid w'"
proof (induction ks arbitrary: w)
  case (Cons k ks)
  show ?case
  proof (cases "op_ds_Get N w k")
    case (Some val)
    obtain w1 where "publish N k val w = Some w1" "valid w1" using publish_ok [OF Cons.prems] by blast
    with Some Cons.IH [of w1] show ?thesis by simp
  qed (use Cons in simp)
qed simp

lemma Replicate_ok: "valid w \<Longrightarrow> \<exists>w'. Replicate N w = Some w' \<and> valid w'"
  using replicate_keys_ok by (simp add: Replicate_def)

end

text \<open>A condition on the surroundings can be made part of the invariant.\<close>

lemma kad_store_guarded:
  assumes "c \<Longrightarrow> kad_store E N V K" and "0 < op_alpha N" and "\<And>w ps. mset (op_arrival N w ps) = mset ps"
    and "\<And>k. K k"
  shows "kad_store E N (\<lambda>w. c \<and> V w) K"
proof (cases c)
  case True
  with assms(1) show ?thesis by simp
next
  case False
  with assms(2-4) show ?thesis by unfold_locales simp_all
qed

text \<open>
  When the store gives out, and accepts, only values that belong under their key, so does a value
  lookup.
\<close>

locale kad_sound = kad_store E N valid okkey
  for E :: "'e reg_env_scheme" and N :: "'w node_ops" and valid and okkey +
  assumes ds_Get_sound: "valid w \<Longrightarrow> op_has_ds N \<Longrightarrow> op_ds_Get N w k = Some d \<Longrightarrow> value_ok E k d"
    and ds_Validate_sound: "op_ds_Validate N k d w = (Inr (), w') \<Longrightarrow> value_ok E k d"
begin

lemma authentic_value_ok: "authentic E N valid t d \<Longrightarrow> value_ok E t d"
  using ds_Validate_sound by (auto simp: authentic_def)

lemma lookup_sound:
  assumes "valid w"
  shows "\<exists>r w'. LookupDataByID E N (Some t) w = Some (r, w') \<and> valid w' \<and>
    (case r of
       Inl e \<Rightarrow> e = ErrValueNotFound \<and> \<not> (op_has_ds N \<and> op_ds_Get N w t \<noteq> None)
     | Inr (d, c) \<Rightarrow> value_ok E t d)"
proof -
  obtain r w' where l: "LookupDataByID E N (Some t) w = Some (r, w')" "valid w'"
    "case r of
       Inl e \<Rightarrow> e = ErrValueNotFound \<and> \<not> (op_has_ds N \<and> op_ds_Get N w t \<noteq> None)
     | Inr (d, c) \<Rightarrow> (op_has_ds N \<and> op_ds_Get N w t = Some d \<and> c = op_Me N) \<or> (authentic E N valid t d \<and> ID c \<noteq> None)"
    using LookupDataByID_ok [OF assms] all_keys by blast
  have "value_ok E t d" if "r = Inr (d, c)" for d c
    using l(3) that ds_Get_sound [OF assms] authentic_value_ok by auto
  with l show ?thesis by (cases r) auto
qed

end

text \<open>A network may also answer a PING to a nil contact with an error.\<close>

locale kad_node = kad_store +
  assumes SendPing_None: "valid w \<Longrightarrow> \<exists>r w'. op_SendPing N None w = Some (r, w') \<and> valid w'"
begin

lemma SendPing_ok: "valid w \<Longrightarrow> \<exists>r w'. op_SendPing N p w = Some (r, w') \<and> valid w'"
  using SendPing_Some SendPing_None by (cases p) blast+

end

text \<open>A client of the node calls its operations one after the other; the results do not matter here.\<close>

datatype node_op =
    DoPing "Contact option" | DoJoin "int \<Rightarrow> (nat \<Rightarrow> nat) \<times> (nat \<Rightarrow> byte)" Contact
  | DoLookupContact "KademliaID option" | DoLookupData "KademliaID option"
  | DoStore bytes | DoStoreWithKey "KademliaID option" bytes | DoStorePointer "LatestPointer option"
  | DoLookupPointer string string | DoWalk string | DoReplicate

fun node_step :: "'e reg_env_scheme \<Rightarrow> 'w node_ops \<Rightarrow> node_op \<Rightarrow> 'w \<Rightarrow> 'w option" where
  "node_step E N (DoPing c) w = map_option snd (Kademlia_SendPing N c w)"
| "node_step E N (DoJoin rnd b) w = map_option snd (Join N rnd b w)"
| "node_step E N (DoLookupContact t) w = map_option snd (LookupContactByID N t w)"
| "node_step E N (DoLookupData t) w = map_option snd (LookupDataByID E N t w)"
| "node_step E N (DoStore d) w = map_option snd (Kademlia_Store E N d w)"
| "node_step E N (DoStoreWithKey k d) w = map_option snd (StoreWithKey N k d w)"
| "node_step E N (DoStorePointer lp) w = map_option snd (StoreLatestPointer E N lp w)"
| "node_step E N (DoLookupPointer domain pkg) w = map_option snd (LookupLatestPointer E N domain pkg w)"
| "node_step E N (DoWalk h) w = Some (snd (Kademlia_WalkVersionChain E N h w))"
| "node_step E N DoReplicate w = Replicate N w"

lemma StoreWithKey_keeps:
  assumes "kad_store E N V K" and "V w"
  shows "\<exists>r w'. StoreWithKey N key d w = Some (r, w') \<and> V w'"
proof (cases "key = None \<or> d = []")
  case True
  then show ?thesis using assms(2) by (auto simp: StoreWithKey_def split: option.splits)
next
  case False
  then obtain k where "key = Some k" "d \<noteq> []" by auto
  then show ?thesis using kad_store.StoreWithKey_ok [OF assms, of d k] by blast
qed

text \<open>A value lookup names who answered.\<close>

lemma LookupDataByID_keeps:
  assumes "kad_store E N V K" and "V w"
  shows "\<exists>r w'. LookupDataByID E N t w = Some (r, w') \<and> V w' \<and> (\<forall>d c. r = Inr (d, c) \<longrightarrow> c = op_Me N \<or> ID c \<noteq> None)"
proof (cases t)
  case None
  then show ?thesis using assms(2) by (simp add: LookupDataByID_def)
next
  case (Some i)
  have n: "kad_net E N V K" "K i" using assms(1) kad_store.axioms(1) kad_store.all_keys by blast+
  obtain r w' where l: "LookupDataByID E N (Some i) w = Some (r, w')" "V w'"
    "case r of
       Inl e \<Rightarrow> e = ErrValueNotFound \<and> \<not> (op_has_ds N \<and> op_ds_Get N w i \<noteq> None)
     | Inr (d, c) \<Rightarrow> (op_has_ds N \<and> op_ds_Get N w i = Some d \<and> c = op_Me N) \<or> (authentic E N V i d \<and> ID c \<noteq> None)"
    using kad_net.LookupDataByID_ok [OF n(1) assms(2), of i] n(2) by blast
  with Some show ?thesis by (intro exI [of _ r] exI [of _ w']) auto
qed

lemma Kademlia_Store_keeps:
  assumes "kad_store E N V K" and "V w"
  shows "\<exists>r w'. Kademlia_Store E N d w = Some (r, w') \<and> V w'"
  using StoreWithKey_keeps [OF assms, of "Some (sha256 E d)" d] assms(2)
  by (auto simp: Kademlia_Store_def Let_def NewKademliaIDFromData_def)

lemma StoreLatestPointer_keeps:
  assumes "kad_store E N V K" and "V w"
  shows "\<exists>r w'. StoreLatestPointer E N lp w = Some (r, w') \<and> V w'"
proof -
  have "(\<exists>s. StoreLatestPointer E N lp w = Some (s, w)) \<or>
      (\<exists>data. StoreLatestPointer E N lp w = StoreWithKey N (Some (DHTKeyBytes E lp)) data w)"
    by (auto simp: StoreLatestPointer_def split: option.split sum.split)
  with StoreWithKey_keeps [OF assms, of "Some (DHTKeyBytes E lp)"] assms(2) show ?thesis by fastforce
qed

lemma LookupLatestPointer_keeps:
  assumes "kad_store E N V K" and "V w"
  shows "\<exists>r w'. LookupLatestPointer E N domain pkg w = Some (r, w') \<and> V w'"
proof -
  obtain r w' where "LookupDataByID E N (Some (LatestPointerDHTKeyBytes E domain pkg)) w = Some (r, w')" "V w'"
    using LookupDataByID_keeps [OF assms] by blast
  then show ?thesis by (cases r) (auto simp: LookupLatestPointer_def Let_def split: sum.splits)
qed

lemma Walk_keeps:
  assumes "kad_store E N V K" and "V w"
  shows "V (snd (Kademlia_WalkVersionChain E N h w))"
  by (rule kad_store.Kademlia_Walk_ok [OF assms kad_store.kad_getter_ok [OF assms(1)]])

lemma store_step_keeps:
  fixes E :: "'e reg_env_scheme" and N :: "'w node_ops"
  assumes node: "kad_store E N V K" and v: "V w"
    and ping: "op = DoPing None \<Longrightarrow> \<exists>r w'. op_SendPing N None w = Some (r, w') \<and> V w'"
  shows "\<exists>w'. node_step E N op w = Some w' \<and> V w'"
proof (cases op)
  case (DoPing c)
  then have "\<exists>r w'. op_SendPing N c w = Some (r, w') \<and> V w'"
    using kad_store.SendPing_Some [OF node v] ping by (cases c) blast+
  with DoPing v show ?thesis by (auto simp: Kademlia_SendPing_def)
next
  case (DoJoin rnd b)
  then show ?thesis using kad_store.Join_ok [OF node v, of rnd b] by (metis (no_types) node_step.simps(2) option.map(2) snd_conv)
next
  case (DoLookupContact t)
  then show ?thesis using kad_net.LookupContactByID_total [OF kad_store.axioms(1) [OF node] v, of t] by auto
next
  case (DoLookupData t)
  then show ?thesis using LookupDataByID_keeps [OF node v, of t] by auto
next
  case (DoStore d)
  then show ?thesis using Kademlia_Store_keeps [OF node v, of d] by auto
next
  case (DoStoreWithKey k d)
  then show ?thesis using StoreWithKey_keeps [OF node v, of k d] by auto
next
  case (DoStorePointer lp)
  then show ?thesis using StoreLatestPointer_keeps [OF node v, of lp] by auto
next
  case (DoLookupPointer domain pkg)
  then show ?thesis using LookupLatestPointer_keeps [OF node v, of domain pkg] by auto
next
  case (DoWalk h)
  then show ?thesis using Walk_keeps [OF node v, of h] by simp
next
  case DoReplicate
  then show ?thesis using kad_store.Replicate_ok [OF node v] by simp
qed

lemma node_step_keeps:
  assumes "kad_node E N V K" and "V w"
  shows "\<exists>w'. node_step E N op w = Some w' \<and> V w'"
  by (rule store_step_keeps [OF kad_node.axioms(1) [OF assms(1)] assms(2) kad_node.SendPing_ok [OF assms]])

text \<open>Storing without validation needs one more law.\<close>

locale kad_force = kad_node +
  assumes StoreUnchecked_ok: "valid w \<Longrightarrow> op_has_ds N \<Longrightarrow> valid (op_ds_StoreUnchecked N k d w)"
begin

lemma StoreWithKeyForce_ok:
  assumes "valid w" and "d \<noteq> []"
  shows "\<exists>w'. StoreWithKeyForce N (Some k) d w = Some (Inr (), w') \<and> valid w'"
proof -
  define w1 where "w1 = (if op_has_ds N then op_ds_StoreUnchecked N k d w else w)"
  have "valid w1" using assms(1) StoreUnchecked_ok by (simp add: w1_def)
  then obtain w2 where "publish N k d w1 = Some w2" "valid w2" using publish_ok by blast
  with \<open>valid w1\<close> assms(2) show ?thesis
    by (auto simp: StoreWithKeyForce_def w1_def [symmetric])
qed

end

section \<open>Properties\<close>

text \<open>
  C38. A random identifier for a bucket falls into that bucket: it shares exactly \<open>index\<close> leading bits
  with the node's own identifier, whatever the draws.  So each refresh of \<^verbatim>\<open>Join\<close> explores the bucket
  it is meant for.
\<close>

theorem generateRandomIDForBucket_bucket:
  assumes "0 \<le> index" and "index < int numBuckets"
  shows "bucket_index m (generateRandomIDForBucket (Some m) coin draw index) = nat index"
  by (rule generateRandomIDForBucket_index [OF assms])

theorem generateRandomIDForBucket_bucket_witness:
  "(0 :: int) \<le> 11 \<and> 11 < int numBuckets \<and>
    bucket_index (mk_id [1, 2]) (generateRandomIDForBucket (Some (mk_id [1, 2])) (\<lambda>b. b) (\<lambda>b. 7) 11) = nat 11"
  using generateRandomIDForBucket_bucket [of 11 "mk_id [1, 2]"] by (simp add: numBuckets_256)

text \<open>
  C39. The replication worker, over every sequence of starts, stops and ticks from a fresh node: no
  call hangs or closes a channel twice, at most one goroutine runs at any time, so a tick makes at
  most one replication pass, and none after a stop.
\<close>

theorem replication_worker_single:
  "\<exists>k ticks. worker_run es new_worker [] = Some (k, ticks) \<and> list_all (\<lambda>n. n \<le> 1) ticks \<and>
     workers k = (case stopReplication k of None \<Rightarrow> [] | Some ch \<Rightarrow> [ch])"
proof -
  have "worker_ok new_worker" by (simp add: worker_ok_def new_worker_def)
  from worker_run_ok [OF this, of "[]" es] show ?thesis by (auto simp: worker_ok_def)
qed

end
