(* ===== verification/Kad_SimNet.thy ===== *)
theory Kad_SimNet
  imports Complex_Main Kad_Node
begin

text \<open>
  \<^verbatim>\<open>src/kademlia/simulated_network.go\<close>: an in-memory network of nodes around one hub.  Pointers are
  numbers: a network object, a routing table and a data store each have an address, so that a node
  and its network share their table and their store exactly when they hold the same pointers.  What
  never changes after construction (\<open>sim_config\<close>) is kept apart from the state (\<open>sim_world\<close>).  The
  loss probability is a rational number, the hub's random generator the sequence \<open>cf_rolls\<close> of
  its \<^verbatim>\<open>Float64\<close> values.  Sleeping for the latency changes no state.
\<close>

section \<open>Configuration and state\<close>

record SimulatedNetwork =
  sn_me :: Contact
  sn_rt :: "nat option"
  sn_ds :: "nat option"
  sn_hub :: bool

record SimulatedHub =
  nodes :: "(string, nat) gomap"
  packetLoss :: rat
  latency :: int
  rng :: nat
  totalProbes :: "64 word"
  successfulProbes :: "64 word"
  droppedProbes :: "64 word"

record sim_world =
  hub :: SimulatedHub
  tables :: "nat \<Rightarrow> RoutingTable"
  stores :: "nat \<Rightarrow> data"
  overflow :: bool

text \<open>
  \<open>cf_fetcher q\<close> is the node whose \<^verbatim>\<open>LookupData\<close> the store at \<open>q\<close> uses to fetch records, as
  \<^verbatim>\<open>NewKademlia\<close> installs it; \<open>cf_order\<close> decides the order in which the answers to concurrent probes
  arrive.
\<close>

record sim_config =
  cf_nets :: "nat \<Rightarrow> SimulatedNetwork"
  cf_maxValSize :: "nat \<Rightarrow> int"
  cf_resolver :: "nat \<Rightarrow> DNSResolver option"
  cf_fetcher :: "nat \<Rightarrow> Kademlia option"
  cf_rolls :: "nat \<Rightarrow> rat"
  cf_order :: "nat \<Rightarrow> Contact \<Rightarrow> nat"

section \<open>The hub\<close>

definition NewSimulatedHub :: SimulatedHub where
  "NewSimulatedHub = \<lparr>nodes = gm_empty, packetLoss = 0, latency = 0, rng = 0,
     totalProbes = 0, successfulProbes = 0, droppedProbes = 0\<rparr>"

definition SetPacketLoss :: "SimulatedHub \<Rightarrow> rat \<Rightarrow> SimulatedHub" where
  "SetPacketLoss h loss = h\<lparr>packetLoss := (if loss < 0 then 0 else if loss > 1 then 1 else loss)\<rparr>"

definition SetLatency :: "SimulatedHub \<Rightarrow> int \<Rightarrow> SimulatedHub" where
  "SetLatency h d = h\<lparr>latency := d\<rparr>"

definition Register :: "sim_config \<Rightarrow> SimulatedHub \<Rightarrow> nat \<Rightarrow> SimulatedHub" where
  "Register C h net = h\<lparr>nodes := gm_set (Address (sn_me (cf_nets C net))) net (nodes h)\<rparr>"

definition Unregister :: "SimulatedHub \<Rightarrow> string \<Rightarrow> SimulatedHub" where
  "Unregister h address = h\<lparr>nodes := gm_del address (nodes h)\<rparr>"

definition TotalProbes :: "SimulatedHub \<Rightarrow> 64 word" where
  "TotalProbes h = totalProbes h"

definition SuccessfulProbes :: "SimulatedHub \<Rightarrow> 64 word" where
  "SuccessfulProbes h = successfulProbes h"

definition DroppedProbes :: "SimulatedHub \<Rightarrow> 64 word" where
  "DroppedProbes h = droppedProbes h"

definition ResetMetrics :: "SimulatedHub \<Rightarrow> SimulatedHub" where
  "ResetMetrics h = h\<lparr>totalProbes := 0, successfulProbes := 0, droppedProbes := 0\<rparr>"

definition NewSimulatedNetwork :: "sim_config \<Rightarrow> nat \<Rightarrow> SimulatedHub \<Rightarrow> SimulatedHub" where
  "NewSimulatedNetwork C net h = (if sn_hub (cf_nets C net) then Register C h net else h)"

definition SimulatedNetwork_Close :: "SimulatedNetwork \<Rightarrow> SimulatedHub \<Rightarrow> SimulatedHub" where
  "SimulatedNetwork_Close n h = (if sn_hub n then Unregister h (Address (sn_me n)) else h)"

text \<open>The part all four messages share: counting, the loss roll and finding the target.\<close>

definition dispatch :: "sim_config \<Rightarrow> string \<Rightarrow> SimulatedHub \<Rightarrow> (net_error + nat) \<times> SimulatedHub" where
  "dispatch C address h =
     (let h1 = h\<lparr>totalProbes := totalProbes h + 1\<rparr>;
          target = gm_get (nodes h) address;
          loss = packetLoss h;
          (lost, h2) =
            (if loss > 0 then (cf_rolls C (rng h1) < loss, h1\<lparr>rng := Suc (rng h1)\<rparr>) else (False, h1)) in
      if lost then (Inl ErrPacketLoss, h2\<lparr>droppedProbes := droppedProbes h2 + 1\<rparr>)
      else (case target of
        None \<Rightarrow> (Inl ErrUnreachable, h2\<lparr>droppedProbes := droppedProbes h2 + 1\<rparr>)
      | Some t \<Rightarrow> (Inr t, h2\<lparr>successfulProbes := successfulProbes h2 + 1\<rparr>)))"

section \<open>The messages\<close>

text \<open>A node puts the other side of an exchange into its table, unless it is itself.\<close>

definition learn :: "SimulatedNetwork \<Rightarrow> Contact \<Rightarrow> sim_world \<Rightarrow> sim_world option" where
  "learn n other w =
     (case sn_rt n of
        None \<Rightarrow> Some w
      | Some r \<Rightarrow>
          if ID other \<noteq> None \<and> (ID (sn_me n) = None \<or> Equals_ptr (ID other) (ID (sn_me n)) \<noteq> Some True)
          then map_option (\<lambda>rt. w\<lparr>tables := (tables w)(r := rt)\<rparr>)
            (RoutingTable_AddContact (tables w r) other)
          else Some w)"

text \<open>The contacts a node hands out: not the requester, not itself.\<close>

definition closest_for :: "SimulatedNetwork \<Rightarrow> SimulatedNetwork \<Rightarrow> KademliaID \<Rightarrow> sim_world \<Rightarrow> Contact list option" where
  "closest_for n t target w =
     (case sn_rt t of
        None \<Rightarrow> Some []
      | Some r \<Rightarrow> map_option (\<lambda>cs. filter_contacts (ID (sn_me n)) (ID (sn_me t)) (filter (\<lambda>c. ID c \<noteq> None) cs))
          (FindClosestContacts (tables w r) (Some target) (int bucketSize)))"

definition Sim_SendPing ::
  "sim_config \<Rightarrow> uuid \<Rightarrow> SimulatedNetwork \<Rightarrow> Contact option \<Rightarrow> sim_world \<Rightarrow>
   ((net_error + RPCMessage) \<times> sim_world) option" where
  "Sim_SendPing C tx n contact w =
     (case contact of
        None \<Rightarrow> Some (Inl ErrNilContact, w)
      | Some c \<Rightarrow>
          if ID c = None then Some (Inl ErrNilContact, w)
          else if \<not> sn_hub n then Some (Inl ErrHubNil, w)
          else (case dispatch C (Address c) (hub w) of
            (Inl e, h) \<Rightarrow> Some (Inl e, w\<lparr>hub := h\<rparr>)
          | (Inr t, h) \<Rightarrow> do {
              let target = cf_nets C t;
              w1 \<leftarrow> learn target (sn_me n) (w\<lparr>hub := h\<rparr>);
              w2 \<leftarrow> learn n (sn_me target) w1;
              Some (Inr ((new_message Pong tx (sn_me target))\<lparr>Receiver := sn_me n\<rparr>), w2)
            }))"

definition Sim_SendFindContact ::
  "sim_config \<Rightarrow> SimulatedNetwork \<Rightarrow> KademliaID option \<Rightarrow> Contact option \<Rightarrow> sim_world \<Rightarrow>
   ((net_error + Contact list) \<times> sim_world) option" where
  "Sim_SendFindContact C n target contact w =
     (case contact of
        None \<Rightarrow> Some (Inl ErrNilContact, w)
      | Some c \<Rightarrow>
          if ID c = None then Some (Inl ErrNilContact, w)
          else (case target of
            None \<Rightarrow> Some (Inl ErrNilTarget, w)
          | Some i \<Rightarrow>
              if \<not> sn_hub n then Some (Inl ErrHubNil, w)
              else (case dispatch C (Address c) (hub w) of
                (Inl e, h) \<Rightarrow> Some (Inl e, w\<lparr>hub := h\<rparr>)
              | (Inr t, h) \<Rightarrow> do {
                  let t = cf_nets C t;
                  w1 \<leftarrow> learn t (sn_me n) (w\<lparr>hub := h\<rparr>);
                  cs \<leftarrow> closest_for n t i w1;
                  Some (Inr cs, w1)
                })))"

definition Sim_SendFindData ::
  "sim_config \<Rightarrow> SimulatedNetwork \<Rightarrow> KademliaID option \<Rightarrow> Contact option \<Rightarrow> sim_world \<Rightarrow>
   ((net_error + bytes \<times> Contact list) \<times> sim_world) option" where
  "Sim_SendFindData C n target contact w =
     (case contact of
        None \<Rightarrow> Some (Inl ErrNilContact, w)
      | Some c \<Rightarrow>
          if ID c = None then Some (Inl ErrNilContact, w)
          else (case target of
            None \<Rightarrow> Some (Inl ErrNilTarget, w)
          | Some i \<Rightarrow>
              if \<not> sn_hub n then Some (Inl ErrHubNil, w)
              else (case dispatch C (Address c) (hub w) of
                (Inl e, h) \<Rightarrow> Some (Inl e, w\<lparr>hub := h\<rparr>)
              | (Inr t, h) \<Rightarrow> do {
                  let t = cf_nets C t;
                  w1 \<leftarrow> learn t (sn_me n) (w\<lparr>hub := h\<rparr>);
                  w2 \<leftarrow> learn n (sn_me t) w1;
                  case (case sn_ds t of None \<Rightarrow> None | Some q \<Rightarrow> gm_get (stores w2 q) i) of
                    Some val \<Rightarrow> Some (Inr (val, []), w2)
                  | None \<Rightarrow> do {
                      cs \<leftarrow> closest_for n t i w2;
                      Some (Inr ([], cs), w2)
                    }
                })))"

text \<open>The data store at an address, with its record fetcher, and what a call leaves behind.\<close>

definition ds_at :: "sim_config \<Rightarrow> (nat \<Rightarrow> sim_world RecordFetcher option) \<Rightarrow> nat \<Rightarrow> sim_world \<Rightarrow> sim_world DataStore" where
  "ds_at C F q w = \<lparr>ds_data = stores w q, maxValSize = cf_maxValSize C q, dnsResolver = cf_resolver C q,
     recordFetcher = F q\<rparr>"

definition put_store :: "nat \<Rightarrow> data \<Rightarrow> sim_world \<Rightarrow> sim_world" where
  "put_store q d w = w\<lparr>stores := (stores w)(q := d)\<rparr>"

definition store_at ::
  "'e reg_env_scheme \<Rightarrow> sim_config \<Rightarrow> (nat \<Rightarrow> sim_world RecordFetcher option) \<Rightarrow> nat \<Rightarrow> KademliaID \<Rightarrow> bytes \<Rightarrow>
   sim_world \<Rightarrow> ((ds_error + unit) \<times> sim_world) option" where
  "store_at E C F q key data w =
     map_option (\<lambda>(r, ds, w1). (r, put_store q (ds_data ds) w1)) (DataStore_Store E (ds_at C F q w) key data w)"

definition validate_at ::
  "'e reg_env_scheme \<Rightarrow> sim_config \<Rightarrow> (nat \<Rightarrow> sim_world RecordFetcher option) \<Rightarrow> nat \<Rightarrow> KademliaID \<Rightarrow> bytes \<Rightarrow>
   sim_world \<Rightarrow> (ds_error + unit) \<times> sim_world" where
  "validate_at E C F q key data w =
     (let (r, ds, w1) = DataStore_Validate E (ds_at C F q w) key data w in (r, put_store q (ds_data ds) w1))"

definition Sim_SendStore ::
  "'e reg_env_scheme \<Rightarrow> sim_config \<Rightarrow> (nat \<Rightarrow> sim_world RecordFetcher option) \<Rightarrow> SimulatedNetwork \<Rightarrow>
   Contact option \<Rightarrow> KademliaID option \<Rightarrow> bytes \<Rightarrow> sim_world \<Rightarrow> ((net_error + unit) \<times> sim_world) option" where
  "Sim_SendStore E C F n contact key data w =
     (case contact of
        None \<Rightarrow> Some (Inl ErrNilContact, w)
      | Some c \<Rightarrow>
          if ID c = None then Some (Inl ErrNilContact, w)
          else (case key of
            None \<Rightarrow> Some (Inl ErrNilTarget, w)
          | Some k \<Rightarrow>
              if \<not> sn_hub n then Some (Inl ErrHubNil, w)
              else (case dispatch C (Address c) (hub w) of
                (Inl e, h) \<Rightarrow> Some (Inl e, w\<lparr>hub := h\<rparr>)
              | (Inr t, h) \<Rightarrow> do {
                  let t = cf_nets C t;
                  w1 \<leftarrow> learn t (sn_me n) (w\<lparr>hub := h\<rparr>);
                  case sn_ds t of
                    None \<Rightarrow> Some (Inr (), w1)
                  | Some q \<Rightarrow> map_option (\<lambda>(r, w2). (map_sum ErrRejected id r, w2)) (store_at E C F q k data w1)
                })))"

section \<open>A node in the world\<close>

definition sim_ops ::
  "'e reg_env_scheme \<Rightarrow> sim_config \<Rightarrow> (nat \<Rightarrow> sim_world RecordFetcher option) \<Rightarrow> Kademlia \<Rightarrow> sim_world node_ops" where
  "sim_ops E C F K = \<lparr>
     op_Me = Me K,
     op_alpha = kad_alpha K,
     op_has_rt = (kad_RoutingTable K \<noteq> None),
     op_rt = (\<lambda>w. tables w (the (kad_RoutingTable K))),
     op_set_rt = (\<lambda>rt w. w\<lparr>tables := (tables w)(the (kad_RoutingTable K) := rt)\<rparr>),
     op_has_net = (kad_Network K \<noteq> None),
     op_arrival = (\<lambda>w. sort_key (cf_order C (rng (hub w)))),
     op_SendPing = (\<lambda>c. Sim_SendPing C 0 (cf_nets C (the (kad_Network K))) c),
     op_FindContact = (\<lambda>t c. Sim_SendFindContact C (cf_nets C (the (kad_Network K))) (Some t) (Some c)),
     op_FindData = (\<lambda>t c. Sim_SendFindData C (cf_nets C (the (kad_Network K))) (Some t) (Some c)),
     op_SendStore = (\<lambda>c k d. Sim_SendStore E C F (cf_nets C (the (kad_Network K))) (Some c) (Some k) d),
     op_has_ds = (kad_DataStore K \<noteq> None),
     op_ds_Get = (\<lambda>w. gm_get (stores w (the (kad_DataStore K)))),
     op_ds_Validate = validate_at E C F (the (kad_DataStore K)),
     op_ds_Store = store_at E C F (the (kad_DataStore K)),
     op_ds_StoreUnchecked = (\<lambda>k d w. put_store (the (kad_DataStore K))
       (ds_data (StoreUnchecked (ds_at C F (the (kad_DataStore K)) w) k d)) w),
     op_ds_GetAllKeys = (\<lambda>w. gm_keys (stores w (the (kad_DataStore K))))\<rparr>"

text \<open>
  The fetcher \<^verbatim>\<open>NewKademlia\<close> installs calls \<^verbatim>\<open>LookupData\<close>, which may validate a value it is sent, which
  may fetch again: the two are mutually recursive, and nothing in the code bounds the recursion.  The
  model unfolds it to a depth; at depth 0 the stack is exhausted, which \<open>overflow\<close> records.
\<close>

fun sim_fetch ::
  "'e reg_env_scheme \<Rightarrow> sim_config \<Rightarrow> nat \<Rightarrow> Kademlia \<Rightarrow> nat \<Rightarrow> sim_world RecordFetcher" where
  "sim_fetch E C 0 K q st hash =
     (Inl (ErrText ''stack overflow''), (fst st, (snd st)\<lparr>overflow := True\<rparr>))"
| "sim_fetch E C (Suc n) K q st hash =
     (case kad_getter E (sim_ops E C (\<lambda>q'. map_option (\<lambda>K'. sim_fetch E C n K' q') (cf_fetcher C q')) K)
             (put_store q (fst st) (snd st)) hash of
        (r, w1) \<Rightarrow> (r, (stores w1 q, w1)))"

definition sim_fetchers :: "'e reg_env_scheme \<Rightarrow> sim_config \<Rightarrow> nat \<Rightarrow> nat \<Rightarrow> sim_world RecordFetcher option" where
  "sim_fetchers E C n q = map_option (\<lambda>K. sim_fetch E C n K q) (cf_fetcher C q)"

text \<open>
  What \<^verbatim>\<open>NewKademlia\<close> does to its store: it installs the node's fetcher unless the store has one.  The resolver
  of a node is that of its store.
\<close>

definition NewKademlia_fetcher :: "Kademlia \<Rightarrow> sim_config \<Rightarrow> sim_config" where
  "NewKademlia_fetcher K C =
     (case kad_DataStore K of
        None \<Rightarrow> C
      | Some q \<Rightarrow> if cf_fetcher C q = None then C\<lparr>cf_fetcher := (cf_fetcher C)(q := Some K)\<rparr> else C)"

definition Kademlia_SetDNSResolver :: "Kademlia \<Rightarrow> DNSResolver option \<Rightarrow> sim_config \<Rightarrow> sim_config" where
  "Kademlia_SetDNSResolver K resolver C =
     (case kad_DataStore K of
        None \<Rightarrow> C
      | Some q \<Rightarrow> C\<lparr>cf_resolver := (cf_resolver C)(q := resolver)\<rparr>)"

definition Kademlia_DNSResolver :: "Kademlia \<Rightarrow> sim_config \<Rightarrow> DNSResolver option" where
  "Kademlia_DNSResolver K C = (case kad_DataStore K of None \<Rightarrow> None | Some q \<Rightarrow> cf_resolver C q)"

text \<open>A node's operations when the stack is \<open>n\<close> deep.\<close>

abbreviation sim_node :: "'e reg_env_scheme \<Rightarrow> sim_config \<Rightarrow> nat \<Rightarrow> Kademlia \<Rightarrow> sim_world node_ops" where
  "sim_node E C n K \<equiv> sim_ops E C (sim_fetchers E C n) K"

section \<open>What the messages keep\<close>

definition tables_wf :: "sim_world \<Rightarrow> bool" where
  "tables_wf w \<longleftrightarrow> (\<forall>r. rt_wf (tables w r))"

text \<open>The invariant for a property \<open>B\<close> of the hub, which the traffic keeps, and a property \<open>P\<close> of all data stores.\<close>

definition hub_ok :: "sim_config \<Rightarrow> (SimulatedHub \<Rightarrow> bool) \<Rightarrow> bool" where
  "hub_ok C B \<longleftrightarrow> (\<forall>a h. B h \<longrightarrow> B (snd (dispatch C a h)))"

definition sim_inv :: "(SimulatedHub \<Rightarrow> bool) \<Rightarrow> ((nat \<Rightarrow> data) \<Rightarrow> bool) \<Rightarrow> sim_world \<Rightarrow> bool" where
  "sim_inv B P w \<longleftrightarrow> tables_wf w \<and> B (hub w) \<and> P (stores w)"

lemma sim_inv_overflow [simp]: "sim_inv B P (w\<lparr>overflow := b\<rparr>) = sim_inv B P w"
  by (simp add: sim_inv_def tables_wf_def)

lemma sim_inv_dispatch:
  assumes "hub_ok C B" and "dispatch C a (hub w) = (r, h)" and "sim_inv B P w"
  shows "sim_inv B P (w\<lparr>hub := h\<rparr>)"
proof -
  have "B (snd (dispatch C a (hub w)))" using assms(1,3) by (simp add: hub_ok_def sim_inv_def)
  with assms(2,3) show ?thesis by (simp add: sim_inv_def tables_wf_def)
qed

lemma put_store_same [simp]: "put_store q (stores w q) w = w"
  by (simp add: put_store_def)

lemma put_store_simps [simp]:
  "stores (put_store q d w) = (stores w)(q := d)" "tables (put_store q d w) = tables w"
  "hub (put_store q d w) = hub w" "put_store q d (put_store q d' w) = put_store q d w"
  by (simp_all add: put_store_def)

lemma tables_wf_put [simp]: "tables_wf (put_store q d w) = tables_wf w"
  by (simp add: tables_wf_def)

lemma tables_wf_set: "tables_wf w \<Longrightarrow> rt_wf rt \<Longrightarrow> sim_inv B P w \<Longrightarrow> sim_inv B P (w\<lparr>tables := (tables w)(r := rt)\<rparr>)"
  by (simp add: sim_inv_def tables_wf_def)

lemma learn_ok:
  assumes "sim_inv B P w"
  shows "\<exists>w'. learn n c w = Some w' \<and> sim_inv B P w' \<and> stores w' = stores w"
proof (cases "sn_rt n")
  case (Some r)
  have wf: "rt_wf (tables w r)" using assms by (simp add: sim_inv_def tables_wf_def)
  obtain rt where rt: "RoutingTable_AddContact (tables w r) c = Some rt"
    using RoutingTable_AddContact_no_panic [OF wf] by blast
  moreover have "tables_wf w" using assms by (simp add: sim_inv_def)
  ultimately show ?thesis
    using Some assms tables_wf_set [OF _ RoutingTable_AddContact_wf [OF wf rt] assms] by (simp add: learn_def)
qed (use assms in \<open>simp add: learn_def\<close>)

lemma closest_for_ok:
  assumes "tables_wf w"
  shows "\<exists>cs. closest_for n t i w = Some cs \<and> length cs \<le> bucketSize \<and>
    list_all (\<lambda>c. ID c \<noteq> None \<and> ID c \<noteq> ID (sn_me n) \<and> ID c \<noteq> ID (sn_me t)) cs \<and>
    sorted_wrt (<) (map cdist cs)"
proof (cases "sn_rt t")
  case (Some r)
  have wf: "rt_wf (tables w r)" using assms by (simp add: tables_wf_def)
  obtain cs where cs: "FindClosestContacts (tables w r) (Some i) (int bucketSize) = Some cs"
    by (rule FindClosestContacts_visits [OF wf of_nat_0_le_iff])
  note f = FindClosest_ids [OF wf of_nat_0_le_iff cs]
  let ?cs = "filter (\<lambda>c. ID c \<noteq> None) cs"
  have "sorted_wrt (<) (map cdist ?cs)" using f by (simp add: sorted_wrt_map sorted_wrt_filter)
  then have "sorted_wrt (<) (map cdist (filter_contacts (ID (sn_me n)) (ID (sn_me t)) ?cs))"
    by (rule sorted_filter_contacts)
  moreover have "length (filter_contacts (ID (sn_me n)) (ID (sn_me t)) ?cs) \<le> bucketSize"
    by (rule order_trans [OF length_filter_contacts], rule order_trans [OF length_filter_le]) (use f in simp)
  ultimately show ?thesis using Some cs by (auto simp: closest_for_def list_all_iff)
qed (simp add: closest_for_def)

lemma Sim_SendPing_ok:
  assumes "hub_ok C B" and "sim_inv B P w"
  shows "\<exists>r w'. Sim_SendPing C tx n c w = Some (r, w') \<and> sim_inv B P w'"
proof (cases "c = None \<or> ID (the c) = None \<or> \<not> sn_hub n")
  case True
  then show ?thesis using assms(2) by (auto simp: Sim_SendPing_def split: option.splits)
next
  case False
  then obtain c' where [simp]: "c = Some c'" "ID c' \<noteq> None" "sn_hub n" by auto
  obtain d h where d: "dispatch C (Address c') (hub w) = (d, h)" by (cases "dispatch C (Address c') (hub w)")
  note inv = sim_inv_dispatch [OF assms(1) d assms(2)]
  show ?thesis
  proof (cases d)
    case (Inl e)
    with d inv show ?thesis by (simp add: Sim_SendPing_def)
  next
    case (Inr t')
    obtain w1 where w1: "learn (cf_nets C t') (sn_me n) (w\<lparr>hub := h\<rparr>) = Some w1" "sim_inv B P w1"
      using learn_ok [OF inv] by blast
    obtain w2 where "learn n (sn_me (cf_nets C t')) w1 = Some w2" "sim_inv B P w2"
      using learn_ok [OF w1(2)] by blast
    with d Inr w1 show ?thesis by (simp add: Sim_SendPing_def Let_def)
  qed
qed

lemma Sim_SendFindContact_ok:
  assumes "hub_ok C B" and "sim_inv B P w"
  shows "\<exists>r w'. Sim_SendFindContact C n t c w = Some (r, w') \<and> sim_inv B P w'"
proof (cases "c = None \<or> ID (the c) = None \<or> t = None \<or> \<not> sn_hub n")
  case True
  then show ?thesis using assms(2) by (auto simp: Sim_SendFindContact_def split: option.splits)
next
  case False
  then obtain c' i where [simp]: "c = Some c'" "t = Some i" "ID c' \<noteq> None" "sn_hub n" by auto
  obtain d h where d: "dispatch C (Address c') (hub w) = (d, h)" by (cases "dispatch C (Address c') (hub w)")
  note inv = sim_inv_dispatch [OF assms(1) d assms(2)]
  show ?thesis
  proof (cases d)
    case (Inl e)
    with d inv show ?thesis by (simp add: Sim_SendFindContact_def)
  next
    case (Inr t')
    obtain w1 where w1: "learn (cf_nets C t') (sn_me n) (w\<lparr>hub := h\<rparr>) = Some w1" "sim_inv B P w1"
      using learn_ok [OF inv] by blast
    then obtain cs where "closest_for n (cf_nets C t') i w1 = Some cs"
      using closest_for_ok [of w1] by (force simp: sim_inv_def)
    with d Inr w1 show ?thesis by (simp add: Sim_SendFindContact_def)
  qed
qed

lemma Sim_SendFindData_ok:
  assumes "hub_ok C B" and "sim_inv B P w"
  shows "\<exists>r w'. Sim_SendFindData C n t c w = Some (r, w') \<and> sim_inv B P w'"
proof (cases "c = None \<or> ID (the c) = None \<or> t = None \<or> \<not> sn_hub n")
  case True
  then show ?thesis using assms(2) by (auto simp: Sim_SendFindData_def split: option.splits)
next
  case False
  then obtain c' i where [simp]: "c = Some c'" "t = Some i" "ID c' \<noteq> None" "sn_hub n" by auto
  obtain d h where d: "dispatch C (Address c') (hub w) = (d, h)" by (cases "dispatch C (Address c') (hub w)")
  note inv = sim_inv_dispatch [OF assms(1) d assms(2)]
  show ?thesis
  proof (cases d)
    case (Inl e)
    with d inv show ?thesis by (simp add: Sim_SendFindData_def)
  next
    case (Inr t')
    obtain w1 where w1: "learn (cf_nets C t') (sn_me n) (w\<lparr>hub := h\<rparr>) = Some w1" "sim_inv B P w1"
      using learn_ok [OF inv] by blast
    obtain w2 where w2: "learn n (sn_me (cf_nets C t')) w1 = Some w2" "sim_inv B P w2"
      using learn_ok [OF w1(2)] by blast
    then obtain cs where "closest_for n (cf_nets C t') i w2 = Some cs"
      using closest_for_ok [of w2] by (force simp: sim_inv_def)
    with d Inr w1 w2 show ?thesis by (auto simp: Sim_SendFindData_def Let_def split: option.split)
  qed
qed

section \<open>The data stores and their fetchers\<close>

text \<open>
  A property \<open>P\<close> of the stores that caching content keeps: under the keys \<open>okk\<close> it may be written,
  under the others there is an entry already.
\<close>

definition stores_ok :: "'e crypto_env_scheme \<Rightarrow> ((nat \<Rightarrow> data) \<Rightarrow> bool) \<Rightarrow> (nat \<Rightarrow> KademliaID \<Rightarrow> bool) \<Rightarrow> bool" where
  "stores_ok E P okk \<longleftrightarrow>
     (\<forall>S q v. P S \<longrightarrow> okk q (sha256 E v) \<longrightarrow> P (S(q := gm_set (sha256 E v) v (S q)))) \<and>
     (\<forall>S q k. P S \<longrightarrow> \<not> okk q k \<longrightarrow> gm_get (S q) k \<noteq> None)"

lemma stores_okD:
  assumes "stores_ok E P okk" and "P S"
  shows "okk q (sha256 E v) \<Longrightarrow> P (S(q := gm_set (sha256 E v) v (S q)))"
    and "okk q k \<or> gm_get (S q) k \<noteq> None"
  using assms unfolding stores_ok_def by blast+

lemma stores_okI:
  assumes "\<And>S q v. P S \<Longrightarrow> okk q (sha256 E v) \<Longrightarrow> P (S(q := gm_set (sha256 E v) v (S q)))"
    and "\<And>S q k. P S \<Longrightarrow> \<not> okk q k \<Longrightarrow> gm_get (S q) k \<noteq> None"
  shows "stores_ok E P okk"
  unfolding stores_ok_def using assms by blast

lemma stores_ok_present:
  assumes "stores_ok E P okk"
  shows "stores_ok E (\<lambda>S. P S \<and> gm_get (S q) k = Some v) (\<lambda>q' k'. okk q' k' \<and> \<not> (q' = q \<and> k' = k))"
proof (rule stores_okI)
  fix S :: "nat \<Rightarrow> data" and q' u
  assume S: "P S \<and> gm_get (S q) k = Some v" and o: "okk q' (sha256 E u) \<and> \<not> (q' = q \<and> sha256 E u = k)"
  have "P (S(q' := gm_set (sha256 E u) u (S q')))" using stores_okD(1) [OF assms] S o by blast
  with S o show "P (S(q' := gm_set (sha256 E u) u (S q'))) \<and> gm_get ((S(q' := gm_set (sha256 E u) u (S q'))) q) k = Some v"
    by auto
next
  fix S :: "nat \<Rightarrow> data" and q' k'
  assume S: "P S \<and> gm_get (S q) k = Some v" and n: "\<not> (okk q' k' \<and> \<not> (q' = q \<and> k' = k))"
  then have "okk q' k' \<or> gm_get (S q') k' \<noteq> None" by (intro stores_okD(2) [OF assms]) simp
  with S n show "gm_get (S q') k' \<noteq> None" by auto
qed

text \<open>The invariant seen by a data store whose data is detached from the world.\<close>

abbreviation at_store :: "(SimulatedHub \<Rightarrow> bool) \<Rightarrow> ((nat \<Rightarrow> data) \<Rightarrow> bool) \<Rightarrow> nat \<Rightarrow> data \<times> sim_world \<Rightarrow> bool" where
  "at_store B P q st \<equiv> sim_inv B P (put_store q (fst st) (snd st))"

lemma at_store_insert:
  assumes "stores_ok E P okk" and "at_store B P q (d, w)" and "gm_get d (sha256 E v) = None"
  shows "at_store B P q (gm_set (sha256 E v) v d, w)"
proof -
  have "P ((stores w)(q := d))" using assms(2) by (simp add: sim_inv_def)
  with stores_okD [OF assms(1) this, of q] assms(2,3) show ?thesis
    by (fastforce simp: sim_inv_def)
qed

lemma ds_at_data [simp]: "ds_data (ds_at C F q w) = stores w q" "recordFetcher (ds_at C F q w) = F q"
  "maxValSize (ds_at C F q w) = cf_maxValSize C q"
  by (simp_all add: ds_at_def)

lemma validate_at_inv:
  assumes "sim_inv B P w" and "fetcher_inv (at_store B P q) (F q)"
  shows "sim_inv B P (snd (validate_at E C F q k d w))"
proof (cases "classify E (cf_maxValSize C q) k d")
  case (Inr c)
  show ?thesis
  proof (cases c)
    case (Some lp)
    obtain r ds1 w1 where v: "validateLatestPointerWithExisting E (ds_at C F q w) lp
        (existing_pointer E (gm_get (stores w q) k)) False w = (r, ds1, w1)"
      by (cases "validateLatestPointerWithExisting E (ds_at C F q w) lp (existing_pointer E (gm_get (stores w q) k)) False w")
    have "at_store B P q (ds_data ds1, w1)"
      by (rule validate_state_inv [where J = "at_store B P q", OF v]) (use assms in simp_all)
    with v Inr Some show ?thesis by (simp add: validate_at_def DataStore_Validate_def)
  qed (use assms Inr in \<open>simp add: validate_at_def DataStore_Validate_def\<close>)
qed (use assms in \<open>simp add: validate_at_def DataStore_Validate_def\<close>)

lemma store_at_content:
  assumes "sim_inv B P w" and "stores_ok E P okk" and "okk q (sha256 E d)"
  shows "\<exists>r w'. store_at E C F q (sha256 E d) d w = Some (r, w') \<and> sim_inv B P w'"
proof -
  have "P ((stores w)(q := gm_set (sha256 E d) d (stores w q)))"
    using stores_okD(1) [OF assms(2) _ assms(3)] assms(1) by (simp add: sim_inv_def)
  with assms(1) show ?thesis
    by (auto simp: store_at_def DataStore_Store_def classify_def sim_inv_def)
qed

text \<open>A node of the network meets the contract of the lookups.\<close>

lemma sim_kad_net:
  assumes "0 < kad_alpha K" and "stores_ok E P okk" and "hub_ok C B"
    and "\<And>q. fetcher_inv (at_store B P q) (F q)"
  shows "kad_net E (sim_ops E C F K) (sim_inv B P) (okk (the (kad_DataStore K)))"
proof
  fix w :: sim_world and c :: Contact and t key :: KademliaID and data :: bytes
  assume v: "sim_inv B P w"
  show "\<exists>r w'. op_FindContact (sim_ops E C F K) t c w = Some (r, w') \<and> sim_inv B P w'"
    and "\<exists>r w'. op_FindData (sim_ops E C F K) t c w = Some (r, w') \<and> sim_inv B P w'"
    using Sim_SendFindContact_ok [OF assms(3) v] Sim_SendFindData_ok [OF assms(3) v] by (simp_all add: sim_ops_def)
  show "sim_inv B P (snd (op_ds_Validate (sim_ops E C F K) key data w))"
    using validate_at_inv [where F = F, OF v assms(4)] by (simp add: sim_ops_def)
  assume "okk (the (kad_DataStore K)) key" "sha256 E data = key"
  then show "\<exists>r w'. op_ds_Store (sim_ops E C F K) key data w = Some (r, w') \<and> sim_inv B P w'"
    using store_at_content [OF v assms(2), of _ data] by (simp add: sim_ops_def)
qed (use assms(1) in \<open>auto simp: sim_ops_def sim_inv_def tables_wf_def intro: RoutingTable_AddContact_wf\<close>)

text \<open>The nodes that fetchers belong to, as \<^verbatim>\<open>NewKademlia\<close> makes them.\<close>

definition cfg_ok :: "sim_config \<Rightarrow> bool" where
  "cfg_ok C \<longleftrightarrow> (\<forall>q K. cf_fetcher C q = Some K \<longrightarrow> 0 < kad_alpha K \<and> kad_DataStore K = Some q)"

lemma sim_fetch_inv:
  assumes "cfg_ok C" and "stores_ok E P okk" and "hub_ok C B"
  shows "fetcher_inv (at_store B P q) (sim_fetchers E C n q)"
proof (induction n arbitrary: q)
  case 0
  then show ?case by (auto simp: fetcher_inv_def sim_fetchers_def put_store_def sim_inv_def tables_wf_def)
next
  case (Suc n)
  show ?case
    unfolding fetcher_inv_def
  proof (intro allI impI)
    fix fetch st h
    assume "sim_fetchers E C (Suc n) q = Some fetch" and st: "at_store B P q st"
    then obtain K where K: "cf_fetcher C q = Some K" "fetch = sim_fetch E C (Suc n) K q"
      by (auto simp: sim_fetchers_def)
    have a: "0 < kad_alpha K" "kad_DataStore K = Some q" using assms(1) K(1) by (auto simp: cfg_ok_def)
    have net: "kad_net E (sim_node E C n K) (sim_inv B P) (okk q)"
      using sim_kad_net [OF a(1) assms(2,3) Suc.IH] a(2) by simp
    have "P ((stores (snd st))(q := fst st))" using st by (simp add: sim_inv_def)
    from stores_okD(2) [OF assms(2) this, of q "NewKademliaID h"]
    have "sim_inv B P (snd (kad_getter E (sim_node E C n K) (put_store q (fst st) (snd st)) h))"
      by (intro kad_net.kad_getter_keeps [OF net st]) (simp add: sim_ops_def a(2))
    then show "at_store B P q (snd (fetch st h))"
      by (auto simp: K(2) sim_fetchers_def [abs_def] split: prod.splits)
  qed
qed

end
