(* ===== verification/Kad_Sim_Node.thy ===== *)
theory Kad_Sim_Node
  imports Kad_SimNet
begin

text \<open>
  The nodes of a simulated network meet the contracts \<open>kad_net\<close>, \<open>kad_node\<close> and \<open>kad_force\<close>, for every
  depth of the stack and whatever the network holds.  The invariants are \<open>sim_valid\<close> (the routing
  tables are well-formed) and \<open>sim_sound\<close> (in addition every data store holds only content under its
  hash and pointers under their key, and the counters of the hub add up).
\<close>

section \<open>Storing at an address\<close>

definition put_ok ::
  "'e reg_env_scheme \<Rightarrow> sim_config \<Rightarrow> ((nat \<Rightarrow> data) \<Rightarrow> bool) \<Rightarrow> KademliaID \<Rightarrow> bytes \<Rightarrow> bool" where
  "put_ok E C P k d \<longleftrightarrow>
     (\<forall>S q c. P S \<longrightarrow> classify E (cf_maxValSize C q) k d = Inr c \<longrightarrow> P (S(q := gm_set k d (S q))))"

text \<open>The fetchers also keep an entry that is there.\<close>

lemma at_store_present:
  "at_store B (\<lambda>S. P S \<and> gm_get (S q) k = Some v) q st \<longleftrightarrow> at_store B P q st \<and> gm_get (fst st) k = Some v"
  by (auto simp: sim_inv_def)

lemma store_at_ok:
  assumes "sim_inv B P w" and "cfg_ok C" and "stores_ok E P okk" and "hub_ok C B" and "put_ok E C P k d"
  shows "\<exists>r w'. store_at E C (sim_fetchers E C n) q k d w = Some (r, w') \<and> sim_inv B P w'"
proof -
  let ?J = "at_store B P q"
  have "\<exists>r ds1 w1. DataStore_Store E (ds_at C (sim_fetchers E C n) q w) k d w = Some (r, ds1, w1) \<and> ?J (ds_data ds1, w1)"
  proof (rule DataStore_Store_ok [where J = ?J])
    show "?J (ds_data (ds_at C (sim_fetchers E C n) q w), w)" using assms(1) by simp
    show "?J (gm_set (sha256 E v) v e, u)" if "?J (e, u)" "gm_get e (sha256 E v) = None" for e u v
      by (rule at_store_insert [OF assms(3) that])
    show "?J (gm_set k d e, u)"
      if "?J (e, u)" "classify E (maxValSize (ds_at C (sim_fetchers E C n) q w)) k d = Inr c" for e u c
    proof -
      have "P ((stores u)(q := e))" using that(1) by (simp add: sim_inv_def)
      then have "P (((stores u)(q := e))(q := gm_set k d (((stores u)(q := e)) q)))"
        using assms(5) that(2) unfolding put_ok_def ds_at_data by blast
      with that(1) show ?thesis by (simp add: sim_inv_def)
    qed
    show "fetcher_inv ?J (recordFetcher (ds_at C (sim_fetchers E C n) q w))"
      using sim_fetch_inv [OF assms(2-4)] by simp
    show "fetcher_inv (\<lambda>st. ?J st \<and> gm_get (fst st) k = Some v) (recordFetcher (ds_at C (sim_fetchers E C n) q w))" for v
      using sim_fetch_inv [OF assms(2) stores_ok_present [OF assms(3), of q k v] assms(4), of q n]
      unfolding at_store_present ds_at_data .
  qed
  then show ?thesis by (auto simp: store_at_def)
qed

lemma Sim_SendStore_ok:
  assumes "sim_inv B P w" and "cfg_ok C" and "stores_ok E P okk" and "hub_ok C B" and "put_ok E C P k d"
  shows "\<exists>r w'. Sim_SendStore E C (sim_fetchers E C n) net c (Some k) d w = Some (r, w') \<and> sim_inv B P w'"
proof (cases "c = None \<or> ID (the c) = None \<or> \<not> sn_hub net")
  case True
  then show ?thesis using assms(1) by (auto simp: Sim_SendStore_def split: option.splits)
next
  case False
  then obtain c' where [simp]: "c = Some c'" "ID c' \<noteq> None" "sn_hub net" by auto
  obtain r h where d: "dispatch C (Address c') (hub w) = (r, h)" by (cases "dispatch C (Address c') (hub w)")
  note inv = sim_inv_dispatch [OF assms(4) d assms(1)]
  show ?thesis
  proof (cases r)
    case (Inl e)
    with d inv show ?thesis by (simp add: Sim_SendStore_def)
  next
    case (Inr t)
    obtain w1 where w1: "learn (cf_nets C t) (sn_me net) (w\<lparr>hub := h\<rparr>) = Some w1" "sim_inv B P w1"
      using learn_ok [OF inv] by blast
    show ?thesis
    proof (cases "sn_ds (cf_nets C t)")
      case None
      with d Inr w1 show ?thesis by (simp add: Sim_SendStore_def)
    next
      case (Some q)
      obtain r' w2 where "store_at E C (sim_fetchers E C n) q k d w1 = Some (r', w2)" "sim_inv B P w2"
        using store_at_ok [OF w1(2) assms(2-5)] by blast
      with d Inr Some w1 show ?thesis by (simp add: Sim_SendStore_def)
    qed
  qed
qed

section \<open>The contracts\<close>

lemma sim_node_net:
  assumes "0 < kad_alpha K" and "cfg_ok C" and "stores_ok E P okk" and "hub_ok C B"
  shows "kad_net E (sim_node E C n K) (sim_inv B P) (okk (the (kad_DataStore K)))"
  by (rule sim_kad_net [OF assms(1,3,4) sim_fetch_inv [OF assms(2-4)]])

lemma sim_node_node:
  assumes "0 < kad_alpha K" and "cfg_ok C" and "stores_ok E P (\<lambda>_ _. True)" and "hub_ok C B"
    and "\<And>k d. put_ok E C P k d"
  shows "kad_node E (sim_node E C n K) (sim_inv B P) (\<lambda>_. True)"
proof (intro kad_node.intro kad_store.intro)
  show "kad_net E (sim_node E C n K) (sim_inv B P) (\<lambda>_. True)"
    using sim_node_net [OF assms(1-4)] .
  have ping: "\<exists>r w'. op_SendPing (sim_node E C n K) p w = Some (r, w') \<and> sim_inv B P w'" if "sim_inv B P w" for p w
    using Sim_SendPing_ok [OF assms(4) that] by (simp add: sim_ops_def)
  show "kad_node_axioms (sim_node E C n K) (sim_inv B P)"
    by (rule kad_node_axioms.intro [OF ping])
  show "kad_store_axioms (sim_node E C n K) (sim_inv B P) (\<lambda>_. True)"
  proof
    fix w :: sim_world and c :: Contact and k :: KademliaID and d :: bytes
    assume v: "sim_inv B P w"
    show "\<exists>r w'. op_SendStore (sim_node E C n K) c k d w = Some (r, w') \<and> sim_inv B P w'"
      using Sim_SendStore_ok [OF v assms(2-5)] by (simp add: sim_ops_def)
    show "\<exists>r w'. op_SendPing (sim_node E C n K) (Some c) w = Some (r, w') \<and> sim_inv B P w'"
      by (rule ping [OF v])
    show "\<exists>r w'. op_ds_Store (sim_node E C n K) k d w = Some (r, w') \<and> sim_inv B P w'"
      using store_at_ok [OF v assms(2-5)] by (simp add: sim_ops_def)
  qed simp
qed

text \<open>The configuration is part of the invariants, so that the contracts hold without a hypothesis.\<close>

lemma kad_node_guarded:
  assumes "c \<Longrightarrow> kad_node E N V K" and "0 < op_alpha N" and "\<And>w ps. mset (op_arrival N w ps) = mset ps"
    and "\<And>k. K k"
  shows "kad_node E N (\<lambda>w. c \<and> V w) K"
proof (rule kad_node.intro)
  show "kad_store E N (\<lambda>w. c \<and> V w) K"
    by (rule kad_store_guarded) (use assms kad_node.axioms(1) in blast)+
  show "kad_node_axioms N (\<lambda>w. c \<and> V w)"
    using kad_node.SendPing_None [OF assms(1)] by (auto intro!: kad_node_axioms.intro)
qed

definition sim_valid :: "sim_config \<Rightarrow> sim_world \<Rightarrow> bool" where
  "sim_valid C w \<longleftrightarrow> cfg_ok C \<and> sim_inv (\<lambda>_. True) (\<lambda>_. True) w"

definition hub_balanced :: "SimulatedHub \<Rightarrow> bool" where
  "hub_balanced h \<longleftrightarrow> totalProbes h = successfulProbes h + droppedProbes h"

definition stores_sound :: "'e reg_env_scheme \<Rightarrow> (nat \<Rightarrow> data) \<Rightarrow> bool" where
  "stores_sound E S \<longleftrightarrow> (\<forall>q. data_ok E (S q))"

definition sim_sound :: "'e reg_env_scheme \<Rightarrow> sim_config \<Rightarrow> sim_world \<Rightarrow> bool" where
  "sim_sound E C w \<longleftrightarrow> cfg_ok C \<and> sim_inv hub_balanced (stores_sound E) w"

lemma sim_node_simps [simp]:
  "op_alpha (sim_ops E C F K) = kad_alpha K" "op_Me (sim_ops E C F K) = Me K"
  "op_has_rt (sim_ops E C F K) = (kad_RoutingTable K \<noteq> None)"
  "op_has_net (sim_ops E C F K) = (kad_Network K \<noteq> None)"
  "op_has_ds (sim_ops E C F K) = (kad_DataStore K \<noteq> None)"
  "mset (op_arrival (sim_ops E C F K) w ps) = mset ps"
  "op_ds_Get (sim_ops E C F K) w = gm_get (stores w (the (kad_DataStore K)))"
  by (simp_all add: sim_ops_def)

lemma hub_ok_simps: "hub_ok C (\<lambda>_. True)" "hub_ok C hub_balanced"
  by (auto simp: hub_ok_def hub_balanced_def dispatch_def Let_def split: option.split if_splits)

lemma stores_sound_ok: "stores_ok E (stores_sound E) (\<lambda>_ _. True)" "put_ok E C (stores_sound E) k d"
  using classify_value_ok by (fastforce simp: stores_ok_def put_ok_def stores_sound_def intro: data_ok_set)+

interpretation sim: kad_force E "sim_node E C n (NewKademlia self net rt ds a)" "sim_valid C" "\<lambda>_. True"
  for E :: "'e reg_env_scheme" and C n self net rt ds a
proof (rule kad_force.intro)
  show "kad_node E (sim_node E C n (NewKademlia self net rt ds a)) (sim_valid C) (\<lambda>_. True)"
    unfolding sim_valid_def [abs_def]
    by (rule kad_node_guarded, rule sim_node_node) (simp_all add: stores_ok_def put_ok_def hub_ok_simps)
  show "kad_force_axioms (sim_node E C n (NewKademlia self net rt ds a)) (sim_valid C)"
    by unfold_locales (simp add: sim_valid_def sim_inv_def sim_ops_def)
qed

interpretation sound: kad_node E "sim_node E C n (NewKademlia self net rt ds a)" "sim_sound E C" "\<lambda>_. True"
  for E :: "'e reg_env_scheme" and C n self net rt ds a
  unfolding sim_sound_def [abs_def]
  by (rule kad_node_guarded, rule sim_node_node) (simp_all add: hub_ok_simps stores_sound_ok)

lemma validate_at_value_ok: "validate_at E C F q k d w = (Inr (), w') \<Longrightarrow> value_ok E k d"
  by (auto simp: validate_at_def intro: Validate_value_ok split: prod.splits)

interpretation sim_values: kad_sound E "sim_node E C n (NewKademlia self net rt ds a)" "sim_sound E C" "\<lambda>_. True"
  for E :: "'e reg_env_scheme" and C n self net rt ds a
proof
  fix w w' and k :: KademliaID and d :: bytes
  let ?N = "sim_node E C n (NewKademlia self net rt ds a)"
  show "value_ok E k d" if "sim_sound E C w" "op_ds_Get ?N w k = Some d"
    using that by (auto simp: sim_sound_def sim_inv_def stores_sound_def data_ok_def)
  show "value_ok E k d" if "op_ds_Validate ?N k d w = (Inr (), w')"
    using that by (simp add: sim_ops_def validate_at_value_ok)
qed

end
