(* ===== verification/Kad_Sim_Props.thy ===== *)
theory Kad_Sim_Props
  imports Kad_Sim_Node
begin

text \<open>
  What the nodes of a simulated network do, whatever its state, its losses and the order in which
  answers arrive: lookups return, values are authentic, publications reach the closest nodes, and the
  invariants of tables, stores and counters are kept.
\<close>

section \<open>A network for the examples\<close>

text \<open>
  Node 0 has the table of \<open>demo_rt\<close>; the contacts there all have the address node 1 is registered at.
\<close>

definition demo_node :: Kademlia where
  "demo_node = NewKademlia (peer []) (Some 0) (Some 0) (Some 0) 0"

definition demo_cfg :: sim_config where
  "demo_cfg = \<lparr>cf_nets = (\<lambda>r. \<lparr>sn_me = peer (if r = 0 then [] else [0x80]), sn_rt = Some r, sn_ds = Some r, sn_hub = True\<rparr>),
     cf_maxValSize = (\<lambda>_. DefaultMaxValSize), cf_resolver = (\<lambda>_. None),
     cf_fetcher = (\<lambda>_. None), cf_rolls = (\<lambda>_. 0), cf_order = (\<lambda>_ _. 0)\<rparr>"

definition demo_world :: sim_world where
  "demo_world = \<lparr>hub = Register demo_cfg NewSimulatedHub 1,
     tables = (\<lambda>r. if r = 0 then demo_rt else NewRoutingTable (peer [0x80])),
     stores = (\<lambda>_. gm_empty), overflow = False\<rparr>"

lemma demo_world_inv: "B (hub demo_world) \<Longrightarrow> P (\<lambda>_. gm_empty) \<Longrightarrow> sim_inv B P demo_world"
  by (auto simp: sim_inv_def tables_wf_def demo_world_def demo_rt_wf peer_def NewContact_def intro: rt_wf_New)

lemma demo_sim_valid: "sim_valid demo_cfg demo_world"
  by (simp add: sim_valid_def demo_world_inv cfg_ok_def demo_cfg_def)

lemma demo_sim_sound: "sim_sound E demo_cfg demo_world"
proof -
  have "hub_balanced (hub demo_world)"
    by (simp add: hub_balanced_def demo_world_def Register_def NewSimulatedHub_def)
  then show ?thesis
    by (simp add: sim_sound_def demo_world_inv stores_sound_def data_ok_def gm_empty_def gm_wf_def gm_get_def
        cfg_ok_def demo_cfg_def)
qed

section \<open>Lookups\<close>

text \<open>
  C6. A node lookup always returns, whatever the other nodes answer: with at most ten contacts, each
  with an identifier, in strictly increasing order of their distance to the target.
\<close>

theorem LookupContactByID_returns:
  assumes "sim_valid C w"
  shows "\<exists>cs w'. LookupContactByID (sim_node E C n (NewKademlia self net rt ds a)) target w = Some (cs, w') \<and>
    sim_valid C w' \<and> length cs \<le> bucketSize \<and> list_all (\<lambda>c. ID c \<noteq> None) cs \<and> sorted_wrt (<) (map cdist cs)"
  by (rule sim.LookupContactByID_total [OF assms])

theorem LookupContactByID_returns_witness:
  "sim_valid demo_cfg demo_world \<and>
    (\<exists>cs w'. LookupContactByID (sim_node demo_env demo_cfg 1 (NewKademlia (peer []) (Some 0) (Some 0) (Some 0) 0))
       (Some (mk_id [0x40])) demo_world = Some (cs, w') \<and>
    sim_valid demo_cfg w' \<and> length cs \<le> bucketSize \<and> list_all (\<lambda>c. ID c \<noteq> None) cs \<and> sorted_wrt (<) (map cdist cs))"
  using LookupContactByID_returns [OF demo_sim_valid] demo_sim_valid by blast



lemma lookup_value_ok:
  assumes "sim_sound E C w"
  shows "\<exists>r w'. LookupDataByID E (sim_node E C n (NewKademlia self net rt ds a)) (Some t) w = Some (r, w') \<and>
    sim_sound E C w' \<and>
    (case r of
       Inl e \<Rightarrow> e = ErrValueNotFound \<and> (\<forall>q. ds = Some q \<longrightarrow> gm_get (stores w q) t = None)
     | Inr (d, c) \<Rightarrow> value_ok E t d)"
proof -
  let ?N = "sim_node E C n (NewKademlia self net rt ds a)"
  obtain r w' where "LookupDataByID E ?N (Some t) w = Some (r, w')" "sim_sound E C w'"
    "case r of Inl e \<Rightarrow> e = ErrValueNotFound \<and> \<not> (op_has_ds ?N \<and> op_ds_Get ?N w t \<noteq> None)
     | Inr (d, c) \<Rightarrow> value_ok E t d"
    using sim_values.lookup_sound [OF assms] by blast
  then show ?thesis by (intro exI [of _ r] exI [of _ w']) (auto split: sum.splits)
qed



section \<open>Publishing\<close>

text \<open>A hub without losses, with its registrations.\<close>

definition lossless :: "(string, nat) gomap \<Rightarrow> SimulatedHub \<Rightarrow> bool" where
  "lossless reg h \<longleftrightarrow> nodes h = reg \<and> packetLoss h \<le> 0"

lemma hub_ok_lossless: "hub_ok C (lossless reg)"
  by (auto simp: hub_ok_def lossless_def dispatch_def Let_def split: option.split if_splits)

definition fits :: "sim_config \<Rightarrow> nat \<Rightarrow> bytes \<Rightarrow> bool" where
  "fits C q d \<longleftrightarrow> cf_maxValSize C q \<le> 0 \<or> int (length d) \<le> cf_maxValSize C q"

lemma store_at_content_eq:
  assumes "fits C q d"
  shows "store_at E C F q (sha256 E d) d w = Some (Inr (), put_store q (gm_set (sha256 E d) d (stores w q)) w)"
  using assms by (auto simp: store_at_def DataStore_Store_def classify_def fits_def)

text \<open>A delivered STORE of content is stored at the target.\<close>

lemma Sim_SendStore_delivered:
  assumes "sim_inv (lossless reg) P w" and "gm_get reg (Address c) = Some t" and "sn_ds (cf_nets C t) = Some q"
    and "fits C q d" and "ID c \<noteq> None" and "sn_hub net"
  shows "\<exists>w'. Sim_SendStore E C F net (Some c) (Some (sha256 E d)) d w = Some (Inr (), w') \<and>
    gm_get (stores w' q) (sha256 E d) = Some d"
proof -
  obtain h where h: "dispatch C (Address c) (hub w) = (Inr t, h)" "lossless reg h"
    using assms(1,2) by (auto simp: sim_inv_def lossless_def dispatch_def Let_def split: if_splits)
  have "sim_inv (\<lambda>_. True) (\<lambda>_. True) (w\<lparr>hub := h\<rparr>)" using assms(1) by (simp add: sim_inv_def tables_wf_def)
  then obtain w1 where "learn (cf_nets C t) (sn_me net) (w\<lparr>hub := h\<rparr>) = Some w1"
    using learn_ok by blast
  with h assms(3-6) show ?thesis by (simp add: Sim_SendStore_def store_at_content_eq)
qed

text \<open>An entry of content stays while STORE messages for the same content go around.\<close>

definition holds :: "nat \<Rightarrow> KademliaID \<Rightarrow> bytes \<Rightarrow> (nat \<Rightarrow> data) \<Rightarrow> bool" where
  "holds q k d S \<longleftrightarrow> gm_get (S q) k = Some d"

lemma holds_ok:
  "stores_ok E (holds q k d) (\<lambda>q' k'. \<not> (q' = q \<and> k' = k))" "put_ok E C (holds q k d) k d"
  by (auto simp: stores_ok_def put_ok_def holds_def)

lemma stores_True_ok: "stores_ok E (\<lambda>_. True) (\<lambda>_ _. True)" "put_ok E C (\<lambda>_. True) k d"
  by (simp_all add: stores_ok_def put_ok_def)

lemma send_stores_inv:
  assumes "cfg_ok C" and "0 < kad_alpha K" and "stores_ok E P okk" and "hub_ok C B" and "put_ok E C P k d"
    and "sim_inv B P w" and "list_all (\<lambda>c. ID c \<noteq> None) cs"
  shows "\<exists>w'. send_stores (sim_node E C n K) k d cs w = Some w' \<and> sim_inv B P w'"
proof (rule kad_net.send_stores_keeps [OF sim_node_net [OF assms(2,1,3,4)] _ assms(6,7)])
  fix w c assume "sim_inv B P w"
  from Sim_SendStore_ok [OF this assms(1,3,4,5)]
  show "\<exists>r w'. op_SendStore (sim_node E C n K) c k d w = Some (r, w') \<and> sim_inv B P w'"
    by (simp add: sim_ops_def)
qed

lemma send_stores_delivered:
  assumes "cfg_ok C" and "0 < kad_alpha K" and "kad_Network K = Some net" and "sn_hub (cf_nets C net)"
  shows "sim_inv (lossless reg) (\<lambda>_. True) w \<Longrightarrow> list_all (\<lambda>c. ID c \<noteq> None) cs \<Longrightarrow>
    send_stores (sim_node E C n K) (sha256 E d) d cs w = Some w' \<Longrightarrow>
    c \<in> set cs \<Longrightarrow> ID c \<noteq> ID (Me K) \<Longrightarrow> gm_get reg (Address c) = Some t \<Longrightarrow> sn_ds (cf_nets C t) = Some q \<Longrightarrow>
    fits C q d \<Longrightarrow> gm_get (stores w' q) (sha256 E d) = Some d"
proof (induction cs arbitrary: w)
  case (Cons x xs)
  note send = Sim_SendStore_ok [OF Cons.prems(1) assms(1) stores_True_ok(1) hub_ok_lossless stores_True_ok(2)]
  show ?case
  proof (cases "same_id (ID (Me K)) x")
    case True
    with Cons show ?thesis by (cases "x = c") auto
  next
    case False
    obtain r w1 where w1: "Sim_SendStore E C (sim_fetchers E C n) (cf_nets C net) (Some x) (Some (sha256 E d)) d w = Some (r, w1)"
      "sim_inv (lossless reg) (\<lambda>_. True) w1" using send by blast
    have rest: "send_stores (sim_node E C n K) (sha256 E d) d xs w1 = Some w'"
      using Cons.prems(3) False w1(1) assms(3) by (simp add: sim_ops_def del: same_id_iff)
    show ?thesis
    proof (cases "x = c")
      case True
      have "gm_get (stores w1 q) (sha256 E d) = Some d"
        using Sim_SendStore_delivered [OF Cons.prems(1,6-8), of "cf_nets C net" E "sim_fetchers E C n"]
          Cons.prems(2) True w1(1) assms(4) by auto
      then have "sim_inv (lossless reg) (holds q (sha256 E d) d) w1"
        using w1(2) by (simp add: sim_inv_def holds_def)
      moreover have "list_all (\<lambda>c. ID c \<noteq> None) xs" using Cons.prems(2) by simp
      ultimately obtain w2 where "send_stores (sim_node E C n K) (sha256 E d) d xs w1 = Some w2"
        "sim_inv (lossless reg) (holds q (sha256 E d) d) w2"
        using send_stores_inv [OF assms(1,2) holds_ok(1) hub_ok_lossless holds_ok(2)] by blast
      with rest show ?thesis by (simp add: sim_inv_def holds_def)
    next
      case ne: False
      with Cons.IH [OF w1(2) _ rest] Cons.prems show ?thesis by simp
    qed
  qed
qed simp

text \<open>
  C5. Publishing content over a loss-free network: the key is the hash of the data, the node holds the
  data, and so does every other node among the closest ones it found that is registered under the
  address of its contact and has room for it.
\<close>

theorem Kademlia_Store_replicas:
  assumes "sim_valid C w" and "N = sim_node E C n (NewKademlia self (Some net) (Some rt) (Some q) a)"
    and "d \<noteq> []" and "fits C q d" and "packetLoss (hub w) \<le> 0" and "sn_hub (cf_nets C net)"
  shows "\<exists>cs w1 w'. Kademlia_Store E N d w = Some (Inr (sha256 E d), w') \<and> sim_valid C w' \<and>
    LookupContactByID N (Some (sha256 E d)) (put_store q (gm_set (sha256 E d) d (stores w q)) w) = Some (cs, w1) \<and>
    LookupDataByID E N (Some (sha256 E d)) w' = Some (Inr (d, self), w') \<and>
    (\<forall>c t q'. c \<in> set cs \<longrightarrow> ID c \<noteq> ID self \<longrightarrow> gm_get (nodes (hub w)) (Address c) = Some t \<longrightarrow>
      sn_ds (cf_nets C t) = Some q' \<longrightarrow> fits C q' d \<longrightarrow> gm_get (stores w' q') (sha256 E d) = Some d)"
proof -
  let ?K = "NewKademlia self (Some net) (Some rt) (Some q) a" and ?k = "sha256 E d"
  let ?w0 = "put_store q (gm_set ?k d (stores w q)) w" and ?reg = "nodes (hub w)"
  have C: "cfg_ok C" using assms(1) by (simp add: sim_valid_def)
  have H: "sim_inv (lossless ?reg) (holds q ?k d) ?w0"
    using assms(1,5) by (simp add: sim_valid_def sim_inv_def lossless_def holds_def)
  note net = sim_node_net [OF NewKademlia_simps(1) C holds_ok(1) hub_ok_lossless]
  obtain cs w1 where l: "LookupContactByID N (Some ?k) ?w0 = Some (cs, w1)" "sim_inv (lossless ?reg) (holds q ?k d) w1"
    "list_all (\<lambda>c. ID c \<noteq> None) cs"
    using kad_net.LookupContactByID_total [OF net H] unfolding assms(2) by blast
  obtain w' where s: "send_stores N ?k d cs w1 = Some w'" "sim_inv (lossless ?reg) (holds q ?k d) w'"
    using send_stores_inv [OF C NewKademlia_simps(1) holds_ok(1) hub_ok_lossless holds_ok(2) l(2,3)] unfolding assms(2) by blast
  have "op_ds_Store N ?k d w = Some (Inr (), ?w0)"
    using store_at_content_eq [OF assms(4)] by (simp add: assms(2) sim_ops_def)
  with l s(1) assms(3) have st: "Kademlia_Store E N d w = Some (Inr ?k, w')"
    by (simp add: Kademlia_Store_def StoreWithKey_def publish_def LookupContact_def NewContact_def
        NewKademliaIDFromData_def assms(2))
  have held: "gm_get (stores w' q) ?k = Some d" using s(2) by (simp add: sim_inv_def holds_def)
  then have loc: "LookupDataByID E N (Some ?k) w' = Some (Inr (d, self), w')"
    by (simp add: LookupDataByID_def assms(2))
  have "sim_inv (lossless ?reg) (\<lambda>_. True) w1" using l(2) by (simp add: sim_inv_def)
  from send_stores_delivered [OF C NewKademlia_simps(1) NewKademlia_simps(4) assms(6) this l(3) s(1) [unfolded assms(2)]]
  have "gm_get (stores w' q') ?k = Some d"
    if "c \<in> set cs" "ID c \<noteq> ID self" "gm_get ?reg (Address c) = Some t" "sn_ds (cf_nets C t) = Some q'" "fits C q' d" for c t q'
    using that by simp
  moreover have "sim_valid C w'" using s(2) C by (simp add: sim_valid_def sim_inv_def)
  ultimately show ?thesis using st l(1) loc by blast
qed

theorem Kademlia_Store_replicas_witness:
  "\<exists>w'. Kademlia_Store demo_env (sim_node demo_env demo_cfg 1 (NewKademlia (peer []) (Some 0) (Some 0) (Some 0) 0))
      [1] demo_world = Some (Inr (sha256 demo_env [1]), w') \<and>
    LookupDataByID demo_env (sim_node demo_env demo_cfg 1 (NewKademlia (peer []) (Some 0) (Some 0) (Some 0) 0))
      (Some (sha256 demo_env [1])) w' = Some (Inr ([1], peer []), w')"
proof -
  have "fits demo_cfg 0 [1]" by (simp add: fits_def demo_cfg_def DefaultMaxValSize_def)
  moreover have "packetLoss (hub demo_world) \<le> 0" "sn_hub (cf_nets demo_cfg 0)"
    by (simp_all add: demo_world_def Register_def NewSimulatedHub_def demo_cfg_def)
  ultimately show ?thesis
    using Kademlia_Store_replicas [OF demo_sim_valid refl, of "[1]" 0 0 demo_env 1 "peer []" 0 0] by blast
qed

section \<open>The invariants of the network\<close>

text \<open>Operations of any nodes of the network, one after the other; a node is given as to \<^verbatim>\<open>NewKademlia\<close>.\<close>

type_synonym node_args = "Contact \<times> nat option \<times> nat option \<times> nat option \<times> int"

fun sim_run ::
  "'e reg_env_scheme \<Rightarrow> sim_config \<Rightarrow> nat \<Rightarrow> (node_args \<times> node_op) list \<Rightarrow> sim_world \<Rightarrow> sim_world option" where
  "sim_run E C n [] w = Some w"
| "sim_run E C n (((self, net, rt, ds, a), op) # ops) w =
     Option.bind (node_step E (sim_node E C n (NewKademlia self net rt ds a)) op w) (sim_run E C n ops)"



text \<open>
  C37. \<^verbatim>\<open>StoreWithKeyForce\<close> skips the validation of the node's own store only: whatever it forces under
  a key, the stores of all other nodes stay sound, because they validate what they are sent.
\<close>

theorem StoreWithKeyForce_isolated:
  assumes "sim_sound E C w" and "d \<noteq> []"
  shows "\<exists>w'. StoreWithKeyForce (sim_node E C n (NewKademlia self net rt (Some q) a)) (Some k) d w = Some (Inr (), w') \<and>
    sim_valid C w' \<and> (\<forall>q'. q' \<noteq> q \<longrightarrow> data_ok E (stores w' q'))"
proof -
  let ?N = "sim_node E C n (NewKademlia self net rt (Some q) a)" and ?P = "\<lambda>S. \<forall>q'. q' \<noteq> q \<longrightarrow> data_ok E (S q')"
  have C: "cfg_ok C" using assms(1) by (simp add: sim_sound_def)
  have P: "stores_ok E ?P (\<lambda>_ _. True)" "\<And>k d. put_ok E C ?P k d"
    using classify_value_ok by (fastforce simp: stores_ok_def put_ok_def intro: data_ok_set)+
  have hub: "hub_ok C (\<lambda>_. True)" by (rule hub_ok_simps)
  have f: "kad_force E ?N (sim_inv (\<lambda>_. True) ?P) (\<lambda>_. True)"
  proof (rule kad_force.intro)
    show "kad_node E ?N (sim_inv (\<lambda>_. True) ?P) (\<lambda>_. True)"
      by (rule sim_node_node [OF _ C P(1) hub P(2)]) simp
    show "kad_force_axioms ?N (sim_inv (\<lambda>_. True) ?P)"
      by unfold_locales (simp add: sim_inv_def sim_ops_def)
  qed
  have w: "sim_inv (\<lambda>_. True) ?P w" using assms(1) by (simp add: sim_sound_def sim_inv_def stores_sound_def)
  from kad_force.StoreWithKeyForce_ok [OF f w assms(2), of k] obtain w' where "StoreWithKeyForce ?N (Some k) d w = Some (Inr (), w')" "sim_inv (\<lambda>_. True) ?P w'" by (elim exE conjE)
  with C show ?thesis by (simp add: sim_valid_def sim_inv_def)
qed

theorem StoreWithKeyForce_isolated_witness:
  "\<exists>w'. StoreWithKeyForce (sim_node demo_env demo_cfg 1 (NewKademlia (peer []) (Some 0) (Some 0) (Some 0) 0))
      (Some (mk_id [7])) [1] demo_world = Some (Inr (), w') \<and>
    sim_valid demo_cfg w' \<and> (\<forall>q'. q' \<noteq> 0 \<longrightarrow> data_ok demo_env (stores w' q'))"
proof -
  have "[1 :: byte] \<noteq> []" by simp
  from StoreWithKeyForce_isolated [OF demo_sim_sound this] show ?thesis by blast
qed



end
