(* ===== verification/Kad_Recursion.thy ===== *)
theory Kad_Recursion
  imports Kad_Sim_Props
begin

text \<open>
  The recursion between \<^verbatim>\<open>LookupData\<close> and the validation of the values it is sent
  (\<^verbatim>\<open>src/kademlia/kademlia.go\<close>, \<^verbatim>\<open>src/kademlia/datastore.go\<close>, \<^verbatim>\<open>src/registry/validator.go\<close>) has no
  bound: a latest pointer whose record hash is its own key makes the validator fetch the pointer it is
  validating.  A domain owner can sign such a pointer, and a node that looks it up never comes back.
\<close>

section \<open>A node that knows one contact\<close>

lemma single_bucket:
  assumes "rt_wf rt" and "GetAllContacts rt = [c0]"
  shows "buckets rt ! bucket_index (cid (me rt)) (cid c0) = [c0]" and "ID c0 \<noteq> None"
proof -
  let ?b = "\<lambda>j. buckets rt ! j"
  obtain j where j: "j < numBuckets" "c0 \<in> set (?b j)"
  proof -
    have "c0 \<in> set (GetAllContacts rt)" using assms(2) by simp
    with that show ?thesis using assms(1) by (auto simp: GetAllContacts_nth)
  qed
  then have "bucket_index (cid (me rt)) (cid c0) = j" "ID c0 \<noteq> None" using rt_wfD(4) [OF assms(1)] by blast+
  moreover have "?b j = [c0]"
  proof -
    have "sum_list (map length (buckets rt)) = 1" using assms(2) by (metis GetAllContacts_def length_concat list.size(3,4) One_nat_def add.right_neutral add_Suc_right)
    moreover have "length (?b j) \<le> sum_list (map length (buckets rt))"
      using j(1) rt_wfD(2) [OF assms(1)] by (intro member_le_sum_list) simp_all
    ultimately show ?thesis using j(2) by (cases "?b j") auto
  qed
  ultimately show "?b (bucket_index (cid (me rt)) (cid c0)) = [c0]" "ID c0 \<noteq> None" by simp_all
qed

lemma AddContact_single:
  assumes "rt_wf rt" and "GetAllContacts rt = [c0]" and "ID c = ID c0"
  shows "RoutingTable_AddContact rt c = Some rt"
proof -
  note b = single_bucket [OF assms(1,2)]
  then have c: "ID c = Some (cid c0)" using assms(3) by auto
  obtain b' r where "bucket_AddContact (buckets rt ! bucket_index (cid (me rt)) (cid c0)) c = Some (b', r)"
    and a: "RoutingTable_AddContact rt c = Some (rt\<lparr>buckets := (buckets rt)[bucket_index (cid (me rt)) (cid c0) := b']\<rparr>)"
    by (rule RoutingTable_AddContact_eq [OF assms(1) c])
  moreover have "bucket_wf ([] @ c0 # [])" using rt_wfD(3) [OF assms(1) bucket_index_less] b(1) by (metis append_Nil)
  ultimately have "b' = [c0]" using bucket_AddContact_known [of "[]" c0 "[]" c] c b(1) by simp
  with a b(1) show ?thesis by (simp add: list_update_same_conv rt_wfD(2) [OF assms(1)])
qed

lemma FindClosest_single:
  assumes "rt_wf rt" and "GetAllContacts rt = [c0]"
  shows "FindClosestContacts rt (Some t) (int bucketSize) = Some [with_dist t c0]"
proof -
  let ?bi = "bucket_index (cid (me rt)) t"
  obtain n where n: "1 \<le> n"
    "FindClosestContacts rt (Some t) (int bucketSize) = Some (take (nat (int bucketSize))
       (go_sort dist_less (map (with_dist t) (visited (buckets rt) ?bi n))))"
    "int bucketSize \<le> int (length (visited (buckets rt) ?bi n)) \<or> set (visit ?bi n) = {..<numBuckets}"
    by (rule FindClosestContacts_visits [OF assms(1) of_nat_0_le_iff])
  note v = length_visited [OF assms(1) bucket_index_less n(1)] set_visited(1) [OF assms(1) bucket_index_less n(1)]
  have "length (visited (buckets rt) ?bi n) \<le> 1" using v(1) [of "cid (me rt)" t] assms(2) by simp
  then have "set (visit ?bi n) = {..<numBuckets}" using n(3) by (simp add: bucketSize_def)
  from v(2) [OF this] have "length (visited (buckets rt) ?bi n) = 1" using assms(2) by simp
  with v(3) [of "cid (me rt)" t] assms(2) have "visited (buckets rt) ?bi n = [c0]"
    by (cases "visited (buckets rt) ?bi n") auto
  with n(2) show ?thesis by (simp add: bucketSize_def)
qed

text \<open>The shortlist of such a lookup: one candidate, unqueried and then queried.\<close>

definition one_candidate :: "KademliaID \<Rightarrow> KademliaID option \<Rightarrow> Contact \<Rightarrow> CandidateStatus \<Rightarrow> Shortlist" where
  "one_candidate t self c st = \<lparr>sl_target = Some t, sl_meID = self,
     candidates = [(KademliaID_String (cid c), \<lparr>cand_Contact = with_dist t c, cand_Status = st\<rparr>)]\<rparr>"

lemma one_candidate_wf:
  assumes "ID c \<noteq> None" and "self \<noteq> ID c"
  shows "sl_wf t (one_candidate t self c st)"
  using assms by (auto simp: sl_wf_def one_candidate_def gm_wf_def cand_ok_def)

lemma one_candidate_Add:
  assumes "ID c \<noteq> None" and "self \<noteq> ID c"
  shows "Shortlist_Add (NewShortlist (Some t) self) [with_dist t c] = Some (one_candidate t self c StatusUnqueried)"
  using assms
  by (auto simp: NewShortlist_def one_candidate_def Shortlist_Add1_eq [where t = t] gm_empty_def gm_get_def gm_set_def
      with_dist_def)

lemma one_candidate_active:
  "st \<noteq> StatusUnresponsive \<Longrightarrow> active_list (one_candidate t self c st) = [\<lparr>cand_Contact = with_dist t c, cand_Status = st\<rparr>]"
  by (simp add: active_list_def one_candidate_def)

lemma one_candidate_probe:
  assumes "ID c \<noteq> None" and "self \<noteq> ID c" and "0 < alpha"
  shows "st \<noteq> StatusUnresponsive \<Longrightarrow> HasUnqueriedInTopK (one_candidate t self c st) (int bucketSize) = Some (st = StatusUnqueried)"
    and "GetClosestUnqueried (one_candidate t self c StatusUnqueried) alpha (int bucketSize) = Some [with_dist t c]"
  using HasUnqueriedInTopK_eq [OF one_candidate_wf [OF assms(1,2)]]
    GetClosestUnqueried_eq [OF one_candidate_wf [OF assms(1,2)]] assms(3)
  by (auto simp: one_candidate_active bucketSize_def take_Cons')

lemma one_candidate_mark:
  "ID c \<noteq> None \<Longrightarrow> MarkQueried (one_candidate t self c StatusUnqueried) (ID c) = one_candidate t self c StatusQueried"
  by (auto simp: MarkQueried_def set_status_def one_candidate_def gm_get_def gm_set_def)

section \<open>A pointer to itself\<close>

text \<open>
  The node \<open>K\<close>, as built by the code: its network has its contact and its table, its store fetches
  through it.
\<close>

definition node_wired :: "sim_config \<Rightarrow> Kademlia \<Rightarrow> nat \<Rightarrow> nat \<Rightarrow> nat \<Rightarrow> bool" where
  "node_wired C K net r q \<longleftrightarrow>
     kad_Network K = Some net \<and> kad_RoutingTable K = Some r \<and> kad_DataStore K = Some q \<and> 0 < kad_alpha K \<and>
     cf_fetcher C q = Some K \<and>
     cf_nets C net = \<lparr>sn_me = Me K, sn_rt = Some r, sn_ds = Some q, sn_hub = True\<rparr>"

text \<open>
  \<open>lp\<close> is a properly signed pointer for its domain, except that its record hash is the key of the
  pointer itself; \<open>d\<close> are its bytes.
\<close>

definition self_pointer ::
  "'e reg_env_scheme \<Rightarrow> sim_config \<Rightarrow> nat \<Rightarrow> KademliaID \<Rightarrow> LatestPointer \<Rightarrow> bytes \<Rightarrow> bool" where
  "self_pointer E C q k lp d \<longleftrightarrow>
     d \<noteq> [] \<and> \<not> (cf_maxValSize C q > 0 \<and> int (length d) > cf_maxValSize C q) \<and>
     ParseLatestPointer E d = Inr lp \<and> DHTKeyBytes E (Some lp) = k \<and> sha256 E d \<noteq> k \<and>
     (\<exists>pub. pointer_checks E lp None (cf_resolver C q) = Inr (pub, ZeroHash)) \<and>
     ToLower E (TrimSpace (lp_VersionRecordHash lp)) = KademliaID_String k \<and>
     KademliaID_String k \<noteq> ToLower E (TrimSpace ZeroHash) \<and> KademliaID_String k \<noteq> ZeroHash"

text \<open>The node knows one other node, \<open>c0\<close>, which answers and holds \<open>d\<close>; it does not hold the key itself.\<close>

definition trap ::
  "sim_config \<Rightarrow> Kademlia \<Rightarrow> nat \<Rightarrow> nat \<Rightarrow> Contact \<Rightarrow> nat \<Rightarrow> nat \<Rightarrow> KademliaID \<Rightarrow> bytes \<Rightarrow> sim_world \<Rightarrow> bool" where
  "trap C K r q c0 t q' k d w \<longleftrightarrow>
     tables_wf w \<and> GetAllContacts (tables w r) = [c0] \<and> ID (Me K) \<noteq> ID c0 \<and>
     gm_get (nodes (hub w)) (Address c0) = Some t \<and> packetLoss (hub w) \<le> 0 \<and>
     ID (sn_me (cf_nets C t)) = ID c0 \<and> sn_rt (cf_nets C t) \<noteq> Some r \<and> sn_ds (cf_nets C t) = Some q' \<and>
     gm_get (stores w q') k = Some d \<and> gm_get (stores w q) k = None"

lemma trap_single:
  assumes "trap C K r q c0 t q' k d w"
  shows "rt_wf (tables w r)" "GetAllContacts (tables w r) = [c0]" "ID c0 \<noteq> None" "ID (Me K) \<noteq> ID c0"
  using assms single_bucket(2) by (auto simp: trap_def tables_wf_def)

text \<open>Learning about \<open>c0\<close> again changes nothing.\<close>

lemma trap_learn:
  assumes "trap C K r q c0 t q' k d w" and "node_wired C K net r q" and "ID c = ID c0"
  shows "learn (cf_nets C net) c w = Some w"
    and "rt_AddContact (sim_ops E C F K) c w = Some w"
  using AddContact_single [OF trap_single(1,2) [OF assms(1)] assms(3)] assms(2)
  by (auto simp: learn_def node_wired_def rt_AddContact_def sim_ops_def)

text \<open>The answer of \<open>c0\<close> to FIND_DATA.\<close>

lemma trap_FindData:
  assumes "trap C K r q c0 t q' k d w" and "node_wired C K net r q" and "ID c = ID c0" and "Address c = Address c0"
  shows "\<exists>w'. Sim_SendFindData C (cf_nets C net) (Some k) (Some c) w = Some (Inr (d, []), w') \<and>
    trap C K r q c0 t q' k d w'"
proof -
  obtain h where h: "dispatch C (Address c) (hub w) = (Inr t, h)" "nodes h = nodes (hub w)" "packetLoss h \<le> 0"
    using assms(1,4) by (auto simp: trap_def dispatch_def Let_def split: if_splits)
  have inv: "sim_inv (\<lambda>_. True) (\<lambda>_. True) (w\<lparr>hub := h\<rparr>)" using assms(1) by (simp add: trap_def sim_inv_def tables_wf_def)
  obtain w1 where w1: "learn (cf_nets C t) (sn_me (cf_nets C net)) (w\<lparr>hub := h\<rparr>) = Some w1"
    "sim_inv (\<lambda>_. True) (\<lambda>_. True) w1" "stores w1 = stores w"
    using learn_ok [OF inv] by fastforce
  have "sn_rt (cf_nets C t) \<noteq> Some r" using assms(1) by (simp add: trap_def)
  then have "tables w1 r = tables w r \<and> hub w1 = h"
    using w1(1) by (auto simp: learn_def split: option.splits if_splits)
  then have t1: "trap C K r q c0 t q' k d w1"
    using assms(1) h w1(2,3) by (simp add: trap_def sim_inv_def)
  have "ID (sn_me (cf_nets C t)) = ID c0" using assms(1) by (simp add: trap_def)
  from trap_learn(1) [OF t1 assms(2) this] have "learn (cf_nets C net) (sn_me (cf_nets C t)) w1 = Some w1" .
  moreover have "ID c \<noteq> None" "sn_hub (cf_nets C net)" "sn_ds (cf_nets C t) = Some q'" "gm_get (stores w1 q') k = Some d"
    using trap_single(3) [OF assms(1)] assms(1-3) t1 by (auto simp: node_wired_def trap_def)
  ultimately show ?thesis using h(1) w1(1) t1 by (simp add: Sim_SendFindData_def)
qed

text \<open>The validation of \<open>d\<close> fetches \<open>k\<close>, and fails as the fetch fails.\<close>

lemma trap_validate:
  assumes "trap C K r q c0 t q' k d w" and "node_wired C K net r q" and "self_pointer E C q k lp d"
    and "F q = Some fetch" and "fetch (stores w q, w) (KademliaID_String k) = (Inl e, (stores w' q, w'))"
  shows "validate_at E C F q k d w = (Inl (RegError ErrMissingVersionRecord), w')"
proof -
  obtain pub where pub: "pointer_checks E lp None (cf_resolver C q) = Inr (pub, ZeroHash)"
    using assms(3) by (auto simp: self_pointer_def)
  have cl: "classify E (cf_maxValSize C q) k d = Inr (Some lp)"
    using assms(3) by (auto simp: classify_def self_pointer_def)
  have loc: "gm_get (stores w q) k = None" using assms(1) by (simp add: trap_def)
  have "ds_getter (F q) (stores w q, w) (KademliaID_String k) = (Inl e, (stores w' q, w'))"
    using assms(4,5) loc by (simp add: ds_getter_def KademliaID_String_def)
  then have "ValidateLatestPointerChain E (Some lp) None (cf_resolver C q) (Some (ds_getter (F q))) None (stores w q, w)
      = (Inl ErrMissingVersionRecord, (stores w' q, w'))"
    using assms(3) pub
    by (simp add: ValidateLatestPointerChain_def ValidateLatestPointerChainWithDepth_def self_pointer_def
        chain_loop.simps [of E lp False] check_record_def DefaultMaxChainDepth_def)
  then show ?thesis
    using cl loc
    by (simp add: validate_at_def DataStore_Validate_def existing_pointer_def validateLatestPointerWithExisting_def
        ds_at_def put_store_def)
qed

text \<open>So a lookup of \<open>k\<close> fails with the state its fetch left.\<close>

lemma trap_lookup:
  assumes "trap C K r q c0 t q' k d w" and "node_wired C K net r q" and "self_pointer E C q k lp d"
    and "F q = Some fetch"
    and fetch: "\<And>w. trap C K r q c0 t q' k d w \<Longrightarrow>
      \<exists>e w'. fetch (stores w q, w) (KademliaID_String k) = (Inl e, (stores w' q, w')) \<and> Q w'"
  shows "\<exists>w'. LookupDataByID E (sim_ops E C F K) (Some k) w = Some (Inl ErrValueNotFound, w') \<and> Q w'"
proof -
  let ?N = "sim_ops E C F K" and ?c = "with_dist k c0"
  note one = trap_single [OF assms(1)]
  have wired: "kad_Network K = Some net" "kad_RoutingTable K = Some r" "kad_DataStore K = Some q" "0 < kad_alpha K"
    using assms(2) by (auto simp: node_wired_def)
  have find: "FindClosestContacts (op_rt ?N w) (Some k) (int bucketSize) = Some [?c]"
    using FindClosest_single [OF one(1,2)] wired by (simp add: sim_ops_def)
  let ?s = "one_candidate k (ID (Me K)) c0"
  obtain w1 where w1: "op_FindData ?N k ?c w = Some (Inr (d, []), w1)" "trap C K r q c0 t q' k d w1"
    using trap_FindData [OF assms(1,2), of ?c] wired by (auto simp: sim_ops_def)
  obtain e w2 where f: "fetch (stores w1 q, w1) (KademliaID_String k) = (Inl e, (stores w2 q, w2))" "Q w2"
    using fetch [OF w1(2)] by blast
  have "op_ds_Validate ?N k d w1 = (Inl (RegError ErrMissingVersionRecord), w2)"
    using trap_validate [where F = F and fetch = fetch, OF w1(2) assms(2-4) f(1)] wired by (simp add: sim_ops_def)
  moreover have "sha256 E d \<noteq> k" "d \<noteq> []" using assms(3) by (auto simp: self_pointer_def)
  ultimately have acc: "accept_value E ?N k d w1 = Some (False, w2)"
    using wired by (simp add: accept_value_def NewKademliaIDFromData_def)
  have add: "rt_AddContact ?N ?c w1 = Some w1" by (rule trap_learn(2) [where F = F and c = ?c, OF w1(2) assms(2)]) simp
  have "handle_data_results E ?N k [(?c, Inr (d, []))] (?s StatusUnqueried) w1 = Some (None, ?s StatusQueried, w2)"
    using add acc \<open>d \<noteq> []\<close> one_candidate_mark [OF one(3)] by simp
  moreover have "op_arrival ?N w [?c] = [?c]" by (simp add: sim_ops_def)
  ultimately have "data_loop E ?N k (?s StatusUnqueried) w = data_loop E ?N k (?s StatusQueried) w2"
    using w1(1) one_candidate_probe(1) [OF one(3,4) wired(4), of StatusUnqueried k] one_candidate_probe(2) [OF one(3,4) wired(4), of k]
    by (subst data_loop.simps) simp
  also have "\<dots> = Some (None, w2)"
    using one_candidate_probe(1) [OF one(3,4) wired(4), of StatusQueried k] by (subst data_loop.simps) simp
  finally have loop: "data_loop E ?N k (?s StatusUnqueried) w = Some (None, w2)" .
  have loc: "gm_get (stores w q) k = None" using assms(1) by (simp add: trap_def)
  have "Shortlist_Len (?s StatusUnqueried) \<noteq> 0" by (simp add: Shortlist_Len_def one_candidate_def gm_len_def)
  with loop find loc one_candidate_Add [OF one(3,4)] wired f(2) show ?thesis
    by (simp add: LookupDataByID_def)
qed

lemma trap_fetch:
  assumes "node_wired C K net r q" and "self_pointer E C q k lp d"
  shows "trap C K r q c0 t q' k d w \<Longrightarrow>
    \<exists>e w'. sim_fetch E C n K q (stores w q, w) (KademliaID_String k) = (Inl e, (stores w' q, w')) \<and> overflow w'"
proof (induction n arbitrary: w)
  case 0
  then show ?case by (intro exI [of _ "ErrText ''stack overflow''"] exI [of _ "w\<lparr>overflow := True\<rparr>"]) simp
next
  case (Suc n)
  have F: "sim_fetchers E C n q = Some (sim_fetch E C n K q)"
    using assms(1) by (simp add: sim_fetchers_def node_wired_def)
  obtain w' where "LookupDataByID E (sim_node E C n K) (Some k) w = Some (Inl ErrValueNotFound, w')" "overflow w'"
    using trap_lookup [where F = "sim_fetchers E C n" and fetch = "sim_fetch E C n K q" and Q = overflow,
        OF Suc.prems assms F Suc.IH] by blast
  then show ?case
    by (auto simp: kad_getter_def LookupData_def sim_fetchers_def [abs_def])
qed

section \<open>Property\<close>

text \<open>A network for the example: node 0 knows node 1, which holds a pointer to itself.\<close>

definition trap_env :: reg_env where
  "trap_env = demo_env\<lparr>sha256 := (\<lambda>bs. if bs = [3] then mk_id [2] else mk_id [1])\<rparr>"

definition trap_node :: Kademlia where
  "trap_node = NewKademlia (peer []) (Some 0) (Some 0) (Some 0) 0"

definition trap_cfg :: sim_config where
  "trap_cfg = demo_cfg\<lparr>cf_resolver := (\<lambda>_. demo_resolver), cf_fetcher := (\<lambda>q. if q = 0 then Some trap_node else None)\<rparr>"

definition trap_world :: sim_world where
  "trap_world = \<lparr>hub = Register trap_cfg NewSimulatedHub 1,
     tables = (\<lambda>r. if r = 0 then the (fill_table (peer []) [peer [0x80]]) else NewRoutingTable (peer [0x80])),
     stores = (\<lambda>q. if q = 1 then gm_set (mk_id [1]) [3] gm_empty else gm_empty), overflow = False\<rparr>"

lemma trap_env_ok: "lp_ok trap_env demo_lp"
proof -
  have "IsValidDomain trap_env ''example.com''" "NormalizeDomain trap_env ''example.com'' = ''example.com''"
    by (simp_all add: domain_eval)
  then show ?thesis
    by (simp add: lp_ok_def demo_lp_def demo_valid demo_versions TagLatestPointer_def IDLength_def)
qed

lemma trap_pointer: "self_pointer trap_env trap_cfg 0 (mk_id [1]) demo_lp [3]"
proof -
  have ks: "DHTKeyString trap_env (Some demo_lp) = ''example.com:pkg:latest''"
    using demo_valid(4) by (simp add: DHTKeyString_def LatestPointerKeyString_def demo_lp_def domain_eval)
  have "DHTKeyBytes trap_env (Some demo_lp) = sha256 trap_env (bytes_of_string (DHTKeyString trap_env (Some demo_lp)))"
    by (simp add: DHTKeyBytes_def DHTKeyString_def LatestPointerDHTKeyBytes_def)
  then have key: "DHTKeyBytes trap_env (Some demo_lp) = mk_id [1]"
    unfolding ks by (simp add: trap_env_def bytes_of_string_def)
  have "LatestPointer_Verify trap_env (Some demo_lp) demo_pub = Inr ()"
    using trap_env_ok demo_sig
    by (simp add: LatestPointer_Verify_iff) (simp add: demo_lp_def demo_pub_def PublicKeySize_def trap_env_def demo_env_def)
  then have "pointer_ok trap_env demo_lp None (cf_resolver trap_cfg 0) demo_pub"
    by (simp add: pointer_ok_def demo_resolver_def trap_cfg_def) (simp add: demo_lp_def)
  then have "pointer_checks trap_env demo_lp None (cf_resolver trap_cfg 0) = Inr (demo_pub, ZeroHash)"
    using pointer_checks_iff by (metis option.simps(4) target_hash_def)
  moreover have "ParseLatestPointer trap_env [3] = Inr demo_lp"
    using trap_env_ok by (simp add: ParseLatestPointer_def) (simp add: trap_env_def demo_env_def)
  moreover have "mk_id [2] \<noteq> mk_id [1]" by code_simp
  moreover have "KademliaID_String (mk_id [1]) = demo_h1" by (simp add: KademliaID_String_def demo_h1_def)
  ultimately show ?thesis using key
    by (simp add: self_pointer_def trap_cfg_def demo_cfg_def DefaultMaxValSize_def) (simp add: trap_env_def demo_lp_def)
qed

lemma trap_demo: "trap trap_cfg trap_node 0 0 (peer [0x80]) 1 1 (mk_id [1]) [3] trap_world"
proof -
  have t: "map_option GetAllContacts (fill_table (peer []) [peer [0x80]]) = Some [peer [0x80]]" by code_simp
  then obtain rt where rt: "fill_table (peer []) [peer [0x80]] = Some rt" "GetAllContacts rt = [peer [0x80]]" by auto
  have "rt_wf rt" by (rule fill_table_wf [OF _ rt(1)]) (simp add: peer_def NewContact_def)
  then have "tables_wf trap_world"
    by (auto simp: tables_wf_def trap_world_def rt(1) intro!: rt_wf_New) (simp add: peer_def NewContact_def)
  moreover have "mk_id [0x80] \<noteq> mk_id []" by code_simp
  moreover have "tables trap_world 0 = rt" by (simp add: trap_world_def rt(1))
  ultimately show ?thesis using rt(2)
    by (simp add: trap_def) (simp add: trap_world_def trap_node_def trap_cfg_def demo_cfg_def peer_def NewContact_def
        Register_def NewSimulatedHub_def gm_get_def gm_set_def gm_empty_def)
qed

text \<open>
  C17. A value lookup can recurse without bound.  Let a node know one other node, which answers with a
  latest pointer that is signed by the owner of its domain but whose record hash is its own key.  Then
  the lookup of that key exhausts a stack of any depth \<open>n\<close>: the value is no content, so it is
  validated; the validator fetches the record hash, that is, looks up the same key again.
\<close>

theorem LookupData_unbounded_recursion:
  assumes "node_wired C K net r q" and "self_pointer E C q k lp d" and "trap C K r q c0 t q' k d w"
  shows "\<exists>w'. LookupDataByID E (sim_node E C n K) (Some k) w = Some (Inl ErrValueNotFound, w') \<and> overflow w'"
proof -
  have "sim_fetchers E C n q = Some (sim_fetch E C n K q)"
    using assms(1) by (simp add: sim_fetchers_def node_wired_def)
  from trap_lookup [where Q = overflow and fetch = "sim_fetch E C n K q" and F = "sim_fetchers E C n",
      OF assms(3,1,2) this trap_fetch [OF assms(1,2)]] show ?thesis .
qed

theorem LookupData_unbounded_recursion_witness:
  "\<forall>n. \<exists>w'. LookupDataByID trap_env (sim_node trap_env trap_cfg n trap_node) (Some (mk_id [1])) trap_world =
     Some (Inl ErrValueNotFound, w') \<and> overflow w'"
proof
  fix n
  have "node_wired trap_cfg trap_node 0 0 0"
    by (simp add: node_wired_def trap_cfg_def trap_node_def demo_cfg_def)
  from LookupData_unbounded_recursion [OF this trap_pointer trap_demo] show
    "\<exists>w'. LookupDataByID trap_env (sim_node trap_env trap_cfg n trap_node) (Some (mk_id [1])) trap_world =
       Some (Inl ErrValueNotFound, w') \<and> overflow w'" .
qed

end
