(* ===== verification/Reg_KeyManager.thy ===== *)
theory Reg_KeyManager
  imports Reg_Records
begin

text \<open>
  \<^verbatim>\<open>src/registry/keymanager.go\<close>: the key pairs of the domains a user owns, in memory and, when there is a
  base directory, in one JSON file for each domain.  Only the entries of the base directory matter; \<open>disk\<close>
  maps their names to the content of a file, or to \<open>None\<close> for a directory.  The JSON codec and the faults of the file
  system are parameters.  (\<^verbatim>\<open>IsValidDomain\<close> is in \<^verbatim>\<open>Reg_Crypto\<close>.)
\<close>

section \<open>Key files\<close>

type_synonym disk = "(string, bytes option) gomap"

record domainKeyDTO =
  dto_Domain :: string
  dto_PublicKey :: string
  dto_PrivateKey :: string
  dto_CreatedAt :: int

text \<open>\<^verbatim>\<open>json.MarshalIndent\<close> fails on a time stamp it cannot print.\<close>

record key_env = reg_env +
  json_domainKeyDTO :: "domainKeyDTO \<Rightarrow> bytes option"
  unjson_domainKeyDTO :: "bytes \<Rightarrow> domainKeyDTO option"

definition ErrKeyNotFound :: reg_error where
  "ErrKeyNotFound = ErrText ''domain key not found''"

text \<open>
  How \<^verbatim>\<open>os.WriteFile\<close> ends: it writes the data, it fails before it opens the file, or it fails after and leaves
  something else in it.
\<close>

datatype write_outcome = Written | Not_opened | Garbled bytes

definition os_WriteFile :: "write_outcome \<Rightarrow> string \<Rightarrow> bytes \<Rightarrow> disk \<Rightarrow> unit result \<times> disk" where
  "os_WriteFile outcome name data d =
     (if gm_get d name = Some None then (Inl (ErrText ''is a directory''), d)
      else (case outcome of
        Written \<Rightarrow> (Inr (), gm_set name (Some data) d)
      | Not_opened \<Rightarrow> (Inl (ErrText ''open''), d)
      | Garbled junk \<Rightarrow> (Inl (ErrText ''write''), gm_set name (Some junk) d)))"

definition SaveToFile ::
  "'e key_env_scheme \<Rightarrow> write_outcome \<Rightarrow> DomainKeyPair option \<Rightarrow> string \<Rightarrow> disk \<Rightarrow> unit result \<times> disk" where
  "SaveToFile E outcome dkp name d =
     (case dkp of
        None \<Rightarrow> (Inl (ErrText ''cannot save nil domain key pair''), d)
      | Some k \<Rightarrow>
          (case json_domainKeyDTO E \<lparr>dto_Domain = dkp_Domain k, dto_PublicKey = EncodePublicKeyHex (dkp_PublicKey k),
                dto_PrivateKey = EncodePrivateKeyHex (dkp_PrivateKey k), dto_CreatedAt = dkp_CreatedAt k\<rparr> of
             None \<Rightarrow> (Inl ErrJSON, d)
           | Some data \<Rightarrow> os_WriteFile outcome name data d))"

definition LoadDomainKeyPair :: "'e key_env_scheme \<Rightarrow> string \<Rightarrow> disk \<Rightarrow> DomainKeyPair result" where
  "LoadDomainKeyPair E name d =
     (case gm_get d name of
        Some (Some data) \<Rightarrow>
          (case unjson_domainKeyDTO E data of
             None \<Rightarrow> Inl ErrJSON
           | Some dto \<Rightarrow>
               err_bind (DecodePublicKeyHex (dto_PublicKey dto)) (\<lambda>pub.
               err_bind (DecodePrivateKeyHex E (dto_PrivateKey dto)) (\<lambda>priv.
               Inr \<lparr>dkp_Domain = dto_Domain dto, dkp_PublicKey = pub, dkp_PrivateKey = priv,
                 dkp_CreatedAt = dto_CreatedAt dto\<rparr>)))
      | _ \<Rightarrow> Inl (ErrText ''read''))"

section \<open>The key manager\<close>

record KeyManager =
  km_baseDir :: string
  km_keys :: "(string, DomainKeyPair) gomap"

definition NewKeyManager :: "bool \<Rightarrow> string \<Rightarrow> KeyManager result" where
  "NewKeyManager made baseDir =
     (if baseDir \<noteq> [] \<and> \<not> made then Inl (ErrText ''mkdir'')
      else Inr \<lparr>km_baseDir = baseDir, km_keys = gm_empty\<rparr>)"

definition key_file :: "string \<Rightarrow> string" where
  "key_file norm = norm @ ''.json''"

type_synonym key_state = "KeyManager \<times> disk"

definition KeyManager_Save ::
  "'e key_env_scheme \<Rightarrow> write_outcome \<Rightarrow> DomainKeyPair option \<Rightarrow> key_state \<Rightarrow> unit result \<times> key_state" where
  "KeyManager_Save E outcome dkp st =
     (let (km, d) = st in
      case dkp of
        None \<Rightarrow> (Inl (ErrText ''cannot save nil domain key pair''), st)
      | Some k \<Rightarrow>
          let norm = NormalizeDomain E (dkp_Domain k) in
          if \<not> IsValidDomain E norm then (Inl ErrInvalidDomain, st)
          else
            (let (r, d1) = (if km_baseDir km \<noteq> [] then SaveToFile E outcome dkp (key_file norm) d else (Inr (), d)) in
             case r of
               Inl e \<Rightarrow> (Inl e, (km, d1))
             | Inr _ \<Rightarrow> (Inr (), (km\<lparr>km_keys := gm_set norm k (km_keys km)\<rparr>, d1))))"

text \<open>\<^verbatim>\<open>Generate\<close> returns the new pair even when saving it fails.\<close>

definition KeyManager_Generate ::
  "'e key_env_scheme \<Rightarrow> (bytes \<times> bytes) result \<Rightarrow> int \<Rightarrow> write_outcome \<Rightarrow> string \<Rightarrow> key_state \<Rightarrow>
   (DomainKeyPair option \<times> unit result) \<times> key_state" where
  "KeyManager_Generate E keys now outcome domain st =
     (case GenerateDomainKeyPair E keys now domain of
        Inl e \<Rightarrow> ((None, Inl e), st)
      | Inr dkp \<Rightarrow> let (r, st1) = KeyManager_Save E outcome (Some dkp) st in ((Some dkp, r), st1))"

definition KeyManager_Load ::
  "'e key_env_scheme \<Rightarrow> string \<Rightarrow> key_state \<Rightarrow> DomainKeyPair result \<times> key_state" where
  "KeyManager_Load E domain st =
     (let (km, d) = st; norm = NormalizeDomain E domain in
      if \<not> IsValidDomain E norm then (Inl ErrInvalidDomain, st)
      else (case (if km_baseDir km \<noteq> [] then LoadDomainKeyPair E (key_file norm) d else Inl ErrKeyNotFound) of
        Inr dkp \<Rightarrow> (Inr dkp, (km\<lparr>km_keys := gm_set norm dkp (km_keys km)\<rparr>, d))
      | Inl _ \<Rightarrow>
          (case gm_get (km_keys km) norm of
             Some dkp \<Rightarrow> (Inr dkp, st)
           | None \<Rightarrow> (Inl ErrKeyNotFound, st))))"

definition KeyManager_Get :: "'e key_env_scheme \<Rightarrow> string \<Rightarrow> key_state \<Rightarrow> DomainKeyPair option" where
  "KeyManager_Get E domain st = gm_get (km_keys (fst st)) (NormalizeDomain E domain)"

definition KeyManager_Add ::
  "'e key_env_scheme \<Rightarrow> write_outcome \<Rightarrow> DomainKeyPair option \<Rightarrow> key_state \<Rightarrow> unit result \<times> key_state" where
  "KeyManager_Add = KeyManager_Save"

text \<open>The error of \<^verbatim>\<open>os.Remove\<close> is ignored; \<open>removed\<close> tells whether it worked.\<close>

definition KeyManager_Delete ::
  "'e key_env_scheme \<Rightarrow> bool \<Rightarrow> string \<Rightarrow> key_state \<Rightarrow> unit result \<times> key_state" where
  "KeyManager_Delete E removed domain st =
     (let (km, d) = st; norm = NormalizeDomain E domain in
      if \<not> IsValidDomain E norm then (Inl ErrInvalidDomain, st)
      else (Inr (), (km\<lparr>km_keys := gm_del norm (km_keys km)\<rparr>,
        if km_baseDir km \<noteq> [] \<and> removed then gm_del (key_file norm) d else d)))"

definition KeyManager_Sign ::
  "'e key_env_scheme \<Rightarrow> string \<Rightarrow> bytes \<Rightarrow> key_state \<Rightarrow> (bytes result \<times> key_state) option" where
  "KeyManager_Sign E domain msg st =
     (case KeyManager_Load E domain st of
        (Inl e, st1) \<Rightarrow> Some (Inl e, st1)
      | (Inr dkp, st1) \<Rightarrow> map_option (\<lambda>r. (r, st1)) (DomainKeyPair_Sign E (Some dkp) msg))"

definition HasSuffix :: "string \<Rightarrow> string \<Rightarrow> bool" where
  "HasSuffix s p = HasPrefix (rev s) (rev p)"

definition TrimSuffix :: "string \<Rightarrow> string \<Rightarrow> string" where
  "TrimSuffix s p = rev (TrimPrefix (rev s) (rev p))"

text \<open>The domains of the files in the base directory; \<open>listed\<close>: \<^verbatim>\<open>os.ReadDir\<close> works.\<close>

fun file_domains :: "'e key_env_scheme \<Rightarrow> (string \<times> bytes option) list \<Rightarrow> string list" where
  "file_domains E [] = []"
| "file_domains E ((name, content) # es) =
     (if content \<noteq> None \<and> HasSuffix name ''.json'' then
        (let norm = NormalizeDomain E (TrimSuffix name ''.json'') in
         if IsValidDomain E norm then norm # file_domains E es else file_domains E es)
      else file_domains E es)"

definition KeyManager_ListDomains :: "'e key_env_scheme \<Rightarrow> bool \<Rightarrow> key_state \<Rightarrow> string list" where
  "KeyManager_ListDomains E listed st =
     (let (km, d) = st in
      go_sort string_less (remdups (gm_keys (km_keys km) @
        (if km_baseDir km \<noteq> [] \<and> listed then file_domains E d else []))))"

section \<open>The key manager as a map\<close>

text \<open>
  The abstract view: what a normal form gives.  A file that can be read counts more than the memory.
\<close>

definition km_view :: "'e key_env_scheme \<Rightarrow> key_state \<Rightarrow> string \<Rightarrow> DomainKeyPair option" where
  "km_view E st norm =
     (if \<not> IsValidDomain E norm then None
      else (case (if km_baseDir (fst st) \<noteq> [] then LoadDomainKeyPair E (key_file norm) (snd st) else Inl ErrKeyNotFound) of
        Inr dkp \<Rightarrow> Some dkp
      | Inl _ \<Rightarrow> gm_get (km_keys (fst st)) norm))"

definition km_wf :: "key_state \<Rightarrow> bool" where
  "km_wf st \<longleftrightarrow> gm_wf (km_keys (fst st)) \<and> gm_wf (snd st)"

lemma key_file_inj [simp]: "key_file a = key_file b \<longleftrightarrow> a = b"
  by (simp add: key_file_def)

lemma Load_view:
  "fst (KeyManager_Load E domain st) =
     (if \<not> IsValidDomain E (NormalizeDomain E domain) then Inl ErrInvalidDomain
      else (case km_view E st (NormalizeDomain E domain) of None \<Rightarrow> Inl ErrKeyNotFound | Some dkp \<Rightarrow> Inr dkp))"
  by (cases st) (auto simp: KeyManager_Load_def km_view_def Let_def split: sum.splits option.splits)

lemma Load_keeps:
  "km_view E (snd (KeyManager_Load E domain st)) = km_view E st" (is ?view)
  "km_wf st \<Longrightarrow> km_wf (snd (KeyManager_Load E domain st))" (is "_ \<Longrightarrow> ?wf")
  "snd (snd (KeyManager_Load E domain st)) = snd st" (is ?disk)
  "km_baseDir (fst (snd (KeyManager_Load E domain st))) = km_baseDir (fst st)" (is ?dir)
proof -
  obtain km d where st: "st = (km, d)" by (cases st)
  let ?n = "NormalizeDomain E domain"
  have c: "KeyManager_Load E domain st = (fst (KeyManager_Load E domain st), st) \<or>
    (\<exists>dkp. km_baseDir km \<noteq> [] \<and> LoadDomainKeyPair E (key_file ?n) d = Inr dkp \<and>
      snd (KeyManager_Load E domain st) = (km\<lparr>km_keys := gm_set ?n dkp (km_keys km)\<rparr>, d))"
    by (auto simp: KeyManager_Load_def st Let_def split: sum.splits option.splits if_splits)
  have same: "km_view E (km\<lparr>km_keys := gm_set ?n dkp (km_keys km)\<rparr>, d) = km_view E st"
    if "km_baseDir km \<noteq> []" "LoadDomainKeyPair E (key_file ?n) d = Inr dkp" for dkp
    using that by (auto simp: km_view_def st fun_eq_iff gm.get_set split: sum.split)
  from c show ?view using same by (metis prod.sel(2))
  from c show ?disk ?dir by (auto simp: st dest: arg_cong [where f = snd])
  assume "km_wf st"
  with c show ?wf by (auto simp: km_wf_def st gm.invar_set dest: arg_cong [where f = snd])
qed

text \<open>A key pair the file format gives back: keys of the right sizes, a time and a domain JSON can print and read.\<close>

definition key_dto :: "DomainKeyPair \<Rightarrow> domainKeyDTO" where
  "key_dto k = \<lparr>dto_Domain = dkp_Domain k, dto_PublicKey = EncodePublicKeyHex (dkp_PublicKey k),
     dto_PrivateKey = EncodePrivateKeyHex (dkp_PrivateKey k), dto_CreatedAt = dkp_CreatedAt k\<rparr>"

definition storable :: "'e key_env_scheme \<Rightarrow> DomainKeyPair \<Rightarrow> bool" where
  "storable E k \<longleftrightarrow> length (dkp_PublicKey k) = PublicKeySize \<and> length (dkp_PrivateKey k) = PrivateKeySize \<and>
     (\<forall>data. json_domainKeyDTO E (key_dto k) = Some data \<longrightarrow> unjson_domainKeyDTO E data = Some (key_dto k))"

lemma DecodePrivateKeyHex_Encode [simp]:
  "length priv = PrivateKeySize \<Longrightarrow> DecodePrivateKeyHex E (EncodePrivateKeyHex priv) = Inr priv"
  by (simp add: DecodePrivateKeyHex_def EncodePrivateKeyHex_def PrivateKeySize_def SeedSize_def)

lemma SaveToFile_Load:
  assumes "storable E k" and "SaveToFile E Written (Some k) name d = (Inr (), d1)"
  shows "LoadDomainKeyPair E name' d1 = (if name' = name then Inr k else LoadDomainKeyPair E name' d)"
proof -
  obtain data where "json_domainKeyDTO E (key_dto k) = Some data" "d1 = gm_set name (Some data) d"
    using assms(2) by (auto simp: SaveToFile_def key_dto_def os_WriteFile_def split: option.splits if_splits)
  with assms(1) show ?thesis
    by (simp add: storable_def LoadDomainKeyPair_def gm.get_set) (simp add: key_dto_def)
qed

lemma Save_view:
  assumes "storable E k" and "KeyManager_Save E Written (Some k) st = (Inr (), st1)"
  shows "km_view E st1 = (km_view E st)(NormalizeDomain E (dkp_Domain k) \<mapsto> k)"
    and "km_wf st \<Longrightarrow> km_wf st1"
    and "IsValidDomain E (NormalizeDomain E (dkp_Domain k))"
proof -
  obtain km d where st: "st = (km, d)" by (cases st)
  let ?n = "NormalizeDomain E (dkp_Domain k)" let ?km = "km\<lparr>km_keys := gm_set ?n k (km_keys km)\<rparr>"
  show valid: "IsValidDomain E ?n" using assms(2) by (auto simp: KeyManager_Save_def st Let_def split: if_splits)
  obtain d1 where d1: "(if km_baseDir km \<noteq> [] then SaveToFile E Written (Some k) (key_file ?n) d else (Inr (), d)) = (Inr (), d1)"
    "st1 = (?km, d1)"
    using assms(2) valid by (auto simp: KeyManager_Save_def st Let_def split: prod.splits sum.splits)
  show "km_view E st1 = (km_view E st)(?n \<mapsto> k)"
  proof (cases "km_baseDir km = []")
    case True
    then show ?thesis using d1 valid by (auto simp: km_view_def st fun_eq_iff gm.get_set)
  next
    case False
    with d1(1) SaveToFile_Load [OF assms(1)] have
      "LoadDomainKeyPair E (key_file n) d1 = (if n = ?n then Inr k else LoadDomainKeyPair E (key_file n) d)" for n
      by simp
    then show ?thesis using d1(2) valid False
      by (auto simp: km_view_def st fun_eq_iff gm.get_set split: sum.split)
  qed
  have "gm_wf d \<Longrightarrow> gm_wf d1"
    using d1(1) by (auto simp: SaveToFile_def os_WriteFile_def gm.invar_set split: option.splits if_splits)
  then show "km_wf st \<Longrightarrow> km_wf st1" by (simp add: km_wf_def st d1(2) gm.invar_set)
qed

lemma Delete_view:
  assumes "km_wf st" and "KeyManager_Delete E True domain st = (Inr (), st1)"
  shows "km_view E st1 = (km_view E st)(NormalizeDomain E domain := None)" and "km_wf st1"
proof -
  obtain km d where st: "st = (km, d)" by (cases st)
  have wf: "gm_wf (km_keys km)" "gm_wf d" using assms(1) by (simp_all add: km_wf_def st)
  let ?n = "NormalizeDomain E domain"
  have st1: "st1 = (km\<lparr>km_keys := gm_del ?n (km_keys km)\<rparr>, if km_baseDir km \<noteq> [] then gm_del (key_file ?n) d else d)"
    using assms(2) by (auto simp: KeyManager_Delete_def st Let_def split: if_splits)
  show "km_view E st1 = (km_view E st)(?n := None)"
    by (auto simp: km_view_def st1 st fun_eq_iff LoadDomainKeyPair_def gm.get_del [OF wf(1)] gm.get_del [OF wf(2)]
        split: sum.splits)
  show "km_wf st1" using wf by (simp add: km_wf_def st1 gm.invar_del)
qed

text \<open>What a key store promises, and what follows for the code that uses one.\<close>

locale key_store =
  fixes normal :: "string \<Rightarrow> string" and valid :: "string \<Rightarrow> bool" and fits :: "'k \<Rightarrow> bool" and dom_of :: "'k \<Rightarrow> string"
    and view :: "'s \<Rightarrow> string \<Rightarrow> 'k option" and invar :: "'s \<Rightarrow> bool"
    and save :: "'k \<Rightarrow> 's \<Rightarrow> unit result \<times> 's"
    and load :: "string \<Rightarrow> 's \<Rightarrow> 'k result \<times> 's"
    and delete :: "string \<Rightarrow> 's \<Rightarrow> unit result \<times> 's"
  assumes load_result: "fst (load d s) = (if \<not> valid (normal d) then Inl ErrInvalidDomain
      else (case view s (normal d) of None \<Rightarrow> Inl ErrKeyNotFound | Some k \<Rightarrow> Inr k))"
    and load_view: "view (snd (load d s)) = view s"
    and load_invar: "invar s \<Longrightarrow> invar (snd (load d s))"
    and save_view: "fits k \<Longrightarrow> save k s = (Inr (), s1) \<Longrightarrow> view s1 = (view s)(normal (dom_of k) \<mapsto> k)"
    and save_valid: "fits k \<Longrightarrow> save k s = (Inr (), s1) \<Longrightarrow> valid (normal (dom_of k))"
    and save_invar: "fits k \<Longrightarrow> save k s = (Inr (), s1) \<Longrightarrow> invar s \<Longrightarrow> invar s1"
    and delete_view: "invar s \<Longrightarrow> delete d s = (Inr (), s1) \<Longrightarrow> view s1 = (view s)(normal d := None)"
    and delete_invar: "invar s \<Longrightarrow> delete d s = (Inr (), s1) \<Longrightarrow> invar s1"
begin

lemma load_twice: "fst (load d (snd (load d' s))) = fst (load d s)"
  by (simp add: load_result load_view)

lemma load_saved:
  assumes "fits k" and "save k s = (Inr (), s1)"
  shows "fst (load d s1) = (if normal d = normal (dom_of k) then Inr k else fst (load d s))"
  using save_view [OF assms] save_valid [OF assms] by (simp add: load_result)

lemma load_deleted:
  assumes "invar s" and "delete d' s = (Inr (), s1)" and "valid (normal d)"
  shows "fst (load d s1) = (if normal d = normal d' then Inl ErrKeyNotFound else fst (load d s))"
  using delete_view [OF assms(1,2)] assms(3) by (simp add: load_result)

end

interpretation keys: key_store "NormalizeDomain E" "IsValidDomain E" "storable E" dkp_Domain "km_view E" km_wf
    "\<lambda>k. KeyManager_Save E Written (Some k)" "KeyManager_Load E" "KeyManager_Delete E True"
  for E :: "'e key_env_scheme"
  by (unfold_locales; (rule Load_view Load_keeps(1) Load_keeps(2) Save_view(1) Save_view(3) Save_view(2)
      Delete_view(1) Delete_view(2)); assumption)

section \<open>Properties\<close>

text \<open>
  C31. The key manager is a map from domains to key pairs, with or without a base directory, whatever files are in it.
  After a pair is saved, \<^verbatim>\<open>Load\<close> gives it for every spelling of its domain and what it gave before for all other domains, and the
  domain is listed; after a domain is deleted and its file is gone, it is not found and all others are unchanged.
\<close>

theorem KeyManager_map:
  assumes "storable E k" and "KeyManager_Save E Written (Some k) st = (Inr (), st1)" and "km_wf st"
    and "KeyManager_Delete E True d' st1 = (Inr (), st2)"
  shows "fst (KeyManager_Load E d st1) =
      (if NormalizeDomain E d = NormalizeDomain E (dkp_Domain k) then Inr k else fst (KeyManager_Load E d st)) \<and>
    fst (KeyManager_Load E d st2) =
      (if NormalizeDomain E d = NormalizeDomain E d' then Inl ErrKeyNotFound else fst (KeyManager_Load E d st1)) \<and>
    NormalizeDomain E (dkp_Domain k) \<in> set (KeyManager_ListDomains E listed st1)"
proof -
  have valid: "IsValidDomain E (NormalizeDomain E d')"
    using assms(4) by (auto simp: KeyManager_Delete_def Let_def split: if_splits prod.splits)
  have "fst (KeyManager_Load E d st2) =
      (if NormalizeDomain E d = NormalizeDomain E d' then Inl ErrKeyNotFound else fst (KeyManager_Load E d st1))"
  proof (cases "IsValidDomain E (NormalizeDomain E d)")
    case True
    show ?thesis by (rule keys.load_deleted [OF keys.save_invar [OF assms(1-3)] assms(4) True])
  next
    case False
    then show ?thesis using valid by (auto simp: Load_view)
  qed
  moreover have "NormalizeDomain E (dkp_Domain k) \<in> set (gm_keys (km_keys (fst st1)))"
    using assms(2) by (auto simp: KeyManager_Save_def Let_def gm.keys_iff gm.get_set split: if_splits prod.splits sum.splits)
  ultimately show ?thesis
    using keys.load_saved [OF assms(1,2)] by (cases st1) (simp add: KeyManager_ListDomains_def)
qed

definition demo_kp :: DomainKeyPair where
  "demo_kp = \<lparr>dkp_Domain = ''A.se'', dkp_PublicKey = replicate 32 7, dkp_PrivateKey = replicate 64 7, dkp_CreatedAt = 0\<rparr>"

definition demo_key_env :: key_env where
  "demo_key_env = reg_env.extend demo_env \<lparr>json_domainKeyDTO = (\<lambda>_. Some [1]),
     unjson_domainKeyDTO = (\<lambda>bs. if bs = [1] then Some (key_dto demo_kp) else None)\<rparr>"

theorem KeyManager_map_witness:
  "\<exists>st1 st2. KeyManager_Save demo_key_env Written (Some demo_kp) (\<lparr>km_baseDir = ''keys'', km_keys = gm_empty\<rparr>, []) = (Inr (), st1) \<and>
     KeyManager_Delete demo_key_env True ''a.se'' st1 = (Inr (), st2) \<and>
     fst (KeyManager_Load demo_key_env ''a.se.'' st1) = Inr demo_kp \<and>
     fst (KeyManager_Load demo_key_env ''a.se.'' st2) = Inl ErrKeyNotFound"
proof -
  let ?E = demo_key_env let ?st = "(\<lparr>km_baseDir = ''keys'', km_keys = gm_empty\<rparr>, [] :: disk)"
  have n: "NormalizeDomain ?E ''A.se'' = ''a.se''" "NormalizeDomain ?E ''a.se'' = ''a.se''" "NormalizeDomain ?E ''a.se.'' = ''a.se''"
    by (simp_all add: domain_eval bit_Suc_0_iff)
  have v: "IsValidDomain ?E ''a.se''" by (simp add: domain_eval bit_Suc_0_iff)
  have s: "storable ?E demo_kp"
    by (simp add: storable_def demo_key_env_def reg_env.defs demo_kp_def PublicKeySize_def PrivateKeySize_def)
  have j: "json_domainKeyDTO ?E x = Some [1]" for x by (simp add: demo_key_env_def reg_env.defs)
  have d: "dkp_Domain demo_kp = ''A.se''" by (simp add: demo_kp_def)
  have "\<exists>st1. KeyManager_Save ?E Written (Some demo_kp) ?st = (Inr (), st1)"
    using n v d j by (simp add: KeyManager_Save_def Let_def SaveToFile_def os_WriteFile_def gm_get_def)
  then obtain st1 where st1: "KeyManager_Save ?E Written (Some demo_kp) ?st = (Inr (), st1)" by blast
  have "\<exists>st2. KeyManager_Delete ?E True ''a.se'' st1 = (Inr (), st2)"
    using n v by (cases st1) (simp add: KeyManager_Delete_def Let_def)
  then obtain st2 where st2: "KeyManager_Delete ?E True ''a.se'' st1 = (Inr (), st2)" by blast
  have "km_wf ?st" by (simp add: km_wf_def gm_wf_def gm_empty_def)
  from KeyManager_map [OF s st1 this st2, of "''a.se.''"] have
    "fst (KeyManager_Load ?E ''a.se.'' st1) = Inr demo_kp" "fst (KeyManager_Load ?E ''a.se.'' st2) = Inl ErrKeyNotFound"
    using n d by simp_all
  with st1 st2 show ?thesis by blast
qed

end
