(* ===== verification/Node_DNS.thy ===== *)
theory Node_DNS
  imports Reg_KeyManager
begin

text \<open>
  \<^verbatim>\<open>src/cmd/node/dns.go\<close>: the resolver of a node asks the key manager, its own table of keys and the system's DNS,
  in this order.  The key manager is shared with the rest of the program, so its state is an argument;
  the resolver only holds a pointer to it or nil.
\<close>

section \<open>The resolver\<close>

record NodeDNSResolver =
  nd_mock :: "MockDNSResolver option"
  nd_system :: "(string \<Rightarrow> string list option) option"
  nd_km :: bool

definition NewNodeDNSResolver :: "(string \<Rightarrow> string list option) \<Rightarrow> NodeDNSResolver" where
  "NewNodeDNSResolver lookupTXT = \<lparr>nd_mock = Some NewMockDNSResolver, nd_system = Some lookupTXT, nd_km = False\<rparr>"

definition SetKeyManager :: "NodeDNSResolver \<Rightarrow> bool \<Rightarrow> NodeDNSResolver" where
  "SetKeyManager r km = r\<lparr>nd_km := km\<rparr>"

text \<open>A key counts only when it has the right size.\<close>

definition sized :: "bytes result \<Rightarrow> bytes option" where
  "sized r = (case r of Inl _ \<Rightarrow> None | Inr pub \<Rightarrow> if length pub = PublicKeySize then Some pub else None)"

text \<open>A key of the key manager is copied into the table; the error of \<^verbatim>\<open>SetKey\<close> is ignored.\<close>

definition cache_key :: "'e key_env_scheme \<Rightarrow> string \<Rightarrow> bytes \<Rightarrow> NodeDNSResolver \<Rightarrow> NodeDNSResolver" where
  "cache_key E norm pub r =
     (case nd_mock r of
        None \<Rightarrow> r
      | Some m \<Rightarrow> (case Mock_SetKey E m norm pub of Inl _ \<Rightarrow> r | Inr m1 \<Rightarrow> r\<lparr>nd_mock := Some m1\<rparr>))"

definition Node_LookupOwnerKey ::
  "'e key_env_scheme \<Rightarrow> string \<Rightarrow> NodeDNSResolver \<times> key_state \<Rightarrow> bytes result \<times> NodeDNSResolver \<times> key_state" where
  "Node_LookupOwnerKey E domain st =
     (let (r, ks) = st; norm = NormalizeDomain E domain in
      if norm = [] then (Inl ErrEmptyDomain, st)
      else
        (let (found, ks1) = (if nd_km r then KeyManager_Load E norm ks else (Inl ErrKeyNotFound, ks)) in
         case sized (map_sum id dkp_PublicKey found) of
           Some pub \<Rightarrow> (Inr pub, cache_key E norm pub r, ks1)
         | None \<Rightarrow>
             (case Option.bind (nd_mock r) (\<lambda>m. sized (Mock_LookupOwnerKey E m norm)) of
                Some pub \<Rightarrow> (Inr pub, r, ks1)
              | None \<Rightarrow>
                  (case Option.bind (nd_system r) (\<lambda>txt. sized (System_LookupOwnerKey E txt norm)) of
                     Some pub \<Rightarrow> (Inr pub, r, ks1)
                   | None \<Rightarrow> (Inl ErrDomainNotFound, r, ks1)))))"

text \<open>\<^verbatim>\<open>SetKey\<close> and \<^verbatim>\<open>SetKeyHex\<close> make a table when there is none.\<close>

definition node_mock :: "NodeDNSResolver \<Rightarrow> MockDNSResolver" where
  "node_mock r = (case nd_mock r of None \<Rightarrow> NewMockDNSResolver | Some m \<Rightarrow> m)"

definition Node_SetKey :: "'e key_env_scheme \<Rightarrow> NodeDNSResolver \<Rightarrow> string \<Rightarrow> bytes \<Rightarrow> unit result \<times> NodeDNSResolver" where
  "Node_SetKey E r domain pub =
     (case Mock_SetKey E (node_mock r) domain pub of
        Inl e \<Rightarrow> (Inl e, r\<lparr>nd_mock := Some (node_mock r)\<rparr>)
      | Inr m \<Rightarrow> (Inr (), r\<lparr>nd_mock := Some m\<rparr>))"

definition Node_SetKeyHex ::
  "'e key_env_scheme \<Rightarrow> NodeDNSResolver \<Rightarrow> string \<Rightarrow> string \<Rightarrow> unit result \<times> NodeDNSResolver" where
  "Node_SetKeyHex E r domain hexKey =
     (case Mock_SetKeyHex E (node_mock r) domain hexKey of
        Inl e \<Rightarrow> (Inl e, r\<lparr>nd_mock := Some (node_mock r)\<rparr>)
      | Inr m \<Rightarrow> (Inr (), r\<lparr>nd_mock := Some m\<rparr>))"

definition Node_ListDomains :: "NodeDNSResolver \<Rightarrow> string list" where
  "Node_ListDomains r = (case nd_mock r of None \<Rightarrow> [] | Some m \<Rightarrow> Mock_ListDomains m)"

section \<open>The answer as a function of the state\<close>

text \<open>
  The key of a domain: what the key manager has for it, else the table, else DNS.  The data store uses the resolver as a
  function from domains to keys; \<open>owner_of\<close> is that function.
\<close>

definition owner_of :: "'e key_env_scheme \<Rightarrow> NodeDNSResolver \<times> key_state \<Rightarrow> DNSResolver" where
  "owner_of E st domain = fst (Node_LookupOwnerKey E domain st)"

definition km_key :: "'e key_env_scheme \<Rightarrow> NodeDNSResolver \<times> key_state \<Rightarrow> string \<Rightarrow> bytes option" where
  "km_key E st norm = (if nd_km (fst st) then sized (map_sum id dkp_PublicKey (fst (KeyManager_Load E norm (snd st)))) else None)"

lemma sized_simps [simp]: "sized (Inl e) = None"
  by (simp add: sized_def)

lemma sized_Some: "sized x = Some pub \<longleftrightarrow> x = Inr pub \<and> length pub = PublicKeySize"
  by (auto simp: sized_def split: sum.splits if_splits)

lemma owner_of_eq:
  "owner_of E st domain =
     (let norm = NormalizeDomain E domain in
      if norm = [] then Inl ErrEmptyDomain
      else (case km_key E st norm of
        Some pub \<Rightarrow> Inr pub
      | None \<Rightarrow>
          (case Option.bind (nd_mock (fst st)) (\<lambda>m. sized (Mock_LookupOwnerKey E m norm)) of
             Some pub \<Rightarrow> Inr pub
           | None \<Rightarrow>
               (case Option.bind (nd_system (fst st)) (\<lambda>txt. sized (System_LookupOwnerKey E txt norm)) of
                  Some pub \<Rightarrow> Inr pub
                | None \<Rightarrow> Inl ErrDomainNotFound))))"
  by (cases st) (auto simp: owner_of_def Node_LookupOwnerKey_def km_key_def Let_def split: prod.splits option.splits)

lemma owner_of_sized: "owner_of E st domain = Inr pub \<Longrightarrow> length pub = PublicKeySize"
  by (auto simp: owner_of_eq km_key_def Let_def sized_Some bind_eq_Some_conv split: if_splits option.splits)

lemma cache_key_simps [simp]: "nd_km (cache_key E d pub r) = nd_km r" "nd_system (cache_key E d pub r) = nd_system r"
  by (simp_all add: cache_key_def split: option.split sum.split)

text \<open>What a lookup leaves behind: the same key manager as a map, and one more key in the table at most.\<close>

lemma lookup_state:
  assumes "Node_LookupOwnerKey E domain (r, ks) = (res, r1, ks1)"
  shows "km_view E ks1 = km_view E ks" and "nd_km r1 = nd_km r" and "nd_system r1 = nd_system r"
    and "r1 = r \<or> (\<exists>pub. km_key E (r, ks) (NormalizeDomain E domain) = Some pub \<and>
      r1 = cache_key E (NormalizeDomain E domain) pub r)"
proof -
  let ?n = "NormalizeDomain E domain"
  let ?f = "if nd_km r then KeyManager_Load E ?n ks else (Inl ErrKeyNotFound, ks)"
  have c: "r1 = r \<and> (ks1 = ks \<or> ks1 = snd ?f) \<or>
      (\<exists>pub. sized (map_sum id dkp_PublicKey (fst ?f)) = Some pub \<and> r1 = cache_key E ?n pub r \<and> ks1 = snd ?f)"
    using assms by (auto simp: Node_LookupOwnerKey_def Let_def split: if_splits prod.splits option.splits)
  then show "km_view E ks1 = km_view E ks" using Load_keeps(1) [of E ?n ks] by auto
  show "nd_km r1 = nd_km r" "nd_system r1 = nd_system r"
    using c by auto
  show "r1 = r \<or> (\<exists>pub. km_key E (r, ks) ?n = Some pub \<and> r1 = cache_key E ?n pub r)"
    using c by (auto simp: km_key_def split: if_splits)
qed

lemma km_key_view: "km_view E ks1 = km_view E ks \<Longrightarrow> nd_km r1 = nd_km r \<Longrightarrow> km_key E (r1, ks1) = km_key E (r, ks)"
  by (simp add: km_key_def Load_view fun_eq_iff)

text \<open>
  Copying keys into the table does not change an answer when normal forms are stable, as they are for every domain but
  those with white space before a final dot.
\<close>

lemma owner_of_stable:
  assumes "Node_LookupOwnerKey E domain (r, ks) = (res, st1)"
    and "NormalizeDomain E (NormalizeDomain E domain) = NormalizeDomain E domain"
    and "NormalizeDomain E (NormalizeDomain E d) = NormalizeDomain E d"
  shows "owner_of E st1 d = owner_of E (r, ks) d"
proof -
  obtain r1 ks1 where st1: "st1 = (r1, ks1)" by (cases st1)
  note s = lookup_state [OF assms(1) [unfolded st1]]
  have km: "km_key E (r1, ks1) = km_key E (r, ks)" by (rule km_key_view [OF s(1,2)])
  let ?n = "NormalizeDomain E d" let ?m = "NormalizeDomain E domain"
  show ?thesis
  proof (cases "km_key E (r, ks) ?n")
    case (Some pub)
    then show ?thesis using km by (simp add: owner_of_eq st1 Let_def)
  next
    case None
    have "Option.bind (nd_mock r1) (\<lambda>m. sized (Mock_LookupOwnerKey E m ?n)) =
      Option.bind (nd_mock r) (\<lambda>m. sized (Mock_LookupOwnerKey E m ?n))"
    proof (cases "r1 = r")
      case False
      with s(4) obtain pub where p: "km_key E (r, ks) ?m = Some pub" "r1 = cache_key E ?m pub r" by blast
      with None have "?n \<noteq> ?m" by auto
      with p(2) assms(2,3) show ?thesis
        by (auto simp: cache_key_def mock.lookup_set split: option.splits sum.splits)
    qed simp
    then show ?thesis unfolding st1 owner_of_eq fst_conv Let_def km s(3) None by simp
  qed
qed

section \<open>Properties\<close>

text \<open>
  C32. The resolver of a node.  A key set by hand answers for its domain unless the key manager has a
  key of its own for it, and changes the answer of no other domain; every key it gives has the size of an Ed25519 key; and a
  lookup, which copies keys, changes no later answer, so the data store may use the resolver as a function.
\<close>

theorem Node_resolver_answers:
  assumes "Node_SetKeyHex E r domain hexKey = (Inr (), r1)"
    and "\<forall>x \<in> {domain, d, d'}. NormalizeDomain E (NormalizeDomain E x) = NormalizeDomain E x"
  shows "owner_of E (r1, ks) d =
      (if NormalizeDomain E d = NormalizeDomain E domain \<and> km_key E (r, ks) (NormalizeDomain E d) = None
       then DecodePublicKeyHex hexKey else owner_of E (r, ks) d) \<and>
    owner_of E (snd (Node_LookupOwnerKey E d' (r1, ks))) d = owner_of E (r1, ks) d \<and>
    (\<forall>pub. owner_of E (r1, ks) d = Inr pub \<longrightarrow> length pub = PublicKeySize)"
proof -
  obtain pub m where m: "DecodePublicKeyHex hexKey = Inr pub" "Mock_SetKey E (node_mock r) domain pub = Inr m"
    "r1 = r\<lparr>nd_mock := Some m\<rparr>"
    using assms(1) by (auto simp: Node_SetKeyHex_def Mock_SetKeyHex_def err_bind_def split: sum.splits)
  have pub: "length pub = PublicKeySize" using m(1) by (auto simp: DecodePublicKeyHex_def Let_def split: prod.splits if_splits)
  have km: "km_key E (r1, ks) = km_key E (r, ks)" by (rule km_key_view) (simp_all add: m(3))
  have n: "NormalizeDomain E domain \<noteq> []" using m(2) mock.set_ok [of E "node_mock r" domain pub] by blast
  have old: "Option.bind (nd_mock r) (\<lambda>m. sized (Mock_LookupOwnerKey E m x)) = sized (Mock_LookupOwnerKey E (node_mock r) x)" for x
    by (cases "nd_mock r") (auto simp: node_mock_def NewMockDNSResolver_def Mock_LookupOwnerKey_def gm.get_empty Let_def)
  have new: "sized (Mock_LookupOwnerKey E m (NormalizeDomain E d)) =
    (if NormalizeDomain E d = NormalizeDomain E domain then Some pub
     else sized (Mock_LookupOwnerKey E (node_mock r) (NormalizeDomain E d)))"
    using mock.lookup_set [OF m(2)] assms(2) pub by (simp add: sized_def)
  have s: "nd_system r1 = nd_system r" "nd_mock r1 = Some m" by (simp_all add: m(3))
  have "owner_of E (r1, ks) d =
      (if NormalizeDomain E d = NormalizeDomain E domain \<and> km_key E (r, ks) (NormalizeDomain E d) = None
       then DecodePublicKeyHex hexKey else owner_of E (r, ks) d)"
    unfolding owner_of_eq fst_conv Let_def km s old using n m(1) new by (auto split: option.split)
  moreover have "owner_of E (snd (Node_LookupOwnerKey E d' (r1, ks))) d = owner_of E (r1, ks) d"
    by (rule owner_of_stable [where domain = d' and res = "fst (Node_LookupOwnerKey E d' (r1, ks))"]) (use assms(2) in auto)
  ultimately show ?thesis using owner_of_sized [of E "(r1, ks)" d] by blast
qed

theorem Node_resolver_answers_witness:
  "\<exists>r1. Node_SetKeyHex demo_key_env (NewNodeDNSResolver (\<lambda>_. None)) ''a.se'' (EncodePublicKeyHex (replicate 32 7)) = (Inr (), r1) \<and>
     owner_of demo_key_env (r1, (\<lparr>km_baseDir = [], km_keys = gm_empty\<rparr>, [])) ''a.se.'' = Inr (replicate 32 7)"
proof -
  let ?E = demo_key_env let ?r = "NewNodeDNSResolver (\<lambda>_. None)" let ?h = "EncodePublicKeyHex (replicate 32 7)"
  let ?ks = "(\<lparr>km_baseDir = [], km_keys = gm_empty\<rparr>, [] :: disk)"
  have n: "NormalizeDomain ?E ''a.se'' = ''a.se''" "NormalizeDomain ?E ''a.se.'' = ''a.se''"
    by (simp_all add: domain_eval bit_Suc_0_iff)
  have v: "IsValidDomain ?E ''a.se''" by (simp add: domain_eval bit_Suc_0_iff)
  have h: "DecodePublicKeyHex ?h = Inr (replicate 32 7)" by (rule DecodePublicKeyHex_Encode) (simp add: PublicKeySize_def)
  have "\<exists>r1. Node_SetKeyHex ?E ?r ''a.se'' ?h = (Inr (), r1)"
    using n v h by (simp add: Node_SetKeyHex_def Mock_SetKeyHex_def Mock_SetKey_def)
  then obtain r1 where r1: "Node_SetKeyHex ?E ?r ''a.se'' ?h = (Inr (), r1)" by blast
  have "km_key ?E (?r, ?ks) ''a.se'' = None" by (simp add: km_key_def NewNodeDNSResolver_def)
  moreover have "\<forall>x \<in> {''a.se'', ''a.se.'', ''a.se''}. NormalizeDomain ?E (NormalizeDomain ?E x) = NormalizeDomain ?E x"
    using n by simp
  ultimately show ?thesis
    using Node_resolver_answers [OF r1, of "''a.se.''" "''a.se''" ?ks] r1 n h by auto
qed

end
