(* ===== verification/Node_Args.thy ===== *)
theory Node_Args
  imports Kad_Message Node_DNS
begin

text \<open>
  The text functions of the command line: \<^verbatim>\<open>splitCommandArgs\<close> and \<^verbatim>\<open>isCanonicalHexHash\<close> of
  \<^verbatim>\<open>src/cmd/node/cli.go\<close>, the helpers of \<^verbatim>\<open>src/cmd/node/main.go\<close>, and the two functions of \<^verbatim>\<open>path/filepath\<close> and \<^verbatim>\<open>strings\<close> they
  use and no other part does.
\<close>

section \<open>Library functions\<close>

fun str_join :: "string \<Rightarrow> string list \<Rightarrow> string" where
  "str_join sep [] = []"
| "str_join sep [s] = s"
| "str_join sep (s # t # ts) = s @ sep @ str_join sep (t # ts)"

text \<open>\<^verbatim>\<open>strings.Cut\<close> at a single character: what is before, what is after, whether it was found.\<close>

fun str_cut :: "string \<Rightarrow> char \<Rightarrow> string \<times> string \<times> bool" where
  "str_cut [] sep = ([], [], False)"
| "str_cut (c # cs) sep =
     (if c = sep then ([], cs, True)
      else (case str_cut cs sep of (a, b, found) \<Rightarrow> (c # a, b, found)))"

text \<open>\<^verbatim>\<open>filepath.Clean\<close>: the elements of a path without \<open>.\<close>, with \<open>..\<close> resolved; \<open>acc\<close> is reversed.\<close>

fun clean_parts :: "bool \<Rightarrow> string list \<Rightarrow> string list \<Rightarrow> string list" where
  "clean_parts rooted acc [] = rev acc"
| "clean_parts rooted acc (p # ps) =
     (if p = [] \<or> p = ''.'' then clean_parts rooted acc ps
      else if p = ''..'' then
        (case acc of
           a # as \<Rightarrow> if a = ''..'' then clean_parts rooted (p # acc) ps else clean_parts rooted as ps
         | [] \<Rightarrow> clean_parts rooted (if rooted then [] else [p]) ps)
      else clean_parts rooted (p # acc) ps)"

definition filepath_Clean :: "string \<Rightarrow> string" where
  "filepath_Clean path =
     (let rooted = HasPrefix path ''/'';
          r = (if rooted then ''/'' else []) @ str_join ''/'' (clean_parts rooted [] (Split path (CHR ''/''))) in
      if r = [] then ''.'' else r)"

definition filepath_Join :: "string \<Rightarrow> string \<Rightarrow> string" where
  "filepath_Join a b =
     (if a = [] \<and> b = [] then []
      else filepath_Clean (if a = [] then b else if b = [] then a else a @ ''/'' @ b))"

section \<open>Commands\<close>

text \<open>The loop of \<^verbatim>\<open>splitCommandArgs\<close>: the open quote, if any, and the argument read so far.\<close>

fun split_args :: "char option \<Rightarrow> string \<Rightarrow> string \<Rightarrow> string list" where
  "split_args quote cur [] = (if length cur > 0 then [cur] else [])"
| "split_args (Some q) cur (c # cs) =
     (if c = q then split_args None cur cs else split_args (Some q) (cur @ [c]) cs)"
| "split_args None cur (c # cs) =
     (if c = CHR 0x22 \<or> c = CHR 0x27 then split_args (Some c) cur cs
      else if c = CHR '' '' \<or> c = CHR 0x09 then
        (if length cur > 0 then cur # split_args None [] cs else split_args None cur cs)
      else split_args None (cur @ [c]) cs)"

definition splitCommandArgs :: "string \<Rightarrow> string list" where
  "splitCommandArgs s = split_args None [] s"

definition isCanonicalHexHash :: "string \<Rightarrow> bool" where
  "isCanonicalHexHash h \<longleftrightarrow> length h = 64 \<and> list_all is_lower_hex h"

section \<open>Helpers of main.go\<close>

datatype find_error = ErrContactNotFound | ErrAmbigousPrefix | ErrIncorrectFormat

definition truncateID :: "string \<Rightarrow> string" where
  "truncateID i = (if length i \<le> 8 then i else take 4 i @ ''...'' @ drop (length i - 4) i)"

definition getEnv :: "(string \<Rightarrow> string) \<Rightarrow> string \<Rightarrow> string \<Rightarrow> string" where
  "getEnv os_Getenv key fallback = (if os_Getenv key \<noteq> [] then os_Getenv key else fallback)"

definition trimPortFromAddress :: "string \<Rightarrow> find_error + string" where
  "trimPortFromAddress address =
     (let (ip, rest, ok) = str_cut address (CHR '':'') in if \<not> ok \<or> ip = [] then Inl ErrIncorrectFormat else Inr ip)"

fun FindContactByAddress :: "Contact list \<Rightarrow> string \<Rightarrow> find_error + Contact" where
  "FindContactByAddress [] targetAddr = Inl ErrContactNotFound"
| "FindContactByAddress (c # cs) targetAddr = (if Address c = targetAddr then Inr c else FindContactByAddress cs targetAddr)"

text \<open>The loop of \<^verbatim>\<open>FindContactByID\<close>: the last match and their number; a nil identifier panics.\<close>

fun match_ids :: "'e unicode_env_scheme \<Rightarrow> string \<Rightarrow> Contact list \<Rightarrow> Contact option \<times> nat \<Rightarrow> (Contact option \<times> nat) option" where
  "match_ids E prefix [] st = Some st"
| "match_ids E prefix (c # cs) st =
     (case ID c of
        None \<Rightarrow> None
      | Some i \<Rightarrow>
          match_ids E prefix cs
            (if HasPrefix (ToLower E (KademliaID_String i)) prefix then (Some c, Suc (snd st)) else st))"

definition FindContactByID :: "'e unicode_env_scheme \<Rightarrow> Contact list \<Rightarrow> string \<Rightarrow> (find_error + Contact) option" where
  "FindContactByID E contacts IDprefix =
     (let prefix = ToLower E (TrimSpace IDprefix) in
      Option.bind (match_ids E prefix contacts (None, 0)) (\<lambda>(matched, matchCount).
        if matchCount = 0 then Some (Inl ErrContactNotFound)
        else if matchCount > 1 then Some (Inl ErrAmbigousPrefix)
        else map_option Inr matched))"

section \<open>Lemmas\<close>


text \<open>A way to write any argument: each character in quotes of the other kind.\<close>

fun quote_arg :: "string \<Rightarrow> string" where
  "quote_arg [] = []"
| "quote_arg (c # cs) = (if c = CHR 0x22 then [CHR 0x27, c, CHR 0x27] else [CHR 0x22, c, CHR 0x22]) @ quote_arg cs"

lemma split_quote_arg: "split_args None cur (quote_arg a @ rest) = split_args None (cur @ a) rest"
  by (induction a arbitrary: cur) auto

lemma split_join:
  "\<forall>a \<in> set args. a \<noteq> [] \<Longrightarrow> split_args None [] (str_join '' '' (map quote_arg args)) = args"
proof (induction args)
  case (Cons a args)
  show ?case
  proof (cases args)
    case Nil
    with Cons.prems split_quote_arg [of "[]" a "[]"] show ?thesis by simp
  next
    case (Cons b bs)
    with Cons.IH Cons.prems split_quote_arg [of "[]" a "'' '' @ str_join '' '' (map quote_arg args)"] show ?thesis
      by simp
  qed
qed simp

lemma split_args_nonempty: "a \<in> set (split_args q cur s) \<Longrightarrow> a \<noteq> []"
  by (induction q cur s rule: split_args.induct) (auto split: if_splits)

lemma lower_hex_char: "is_lower_hex c \<Longrightarrow> \<exists>n < 16. c = hex_char n"
proof -
  assume a: "is_lower_hex c"
  let ?n = "of_char c :: nat"
  have c: "c = char_of ?n" by simp
  show "\<exists>n < 16. c = hex_char n"
  proof (cases "?n \<le> 57")
    case True
    with a have "?n - 48 < 16" "c = hex_char (?n - 48)"
      by (auto simp: is_lower_hex_def hex_char_def Let_def)
    then show ?thesis by blast
  next
    case False
    with a have "?n - 87 < 16" "c = hex_char (?n - 87)"
      by (auto simp: is_lower_hex_def hex_char_def Let_def)
    then show ?thesis by blast
  qed
qed

lemma lower_hex_encodes:
  "list_all is_lower_hex s \<Longrightarrow> length s = 2 * n \<Longrightarrow> \<exists>bs. length bs = n \<and> s = hex_EncodeToString bs"
proof (induction n arbitrary: s)
  case (Suc n)
  then obtain c d t where s: "s = c # d # t" by (cases s; cases "tl s") auto
  obtain a b where ab: "a < 16" "c = hex_char a" "b < 16" "d = hex_char b"
    using Suc.prems(1) lower_hex_char unfolding s by (auto dest!: lower_hex_char)
  obtain bs where bs: "length bs = n" "t = hex_EncodeToString bs" using Suc.IH [of t] Suc.prems unfolding s by auto
  have "unat (word_of_nat (16 * a + b) :: byte) = 16 * a + b"
    by (simp only: unat_of_nat) (use ab in simp)
  then have "s = hex_EncodeToString (word_of_nat (16 * a + b) # bs)" using ab bs(2) s by simp
  with bs(1) show ?case by (metis length_Cons)
qed simp

text \<open>The canonical form of a key is exactly what \<^verbatim>\<open>String\<close> prints of an identifier.\<close>

lemma isCanonicalHexHash_iff: "isCanonicalHexHash h \<longleftrightarrow> (\<exists>i. h = KademliaID_String i)"
proof
  assume "isCanonicalHexHash h"
  then obtain bs where "length bs = IDLength" "h = hex_EncodeToString bs"
    using lower_hex_encodes [of h 32] by (auto simp: isCanonicalHexHash_def IDLength_def)
  then have "h = KademliaID_String (mk_id bs)" by (simp add: KademliaID_String_def)
  then show "\<exists>i. h = KademliaID_String i" ..
next
  assume "\<exists>i. h = KademliaID_String i"
  then show "isCanonicalHexHash h"
    using hex_EncodeToString_lower by (auto simp: isCanonicalHexHash_def) (simp add: KademliaID_String_def)
qed

section \<open>Properties\<close>

text \<open>
  Every command can be typed: quoted one by one and joined by blanks, any arguments but empty ones
  come back from \<^verbatim>\<open>splitCommandArgs\<close>, with their blanks and quotes; an empty argument is never in its result, so \<open>''''\<close> cannot be
  given to a command.
\<close>

theorem splitCommandArgs_quoted:
  assumes "[] \<notin> set args"
  shows "splitCommandArgs (str_join '' '' (map quote_arg args)) = args \<and> [] \<notin> set (splitCommandArgs s)"
  using assms split_join [of args] split_args_nonempty by (auto simp: splitCommandArgs_def)

theorem splitCommandArgs_quoted_witness:
  "splitCommandArgs (str_join '' '' (map quote_arg [''put'', ''a b'', ''it's''])) = [''put'', ''a b'', ''it's'']"
proof -
  have "[] \<notin> set [''put'', ''a b'', ''it's'']" by simp
  from splitCommandArgs_quoted [OF this] show ?thesis by blast
qed

end
