(* ===== verification/Node_CLI.thy ===== *)
theory Node_CLI
  imports Kad_Node Node_Args
begin

text \<open>
  The commands of \<^verbatim>\<open>src/cmd/node/cli.go\<close> but \<^verbatim>\<open>publish\<close>, over the operations of a node, the key manager, the resolver and
  the files of the host.  A handler returns what it prints as a value (\<open>report\<close>) or its error; the formatting of the text is not
  modelled.  \<open>None\<close> is a panic, or a call of the node that does not return.
\<close>

section \<open>The interface\<close>

datatype cli_error =
    ErrUsage | ErrNotInitialized | ErrUnknownCommand | ErrPingTarget find_error | ErrPingFailed net_error
  | ErrPutEmpty | ErrStoreFailed node_error | ErrInvalidKey | ErrRetrieval lookup_error | ErrWriteFile
  | ErrUnknownShow | ErrBadDomain | ErrBadPackage | ErrBadSpec | ErrPackageNotFound | ErrSecurity reg_error
  | ErrBadVersion reg_error | ErrRecordLookup | ErrCorrupt reg_error | ErrHistory reg_error | ErrNoSuchVersion
  | ErrBlobLookup | ErrDataIntegrity | ErrKeygen reg_error | ErrSetKey reg_error
  | ErrPrevMissing | ErrUnknownFlag | ErrFileNotFound | ErrNoPrivateKey | ErrOwnership reg_error | ErrOwnerMismatch
  | ErrRollback | ErrZeroPrevious | ErrFork | ErrPreviousNotFound | ErrInitialHasPrevious | ErrCreateRecord reg_error

datatype store_item =
    is_Record_item: Record_item nat KademliaID "VersionRecord option" nat
  | is_Pointer_item: Pointer_item nat KademliaID "LatestPointer option" nat
  | is_Blob_item: Blob_item nat KademliaID bytes

datatype report =
    Silent | Banner "string option \<times> string" | Help | Bye | Pinged RPCType "find_error + string" KademliaID
  | Stored KademliaID "string option" nat
  | Got KademliaID bytes "string option" "KademliaID option"
  | Forgot KademliaID bool
  | Table "(int \<times> KademliaID) list"
  | Store_empty | Store_contents nat "store_item list" nat nat nat
  | DNS_missing string | DNS_found string bytes
  | Package LatestPointer "unit result option" "(VersionRecord \<times> unit result option) list" "unit result"
  | Installed VersionRecord string nat
  | Keygen_done string bytes
  | Set_done string
  | Published string string string string KademliaID KademliaID string string bool

text \<open>
  The host: which paths are readable files, which can be written, and the random key pair, clock and disk
  of a \<^verbatim>\<open>keygen\<close>.
\<close>

record host_env =
  he_read :: "string \<Rightarrow> bytes option"
  he_write_ok :: "string \<Rightarrow> bool"
  he_keys :: "(bytes \<times> bytes) result"
  he_now :: int
  he_outcome :: write_outcome

text \<open>
  \<^verbatim>\<open>CLI\<close>: the pointers to the node, the key manager and the resolver, nil or not.  The node shares the resolver
  (\<^verbatim>\<open>SetDNSResolver\<close> in \<^verbatim>\<open>createNode\<close>), so its operations depend on the owners the resolver gives at the time of the command.  Deleting
  from the node's store is the one operation on it that \<open>node_ops\<close> does not have.
\<close>

record 'w CLI =
  cli_Kad :: "(DNSResolver \<Rightarrow> 'w node_ops) option"
  cli_Delete :: "KademliaID \<Rightarrow> 'w \<Rightarrow> bool \<times> 'w"
  cli_KM :: bool
  cli_Resolver :: bool

record 'w cli_state =
  cs_world :: 'w
  cs_dns :: NodeDNSResolver
  cs_keys :: key_state
  cs_files :: "(string \<times> bytes) list"

type_synonym 'w handler = "'w cli_state \<Rightarrow> ((cli_error + report) \<times> 'w cli_state) option"

text \<open>The owner of a domain as the resolver sees it now, and the state a lookup leaves.\<close>

definition cs_owner :: "'e key_env_scheme \<Rightarrow> 'w cli_state \<Rightarrow> DNSResolver" where
  "cs_owner E s = owner_of E (cs_dns s, cs_keys s)"

definition cs_looked_up :: "'e key_env_scheme \<Rightarrow> string \<Rightarrow> 'w cli_state \<Rightarrow> 'w cli_state" where
  "cs_looked_up E domain s =
     (let (r, dns, ks) = Node_LookupOwnerKey E domain (cs_dns s, cs_keys s) in s\<lparr>cs_dns := dns, cs_keys := ks\<rparr>)"

definition cs_kad :: "'e key_env_scheme \<Rightarrow> 'w CLI \<Rightarrow> 'w cli_state \<Rightarrow> 'w node_ops option" where
  "cs_kad E C s = map_option (\<lambda>K. K (cs_owner E s)) (cli_Kad C)"

text \<open>\<^verbatim>\<open>os.WriteFile\<close> on a file of the user.\<close>

definition cs_write :: "host_env \<Rightarrow> string \<Rightarrow> bytes \<Rightarrow> 'w cli_state \<Rightarrow> bool \<times> 'w cli_state" where
  "cs_write H filename data s =
     (if he_write_ok H filename then (True, s\<lparr>cs_files := cs_files s @ [(filename, data)]\<rparr>) else (False, s))"

section \<open>Contacts and values\<close>

definition HandlePing :: "'e key_env_scheme \<Rightarrow> 'w CLI \<Rightarrow> string list \<Rightarrow> 'w handler" where
  "HandlePing E C args s =
     (case args of
        [arg] \<Rightarrow>
          (let target = TrimSpace arg in
           if target = [] then Some (Inl ErrUsage, s)
           else (case cs_kad E C s of
             None \<Rightarrow> Some (Inl ErrNotInitialized, s)
           | Some N \<Rightarrow>
               if \<not> op_has_rt N then Some (Inl ErrNotInitialized, s)
               else
                 (let contacts = GetAllContacts (op_rt N (cs_world s)) in
                  Option.bind
                    (if Contains target '':'' then
                       Some (case FindContactByAddress contacts target of
                         Inr c \<Rightarrow> Inr c
                       | Inl _ \<Rightarrow> Inr (NewContact (Some (NewKademliaIDFromAddress (sha256 E) target)) target))
                     else FindContactByID E contacts target)
                    (\<lambda>found. case found of
                       Inl e \<Rightarrow> Some (Inl (ErrPingTarget e), s)
                     | Inr c \<Rightarrow>
                         if ID c = None then None
                         else Option.bind (Kademlia_SendPing N (Some c) (cs_world s)) (\<lambda>(r, w).
                           case r of
                             Inl e \<Rightarrow> Some (Inl (ErrPingFailed e), s\<lparr>cs_world := w\<rparr>)
                           | Inr resp \<Rightarrow>
                               map_option (\<lambda>i. (Inr (Pinged (Type resp) (trimPortFromAddress (Address (Sender resp))) i),
                                 s\<lparr>cs_world := w\<rparr>)) (ID (Sender resp)))))))
      | _ \<Rightarrow> Some (Inl ErrUsage, s))"

text \<open>The first candidate path that is a readable file.\<close>

fun first_file :: "host_env \<Rightarrow> string list \<Rightarrow> (string \<times> bytes) option" where
  "first_file H [] = None"
| "first_file H (p # ps) = (case he_read H p of Some data \<Rightarrow> Some (p, data) | None \<Rightarrow> first_file H ps)"

text \<open>\<^verbatim>\<open>HandlePut\<close>: an empty file is read as \<^verbatim>\<open>[]byte{}\<close>, which is not nil, so it is refused as empty data.\<close>

definition put_candidates :: "string \<Rightarrow> string list" where
  "put_candidates c = [c, filepath_Join ''/data'' c, filepath_Join ''/root/keys'' c, filepath_Join ''./keys'' c]"

definition HandlePut :: "'e key_env_scheme \<Rightarrow> host_env \<Rightarrow> 'w CLI \<Rightarrow> string list \<Rightarrow> 'w handler" where
  "HandlePut E H C args s =
     (if args = [] then Some (Inl ErrUsage, s)
      else
        (let file = (case args of [c] \<Rightarrow> first_file H (put_candidates c) | _ \<Rightarrow> None);
             data = (case file of Some (f, d) \<Rightarrow> d | None \<Rightarrow> bytes_of_string (str_join '' '' args)) in
         if length data = 0 then Some (Inl ErrPutEmpty, s)
         else Option.bind (cs_kad E C s) (\<lambda>N.
           map_option (\<lambda>(r, w).
               (case r of
                  Inl e \<Rightarrow> Inl (ErrStoreFailed e)
                | Inr key \<Rightarrow> Inr (Stored key (map_option fst file) (length data)), s\<lparr>cs_world := w\<rparr>))
             (Kademlia_Store E N data (cs_world s)))))"

definition HandleGet :: "'e key_env_scheme \<Rightarrow> host_env \<Rightarrow> 'w CLI \<Rightarrow> string list \<Rightarrow> 'w handler" where
  "HandleGet E H C args s =
     (case args of
        [] \<Rightarrow> Some (Inl ErrUsage, s)
      | arg # rest \<Rightarrow>
          if length rest > 1 then Some (Inl ErrUsage, s)
          else
            (let keyHex = TrimSpace arg in
             if \<not> isCanonicalHexHash keyHex then Some (Inl ErrInvalidKey, s)
             else
               (let key = NewKademliaID keyHex in
                Option.bind (cs_kad E C s) (\<lambda>N.
                Option.bind (LookupDataByID E N (Some key) (cs_world s)) (\<lambda>(r, w).
                  let s1 = s\<lparr>cs_world := w\<rparr> in
                  case r of
                    Inl e \<Rightarrow> Some (Inl (ErrRetrieval e), s1)
                  | Inr (data, responder) \<Rightarrow>
                      let (ok, s2) = (case rest of [] \<Rightarrow> (True, s1) | filename # _ \<Rightarrow> cs_write H filename data s1) in
                      if \<not> ok then Some (Inl ErrWriteFile, s2)
                      else map_option (\<lambda>i. (Inr (Got key data (case rest of [] \<Rightarrow> None | f # _ \<Rightarrow> Some f) (Some i)), s2))
                        (ID responder))))))"

definition HandleForget :: "'e key_env_scheme \<Rightarrow> 'w CLI \<Rightarrow> string list \<Rightarrow> 'w handler" where
  "HandleForget E C args s =
     (case args of
        [arg] \<Rightarrow>
          (case cs_kad E C s of
             None \<Rightarrow> Some (Inl ErrNotInitialized, s)
           | Some N \<Rightarrow>
               if \<not> op_has_ds N then Some (Inl ErrNotInitialized, s)
               else
                 (let keyHex = TrimSpace arg in
                  if \<not> isCanonicalHexHash keyHex then Some (Inl ErrInvalidKey, s)
                  else
                    (let key = NewKademliaID keyHex; (deleted, w) = cli_Delete C key (cs_world s) in
                     Some (Inr (Forgot key deleted), s\<lparr>cs_world := w\<rparr>))))
      | _ \<Rightarrow> Some (Inl ErrUsage, s))"

section \<open>Show\<close>

definition showRoutingTable :: "'e key_env_scheme \<Rightarrow> 'w CLI \<Rightarrow> 'w handler" where
  "showRoutingTable E C s =
     (case cs_kad E C s of
        None \<Rightarrow> Some (Inl ErrNotInitialized, s)
      | Some N \<Rightarrow>
          if \<not> op_has_rt N then Some (Inl ErrNotInitialized, s)
          else
            (let rt = op_rt N (cs_world s);
                 row = (\<lambda>c. Option.bind (GetBucketIndex rt (ID c)) (\<lambda>bi. map_option (\<lambda>i. (int bi, i)) (ID c))) in
             map_option (\<lambda>rows. (Inr (Table rows), s)) (those (map row (GetAllContacts rt)))))"

text \<open>
  A line of \<^verbatim>\<open>showDataStore\<close> for each key that still has a value, numbered by the position of the key; a record that does not parse
  is shown with its length only.
\<close>

fun store_items :: "'e key_env_scheme \<Rightarrow> (KademliaID \<Rightarrow> bytes option) \<Rightarrow> nat \<Rightarrow> KademliaID list \<Rightarrow> store_item list" where
  "store_items E get i [] = []"
| "store_items E get i (k # ks) =
     (case get k of
        None \<Rightarrow> store_items E get (Suc i) ks
      | Some val \<Rightarrow>
          (case DetectRecordType E val of
             RecordTypeVersionRecord \<Rightarrow>
               Record_item (Suc i) k (case ParseVersionRecord E val of Inl e \<Rightarrow> None | Inr vr \<Rightarrow> Some vr) (length val)
           | RecordTypeLatestPointer \<Rightarrow>
               Pointer_item (Suc i) k (case ParseLatestPointer E val of Inl e \<Rightarrow> None | Inr lp \<Rightarrow> Some lp) (length val)
           | RecordTypeUnknown \<Rightarrow> Blob_item (Suc i) k val) # store_items E get (Suc i) ks)"

definition showDataStore :: "'e key_env_scheme \<Rightarrow> 'w CLI \<Rightarrow> 'w handler" where
  "showDataStore E C s =
     (case cs_kad E C s of
        None \<Rightarrow> Some (Inl ErrNotInitialized, s)
      | Some N \<Rightarrow>
          if \<not> op_has_ds N then Some (Inl ErrNotInitialized, s)
          else
            (let keys = op_ds_GetAllKeys N (cs_world s);
                 items = store_items E (op_ds_Get N (cs_world s)) 0 keys in
             if keys = [] then Some (Inr Store_empty, s)
             else Some (Inr (Store_contents (length keys) items (length (filter is_Record_item items))
               (length (filter is_Pointer_item items)) (length (filter is_Blob_item items))), s)))"

definition showDNS :: "'e key_env_scheme \<Rightarrow> 'w CLI \<Rightarrow> string \<Rightarrow> 'w handler" where
  "showDNS E C domain s =
     (let norm = NormalizeDomain E domain in
      if \<not> IsValidDomain E norm then Some (Inl ErrBadDomain, s)
      else if \<not> cli_Resolver C then Some (Inl ErrNotInitialized, s)
      else (case cs_owner E s norm of
        Inl e \<Rightarrow> Some (Inr (DNS_missing norm), cs_looked_up E norm s)
      | Inr pub \<Rightarrow> Some (Inr (DNS_found norm pub), cs_looked_up E norm s)))"

text \<open>A signature checked with the node's resolver, \<open>None\<close> when there is none.\<close>

definition check_pointer :: "'e key_env_scheme \<Rightarrow> 'w CLI \<Rightarrow> LatestPointer \<Rightarrow> 'w cli_state \<Rightarrow> unit result option \<times> 'w cli_state" where
  "check_pointer E C lp s =
     (if cli_Resolver C then (Some (LatestPointer_VerifyWithResolver E (Some lp) (Some (cs_owner E s))), cs_looked_up E (lp_Domain lp) s)
      else (None, s))"

definition check_version :: "'e key_env_scheme \<Rightarrow> 'w CLI \<Rightarrow> VersionRecord \<Rightarrow> 'w cli_state \<Rightarrow>
   VersionRecord \<times> unit result option \<times> 'w cli_state" where
  "check_version E C vr s =
     (if cli_Resolver C then
        (case VersionRecord_VerifyWithResolver E (Some vr) (Some (cs_owner E s)) of
           (vr1, r) \<Rightarrow> (the vr1, Some r, cs_looked_up E (vr_Domain vr) s))
      else (vr, None, s))"

fun check_chain :: "'e key_env_scheme \<Rightarrow> 'w CLI \<Rightarrow> VersionRecord list \<Rightarrow> 'w cli_state \<Rightarrow>
   (VersionRecord \<times> unit result option) list \<times> 'w cli_state" where
  "check_chain E C [] s = ([], s)"
| "check_chain E C (vr # vrs) s =
     (case check_version E C vr s of
        (vr1, r, s1) \<Rightarrow> (case check_chain E C vrs s1 of (rs, s2) \<Rightarrow> ((vr1, r) # rs, s2)))"

definition showPackage :: "'e key_env_scheme \<Rightarrow> 'w CLI \<Rightarrow> string \<Rightarrow> 'w handler" where
  "showPackage E C pkgTarget s =
     (case Split pkgTarget (CHR '':'') of
        [d, p] \<Rightarrow>
          (let domain = NormalizeDomain E d; pkg = TrimSpace p in
           if \<not> IsValidDomain E domain then Some (Inl ErrBadDomain, s)
           else if \<not> IsValidPackageName pkg then Some (Inl ErrBadPackage, s)
           else
             Option.bind (cs_kad E C s) (\<lambda>N.
             Option.bind (LookupLatestPointer E N domain pkg (cs_world s)) (\<lambda>(found, w).
               case found of
                 Inl e \<Rightarrow> Some (Inl ErrPackageNotFound, s\<lparr>cs_world := w\<rparr>)
               | Inr (lp, _) \<Rightarrow>
                   (let (sig, s1) = check_pointer E C lp (s\<lparr>cs_world := w\<rparr>);
                        ((chain, walked), w2) = Kademlia_WalkVersionChain E N (lp_VersionRecordHash lp) (cs_world s1);
                        s2 = s1\<lparr>cs_world := w2\<rparr> in
                    if walked \<noteq> Inr () \<and> chain = [] then
                      Some (Inl (ErrHistory (case walked of Inl e \<Rightarrow> e | Inr _ \<Rightarrow> ErrText [])), s2)
                    else
                      (let (checks, s3) = check_chain E C chain s2 in
                       Some (Inr (Package lp sig checks walked), s3))))))
      | _ \<Rightarrow> Some (Inl ErrBadSpec, s))"

definition HandleShow :: "'e key_env_scheme \<Rightarrow> 'w CLI \<Rightarrow> string list \<Rightarrow> 'w handler" where
  "HandleShow E C args s =
     (case args of
        [] \<Rightarrow> Some (Inl ErrUsage, s)
      | a # rest \<Rightarrow>
          (let sub = ToUpper E a in
           if sub = ''RT'' \<or> sub = ''ROUTING'' then showRoutingTable E C s
           else if sub = ''DS'' then showDataStore E C s
           else if sub = ''DNS'' then (case rest of [] \<Rightarrow> Some (Inl ErrUsage, s) | d # _ \<Rightarrow> showDNS E C d s)
           else if sub = ''PACKAGE'' \<or> sub = ''PKG'' then
             (case rest of
                [p] \<Rightarrow> showPackage E C p s
              | [d, p] \<Rightarrow> showPackage E C (d @ '':'' @ p) s
              | _ \<Rightarrow> Some (Inl ErrUsage, s))
           else if Contains a '':'' then showPackage E C a s
           else (case rest of [p] \<Rightarrow> showPackage E C (a @ '':'' @ p) s | _ \<Rightarrow> Some (Inl ErrUnknownShow, s))))"

section \<open>Install\<close>

definition install_args :: "'e key_env_scheme \<Rightarrow> string list \<Rightarrow> cli_error + string \<times> string \<times> string \<times> string" where
  "install_args E args =
     (let spec = (\<lambda>target dest. case Split target (CHR '':'') of
            [d, p, v] \<Rightarrow> Inr (NormalizeDomain E d, TrimSpace p, TrimSpace v, dest)
          | _ \<Rightarrow> Inl ErrBadSpec) in
      case args of
        [target] \<Rightarrow> spec target []
      | [target, dest] \<Rightarrow> spec target dest
      | [d, p, v] \<Rightarrow> Inr (NormalizeDomain E d, TrimSpace p, TrimSpace v, [])
      | [d, p, v, dest] \<Rightarrow> Inr (NormalizeDomain E d, TrimSpace p, TrimSpace v, dest)
      | _ \<Rightarrow> Inl ErrUsage)"

text \<open>The head of the chain, for \<^verbatim>\<open>latest\<close>.\<close>

definition install_latest ::
  "'e key_env_scheme \<Rightarrow> 'w CLI \<Rightarrow> 'w node_ops \<Rightarrow> LatestPointer \<Rightarrow> 'w cli_state \<Rightarrow>
   ((cli_error + VersionRecord) \<times> 'w cli_state) option" where
  "install_latest E C N lp s =
     Option.bind (LookupData E N (lp_VersionRecordHash lp) (cs_world s)) (\<lambda>(r, w).
       let s1 = s\<lparr>cs_world := w\<rparr> in
       case r of
         Inl e \<Rightarrow> Some (Inl ErrRecordLookup, s1)
       | Inr (vrData, _) \<Rightarrow>
           if length vrData = 0 then Some (Inl ErrRecordLookup, s1)
           else (case ParseVersionRecord E vrData of
             Inl e \<Rightarrow> Some (Inl (ErrCorrupt e), s1)
           | Inr vr \<Rightarrow>
               (case check_version E C vr s1 of
                  (vr1, Some (Inl e), s2) \<Rightarrow> Some (Inl (ErrSecurity e), s2)
                | (vr1, _, s2) \<Rightarrow> Some (Inr vr1, s2))))"

text \<open>The record with the version asked for; every record before it, and itself, must have a valid signature.\<close>

fun find_version ::
  "'e key_env_scheme \<Rightarrow> 'w CLI \<Rightarrow> Version \<Rightarrow> VersionRecord list \<Rightarrow> 'w cli_state \<Rightarrow>
   (cli_error + VersionRecord option) \<times> 'w cli_state" where
  "find_version E C reqVer [] s = (Inr None, s)"
| "find_version E C reqVer (vr # vrs) s =
     (case check_version E C vr s of
        (vr1, Some (Inl e), s1) \<Rightarrow> (Inl (ErrSecurity e), s1)
      | (vr1, _, s1) \<Rightarrow>
          (case VersionRecord_ParsedVersion (Some vr1) of
             Inr v \<Rightarrow> if Version_Compare v reqVer = 0 then (Inr (Some vr1), s1) else find_version E C reqVer vrs s1
           | Inl _ \<Rightarrow> find_version E C reqVer vrs s1))"

definition install_version ::
  "'e key_env_scheme \<Rightarrow> 'w CLI \<Rightarrow> 'w node_ops \<Rightarrow> LatestPointer \<Rightarrow> string \<Rightarrow> 'w cli_state \<Rightarrow>
   (cli_error + VersionRecord) \<times> 'w cli_state" where
  "install_version E C N lp verStr s =
     (case ParseVersion verStr of
        Inl e \<Rightarrow> (Inl (ErrBadVersion e), s)
      | Inr reqVer \<Rightarrow>
          (let ((chain, walked), w) = Kademlia_WalkVersionChain E N (lp_VersionRecordHash lp) (cs_world s);
               s1 = s\<lparr>cs_world := w\<rparr> in
           if walked \<noteq> Inr () \<and> chain = [] then
             (Inl (ErrHistory (case walked of Inl e \<Rightarrow> e | Inr _ \<Rightarrow> ErrText [])), s1)
           else (case find_version E C reqVer chain s1 of
             (Inl e, s2) \<Rightarrow> (Inl e, s2)
           | (Inr None, s2) \<Rightarrow> (Inl ErrNoSuchVersion, s2)
           | (Inr (Some vr), s2) \<Rightarrow> (Inr vr, s2))))"

definition install_blob ::
  "'e key_env_scheme \<Rightarrow> host_env \<Rightarrow> 'w node_ops \<Rightarrow> VersionRecord \<Rightarrow> string \<Rightarrow> 'w handler" where
  "install_blob E H N targetVR dest s =
     Option.bind (LookupData E N (vr_BlobHash targetVR) (cs_world s)) (\<lambda>(r, w).
       let s1 = s\<lparr>cs_world := w\<rparr> in
       case r of
         Inl e \<Rightarrow> Some (Inl ErrBlobLookup, s1)
       | Inr (blobData, responder) \<Rightarrow>
           if length blobData = 0 then Some (Inl ErrBlobLookup, s1)
           else if \<not> EqualFold E (ComputeBlobHash E blobData) (vr_BlobHash targetVR) then Some (Inl ErrDataIntegrity, s1)
           else
             (let file = (if dest = [] then vr_Package targetVR @ ''-'' @ vr_Version targetVR @ ''.bin'' else dest);
                  (ok, s2) = cs_write H file blobData s1 in
              if \<not> ok then Some (Inl ErrWriteFile, s2)
              else map_option (\<lambda>_. (Inr (Installed targetVR file (length blobData)), s2)) (ID responder)))"

definition HandleInstall :: "'e key_env_scheme \<Rightarrow> host_env \<Rightarrow> 'w CLI \<Rightarrow> string list \<Rightarrow> 'w handler" where
  "HandleInstall E H C args s =
     (case install_args E args of
        Inl e \<Rightarrow> Some (Inl e, s)
      | Inr (domain, pkg, verStr, dest) \<Rightarrow>
          Option.bind (cs_kad E C s) (\<lambda>N.
          Option.bind (LookupLatestPointer E N domain pkg (cs_world s)) (\<lambda>(found, w).
            case found of
              Inl e \<Rightarrow> Some (Inl ErrPackageNotFound, s\<lparr>cs_world := w\<rparr>)
            | Inr (lp, _) \<Rightarrow>
                (case check_pointer E C lp (s\<lparr>cs_world := w\<rparr>) of
                   (Some (Inl e), s1) \<Rightarrow> Some (Inl (ErrSecurity e), s1)
                 | (_, s1) \<Rightarrow>
                     Option.bind (if EqualFold E verStr ''latest'' then install_latest E C N lp s1
                                  else Some (install_version E C N lp verStr s1)) (\<lambda>(target, s2).
                       case target of
                         Inl e \<Rightarrow> Some (Inl e, s2)
                       | Inr vr \<Rightarrow> install_blob E H N vr dest s2)))))"

section \<open>Keys\<close>

definition HandleKeygen :: "'e key_env_scheme \<Rightarrow> host_env \<Rightarrow> 'w CLI \<Rightarrow> string list \<Rightarrow> 'w handler" where
  "HandleKeygen E H C args s =
     (case args of
        [arg] \<Rightarrow>
          (let domain = NormalizeDomain E arg in
           if \<not> IsValidDomain E domain then Some (Inl ErrBadDomain, s)
           else if \<not> cli_KM C then Some (Inl ErrNotInitialized, s)
           else
             (let ((dkp, r), ks) = KeyManager_Generate E (he_keys H) (he_now H) (he_outcome H) domain (cs_keys s);
                  s1 = s\<lparr>cs_keys := ks\<rparr> in
              case r of
                Inl e \<Rightarrow> Some (Inl (ErrKeygen e), s1)
              | Inr _ \<Rightarrow>
                  (let pub = dkp_PublicKey (the dkp);
                       s2 = (if cli_Resolver C then s1\<lparr>cs_dns := snd (Node_SetKey E (cs_dns s1) domain pub)\<rparr> else s1) in
                   Some (Inr (Keygen_done domain pub), s2))))
      | _ \<Rightarrow> Some (Inl ErrUsage, s))"

definition HandleSet :: "'e key_env_scheme \<Rightarrow> 'w CLI \<Rightarrow> string list \<Rightarrow> 'w handler" where
  "HandleSet E C args s =
     (case args of
        [what, d, k] \<Rightarrow>
          if \<not> EqualFold E what ''DNS'' then Some (Inl ErrUsage, s)
          else
            (let domain = NormalizeDomain E d; hexKey = TrimSpace k in
             if \<not> cli_Resolver C then Some (Inl ErrNotInitialized, s)
             else (case Node_SetKeyHex E (cs_dns s) domain hexKey of
               (Inl e, r) \<Rightarrow> Some (Inl (ErrSetKey e), s\<lparr>cs_dns := r\<rparr>)
             | (Inr _, r) \<Rightarrow> Some (Inr (Set_done domain), s\<lparr>cs_dns := r\<rparr>)))
      | _ \<Rightarrow> Some (Inl ErrUsage, s))"

section \<open>What install guarantees\<close>

text \<open>States that differ by lookups of the resolver only give the same owners for stable domain names.\<close>

lemma cs_looked_up_simps [simp]:
  "cs_world (cs_looked_up E d s) = cs_world s" "cs_files (cs_looked_up E d s) = cs_files s"
  by (auto simp: cs_looked_up_def split: prod.splits)

definition stable :: "'e key_env_scheme \<Rightarrow> string \<Rightarrow> bool" where
  "stable E d \<longleftrightarrow> NormalizeDomain E (NormalizeDomain E d) = NormalizeDomain E d"

text \<open>The state a handler reaches: other files, another world, and a resolver that was only asked.\<close>

inductive asked :: "'e key_env_scheme \<Rightarrow> 'w cli_state \<Rightarrow> 'w cli_state \<Rightarrow> bool" for E s where
  asked_refl: "asked E s s"
| asked_world: "asked E s t \<Longrightarrow> asked E s (t\<lparr>cs_world := w\<rparr>)"
| asked_files: "asked E s t \<Longrightarrow> asked E s (t\<lparr>cs_files := fs\<rparr>)"
| asked_lookup: "asked E s t \<Longrightarrow> stable E d \<Longrightarrow> asked E s (cs_looked_up E d t)"

lemma asked_owner: "asked E s t \<Longrightarrow> stable E d \<Longrightarrow> cs_owner E t d = cs_owner E s d"
proof (induction rule: asked.induct)
  case (asked_lookup t d')
  obtain r st where l: "Node_LookupOwnerKey E d' (cs_dns t, cs_keys t) = (r, st)" by (cases "Node_LookupOwnerKey E d' (cs_dns t, cs_keys t)")
  have "owner_of E st d = owner_of E (cs_dns t, cs_keys t) d"
    by (rule owner_of_stable [OF l]) (use asked_lookup in \<open>simp_all add: stable_def\<close>)
  with asked_lookup l show ?case by (cases st) (simp add: cs_owner_def cs_looked_up_def)
qed (simp_all add: cs_owner_def)

text \<open>Lower-casing leaves no upper-case ASCII letter; a documented law of \<^verbatim>\<open>strings.ToLower\<close>.\<close>

definition lower_ok :: "'e unicode_env_scheme \<Rightarrow> bool" where
  "lower_ok E \<longleftrightarrow> (\<forall>s. list_all (\<lambda>c. ascii_lower c = c) (uToLower E s))"

lemma ascii_lower_idem [simp]: "ascii_lower (ascii_lower c) = ascii_lower c"
proof -
  have "(of_char (char_of (of_char c + 32 :: nat) :: char) :: nat) = of_char c + 32" if "(of_char c :: nat) \<le> 90"
    using that by simp
  then show ?thesis by (auto simp: ascii_lower_def Let_def)
qed

lemma ToLower_lower: "lower_ok E \<Longrightarrow> list_all (\<lambda>c. ascii_lower c = c) (ToLower E s)"
  by (auto simp: ToLower_def lower_ok_def list_all_iff)

lemma set_TrimRight: "c \<in> set (TrimRight s cs) \<Longrightarrow> c \<in> set s"
  by (auto simp: TrimRight_def dest: set_dropWhileD)

lemma TrimRight_idem [simp]: "TrimRight (TrimRight s cs) cs = TrimRight s cs"
  by (simp add: TrimRight_def)

lemma Split_chars: "c \<in> set s \<Longrightarrow> c = sep \<or> (\<exists>p \<in> set (Split s sep). c \<in> set p)"
proof (induction s)
  case (Cons d s)
  obtain p ps where "Split s sep = p # ps" using Split_nonempty by (meson list.exhaust)
  with Cons show ?case by auto
qed simp

text \<open>A domain that is accepted has a stable normal form.\<close>

lemma valid_stable:
  assumes "lower_ok E" and "IsValidDomain E d"
  shows "stable E d"
proof -
  let ?n = "NormalizeDomain E d"
  have r: "domainNameRegex ?n" using assms(2) by (auto simp: IsValidDomain_def Let_def split: if_splits)
  have ch: "is_alnum c \<or> c = CHR ''-'' \<or> c = CHR ''.''" if "c \<in> set ?n" for c
    using Split_chars [OF that, of "CHR ''.''"] r
    by (auto simp: domainNameRegex_def matches_word_def list_all_iff)
  have asc: "is_ascii ?n" using ch by (auto simp: is_ascii_def list_all_iff is_alnum_def Let_def dest!: ch)
  have "no_space c" if "c \<in> set ?n" for c using ch [OF that] by (auto simp: no_space_def is_alnum_def Let_def)
  then have t: "TrimSpace ?n = ?n" by (intro TrimSpace_all_no_space) (simp add: list_all_iff)
  have "ascii_lower c = c" if "c \<in> set ?n" for c
    using set_TrimRight [of c "ToLower E (TrimSpace d)" "''.''"] that ToLower_lower [OF assms(1), of "TrimSpace d"]
    by (simp add: NormalizeDomain_def list_all_iff)
  then have "ToLower E ?n = ?n" using asc by (simp add: ToLower_def map_idI)
  then have "NormalizeDomain E ?n = TrimRight ?n ''.''" using t unfolding NormalizeDomain_def [of E ?n] by simp
  then show ?thesis unfolding stable_def by (simp add: NormalizeDomain_def)
qed

lemma walk_loop_records:
  "list_all (vr_ok E) chain \<Longrightarrow> list_all (vr_ok E) (fst (fst (walk_loop E g n h vis chain s)))"
proof (induction E g n h vis chain s rule: walk_loop.induct)
  case (1 E g n h vis chain s)
  obtain got s1 where g: "g s h = (got, s1)" by (cases "g s h")
  have p: "vr_ok E vr" if "ParseVersionRecord E data = Inr vr" for data vr
    using that vr_validate_Inr [of E] by (auto simp: ParseVersionRecord_def split: option.splits prod.splits sum.splits)
  show ?case
    using 1 g p by (subst walk_loop.simps) (auto split: sum.splits if_splits)
qed

lemma Walk_records: "list_all (vr_ok E) (fst (fst (Kademlia_WalkVersionChain E N h w)))"
  using walk_loop_records [of E "[]"]
  by (auto simp: Kademlia_WalkVersionChain_def WalkVersionChain_def WalkVersionChainWithDepth_def Let_def split: option.split)

definition signed :: "'e key_env_scheme \<Rightarrow> 'w cli_state \<Rightarrow> VersionRecord \<Rightarrow> bool" where
  "signed E s vr \<longleftrightarrow> (\<exists>pub. cs_owner E s (vr_Domain vr) = Inr pub \<and> VersionRecord_Verify E (Some vr) pub = (Some vr, Inr ()))"

definition pointer_signed :: "'e key_env_scheme \<Rightarrow> 'w cli_state \<Rightarrow> LatestPointer \<Rightarrow> bool" where
  "pointer_signed E s lp \<longleftrightarrow> (\<exists>pub. cs_owner E s (lp_Domain lp) = Inr pub \<and> LatestPointer_Verify E (Some lp) pub = Inr ())"

text \<open>What a step of \<^verbatim>\<open>install\<close> keeps: it only asks, and writes no file.\<close>

definition quiet :: "'e key_env_scheme \<Rightarrow> 'w cli_state \<Rightarrow> 'w cli_state \<Rightarrow> bool" where
  "quiet E s t \<longleftrightarrow> asked E s t \<and> cs_files t = cs_files s"

lemma quiet_refl [simp]: "quiet E s s"
  by (simp add: quiet_def asked_refl)

lemma quiet_world: "quiet E s t \<Longrightarrow> quiet E s (t\<lparr>cs_world := w\<rparr>)"
  by (simp add: quiet_def asked_world)

lemma quiet_lookup: "quiet E s t \<Longrightarrow> stable E d \<Longrightarrow> quiet E s (cs_looked_up E d t)"
  by (simp add: quiet_def asked_lookup)

lemma quiet_owner: "quiet E s t \<Longrightarrow> stable E d \<Longrightarrow> cs_owner E t d = cs_owner E s d"
  unfolding quiet_def using asked_owner by blast

lemma Verify_same: "vr_ok E r \<Longrightarrow> fst (VersionRecord_Verify E (Some r) pub) = Some r"
  by (simp add: VersionRecord_Verify_def VersionRecord_payloadBytes_def split: sum.split)

lemma check_version_ok:
  assumes "lower_ok E" and "vr_ok E vr" and "quiet E s t" and "check_version E C vr t = (vr1, r, t1)"
  shows "vr1 = vr" and "quiet E s t1" and "cli_Resolver C \<Longrightarrow> r \<noteq> None"
    and "r = Some (Inr ()) \<Longrightarrow> signed E s vr"
proof -
  have st: "stable E (vr_Domain vr)" using valid_stable [OF assms(1)] assms(2) by (simp add: vr_ok_def)
  note own = quiet_owner [OF assms(3) st]
  show "vr1 = vr" "cli_Resolver C \<Longrightarrow> r \<noteq> None"
    using assms(4) Verify_same [OF assms(2)]
    by (auto simp: check_version_def VersionRecord_VerifyWithResolver_def split: if_splits sum.splits prod.splits)
      (metis fst_conv option.sel)
  show "quiet E s t1"
    using assms(3,4) quiet_lookup [OF assms(3) st] by (auto simp: check_version_def split: if_splits prod.splits)
  assume "r = Some (Inr ())"
  then obtain pub where "cs_owner E t (vr_Domain vr) = Inr pub" "snd (VersionRecord_Verify E (Some vr) pub) = Inr ()"
    using assms(4) by (auto simp: check_version_def VersionRecord_VerifyWithResolver_def split: if_splits sum.splits prod.splits)
  with own Verify_same [OF assms(2), of pub] show "signed E s vr"
    unfolding signed_def by (metis prod.collapse)
qed

lemma check_pointer_ok:
  assumes "lower_ok E" and "lp_ok E lp" and "quiet E s t" and "check_pointer E C lp t = (r, t1)"
  shows "quiet E s t1" and "cli_Resolver C \<Longrightarrow> r \<noteq> None" and "r = Some (Inr ()) \<Longrightarrow> pointer_signed E s lp"
proof -
  have st: "stable E (lp_Domain lp)" using valid_stable [OF assms(1)] assms(2) by (simp add: lp_ok_def)
  show "quiet E s t1" "cli_Resolver C \<Longrightarrow> r \<noteq> None"
    using assms(3,4) quiet_lookup [OF assms(3) st] by (auto simp: check_pointer_def split: if_splits)
  show "r = Some (Inr ()) \<Longrightarrow> pointer_signed E s lp"
    using assms(4) quiet_owner [OF assms(3) st]
    by (auto simp: check_pointer_def LatestPointer_VerifyWithResolver_def pointer_signed_def err_bind_def split: if_splits sum.splits)
qed

lemma find_version_ok:
  assumes "lower_ok E" and "list_all (vr_ok E) chain" and "quiet E s t" and "find_version E C v chain t = (r, t1)"
  shows "quiet E s t1 \<and> (\<forall>vr. r = Inr (Some vr) \<longrightarrow> vr_ok E vr \<and> (cli_Resolver C \<longrightarrow> signed E s vr) \<and>
    (\<exists>u. VersionRecord_ParsedVersion (Some vr) = Inr u \<and> Version_Compare u v = 0))"
  using assms(2-4)
proof (induction chain arbitrary: t)
  case (Cons vr chain)
  obtain vr1 c t2 where c: "check_version E C vr t = (vr1, c, t2)" by (cases "check_version E C vr t")
  have ok: "vr_ok E vr" "list_all (vr_ok E) chain" using Cons.prems(1) by simp_all
  note cv = check_version_ok [OF assms(1) ok(1) Cons.prems(2) c]
  have sg: "cli_Resolver C \<Longrightarrow> \<forall>e. c \<noteq> Some (Inl e) \<Longrightarrow> signed E s vr"
    using cv(3,4) by (cases c) (auto, metis old.sum.exhaust old.unit.exhaust)
  show ?case
  proof (cases "\<exists>e. c = Some (Inl e)")
    case True
    with Cons.prems(3) c cv(2) show ?thesis by auto
  next
    case False
    have step: "find_version E C v (vr # chain) t =
      (case VersionRecord_ParsedVersion (Some vr) of
         Inr u \<Rightarrow> if Version_Compare u v = 0 then (Inr (Some vr), t2) else find_version E C v chain t2
       | Inl _ \<Rightarrow> find_version E C v chain t2)"
      using False c cv(1) by (cases c) (auto split: sum.splits)
    show ?thesis
      using Cons.prems(3) Cons.IH [OF ok(2) cv(2)] ok(1) sg False cv(2) unfolding step
      by (auto split: sum.splits if_splits)
  qed
qed auto

text \<open>The three stages of \<^verbatim>\<open>install\<close> after the pointer.\<close>

lemma install_latest_ok:
  assumes "lower_ok E" and "quiet E s t" and "install_latest E C N lp t = Some (r, t1)"
  shows "quiet E s t1 \<and> (\<forall>vr. r = Inr vr \<longrightarrow> vr_ok E vr \<and> (cli_Resolver C \<longrightarrow> signed E s vr))"
proof -
  obtain q w where l: "LookupData E N (lp_VersionRecordHash lp) (cs_world t) = Some (q, w)"
    using assms(3) by (auto simp: install_latest_def bind_eq_Some_conv)
  have qt: "quiet E s (t\<lparr>cs_world := w\<rparr>)" by (rule quiet_world [OF assms(2)])
  show ?thesis
  proof (cases "\<exists>data c vr. q = Inr (data, c) \<and> length data \<noteq> 0 \<and> ParseVersionRecord E data = Inr vr")
    case False
    then show ?thesis using assms(3) l qt by (auto simp: install_latest_def Let_def split: sum.splits if_splits)
  next
    case True
    then obtain data c vr where d: "q = Inr (data, c)" "data \<noteq> []" "ParseVersionRecord E data = Inr vr" by auto
    obtain vr1 k t2 where ck: "check_version E C vr (t\<lparr>cs_world := w\<rparr>) = (vr1, k, t2)"
      by (cases "check_version E C vr (t\<lparr>cs_world := w\<rparr>)")
    note cv = check_version_ok [OF assms(1) ParseVersionRecord_ok [OF d(3)] qt ck]
    have "(r, t1) = (case k of Some (Inl e) \<Rightarrow> (Inl (ErrSecurity e), t2) | _ \<Rightarrow> (Inr vr1, t2))"
      using assms(3) l d ck by (auto simp: install_latest_def Let_def split: option.splits sum.splits)
    then show ?thesis
      using cv ParseVersionRecord_ok [OF d(3)] by (cases k) (auto split: sum.splits)
  qed
qed

lemma install_version_ok:
  assumes "lower_ok E" and "quiet E s t" and "install_version E C N lp verStr t = (r, t1)"
  shows "quiet E s t1 \<and> (\<forall>vr. r = Inr vr \<longrightarrow> vr_ok E vr \<and> (cli_Resolver C \<longrightarrow> signed E s vr) \<and>
    (\<exists>v u. ParseVersion verStr = Inr v \<and> VersionRecord_ParsedVersion (Some vr) = Inr u \<and> Version_Compare u v = 0))"
proof (cases "ParseVersion verStr")
  case (Inl e)
  with assms(2,3) show ?thesis by (auto simp: install_version_def)
next
  case (Inr v)
  obtain chain walked w where wk: "Kademlia_WalkVersionChain E N (lp_VersionRecordHash lp) (cs_world t) = ((chain, walked), w)"
    by (metis prod.collapse)
  have qt: "quiet E s (t\<lparr>cs_world := w\<rparr>)" by (rule quiet_world [OF assms(2)])
  have ok: "list_all (vr_ok E) chain" using Walk_records [of E N "lp_VersionRecordHash lp" "cs_world t"] by (simp add: wk)
  obtain f t2 where f: "find_version E C v chain (t\<lparr>cs_world := w\<rparr>) = (f, t2)"
    by (cases "find_version E C v chain (t\<lparr>cs_world := w\<rparr>)")
  note fv = find_version_ok [OF assms(1) ok qt f]
  from assms(3) have "(r, t1) = (if walked \<noteq> Inr () \<and> chain = []
      then (Inl (ErrHistory (case walked of Inl e \<Rightarrow> e | Inr _ \<Rightarrow> ErrText [])), t\<lparr>cs_world := w\<rparr>)
      else (case f of Inl e \<Rightarrow> Inl e | Inr None \<Rightarrow> Inl ErrNoSuchVersion | Inr (Some vr) \<Rightarrow> Inr vr, t2))"
    using Inr wk f by (auto simp: install_version_def Let_def split: sum.splits option.splits)
  then show ?thesis using fv qt Inr by (auto split: if_splits sum.splits option.splits)
qed

lemma install_blob_ok:
  assumes "install_blob E H N vr dest t = Some (r, t1)"
  shows "(\<exists>e. r = Inl e) \<and> cs_files t1 = cs_files t \<or>
    (\<exists>data file. r = Inr (Installed vr file (length data)) \<and> data \<noteq> [] \<and>
      EqualFold E (ComputeBlobHash E data) (vr_BlobHash vr) \<and> cs_files t1 = cs_files t @ [(file, data)])"
proof -
  obtain q w where l: "LookupData E N (vr_BlobHash vr) (cs_world t) = Some (q, w)"
    using assms by (auto simp: install_blob_def bind_eq_Some_conv)
  show ?thesis
  proof (cases "\<exists>data c. q = Inr (data, c) \<and> data \<noteq> [] \<and> EqualFold E (ComputeBlobHash E data) (vr_BlobHash vr)")
    case False
    then show ?thesis using assms l by (auto simp: install_blob_def Let_def split: sum.splits if_splits)
  next
    case True
    then obtain data c where d: "q = Inr (data, c)" "data \<noteq> []" "EqualFold E (ComputeBlobHash E data) (vr_BlobHash vr)" by blast
    define fname where "fname = (if dest = [] then vr_Package vr @ ''-'' @ vr_Version vr @ ''.bin'' else dest)"
    show ?thesis using assms l d unfolding install_blob_def fname_def [symmetric]
      by (auto simp: cs_write_def Let_def split: if_splits)
  qed
qed

lemma install_stage:
  assumes "lower_ok E" and "quiet E s t"
    and "(if EqualFold E verStr ''latest'' then install_latest E C N lp t else Some (install_version E C N lp verStr t)) = Some (r, t1)"
  shows "quiet E s t1 \<and> (\<forall>vr. r = Inr vr \<longrightarrow> (cli_Resolver C \<longrightarrow> signed E s vr) \<and>
    (\<not> EqualFold E verStr ''latest'' \<longrightarrow> (\<exists>v. ParseVersion verStr = Inr v \<and> VersionRecord_ParsedVersion (Some vr) = Inr v)))"
proof (cases "EqualFold E verStr ''latest''")
  case True
  with assms(3) have "install_latest E C N lp t = Some (r, t1)" by simp
  from install_latest_ok [OF assms(1,2) this] True show ?thesis by blast
next
  case False
  with assms(3) have "install_version E C N lp verStr t = (r, t1)" by simp
  from install_version_ok [OF assms(1,2) this] show ?thesis by (metis Version_Compare_order(5))
qed

lemma LookupLatestPointer_ok:
  assumes "LookupLatestPointer E N domain pkg w = Some (found, w1)" and "found = Inr (lp, c)"
  shows "lp_ok E lp"
proof -
  obtain q w2 where "LookupDataByID E N (Some (LatestPointerDHTKeyBytes E domain pkg)) w = Some (q, w2)"
    using assms(1) by (auto simp: LookupLatestPointer_def Let_def bind_eq_Some_conv)
  with assms show ?thesis
    by (cases q) (auto simp: LookupLatestPointer_def intro: ParseLatestPointer_ok split: sum.splits)
qed

text \<open>The stages of an installation: it fails without a file, or a record is chosen and its blob is fetched.\<close>

lemma HandleInstall_stages:
  assumes "lower_ok E" and "cli_Resolver C" and "HandleInstall E H C args s = Some (r, s')"
  shows "(\<exists>e. r = Inl e) \<and> cs_files s' = cs_files s \<or>
    (\<exists>domain pkg verStr dest N lp c w s1 vr s2.
      install_args E args = Inr (domain, pkg, verStr, dest) \<and> cs_kad E C s = Some N \<and>
      LookupLatestPointer E N domain pkg (cs_world s) = Some (Inr (lp, c), w) \<and> pointer_signed E s lp \<and> quiet E s s1 \<and>
      (if EqualFold E verStr ''latest'' then install_latest E C N lp s1 else Some (install_version E C N lp verStr s1)) =
        Some (Inr vr, s2) \<and> install_blob E H N vr dest s2 = Some (r, s'))"
proof (cases "install_args E args")
  case (Inl e)
  with assms(3) show ?thesis by (simp add: HandleInstall_def) blast
next
  case (Inr a)
  obtain domain pkg verStr dest where a: "install_args E args = Inr (domain, pkg, verStr, dest)"
    using Inr by (metis prod_cases4)
  obtain N found w where l: "cs_kad E C s = Some N" "LookupLatestPointer E N domain pkg (cs_world s) = Some (found, w)"
    using assms(3) a by (auto simp: HandleInstall_def bind_eq_Some_conv)
  show ?thesis
  proof (cases found)
    case (Inl e)
    with assms(3) a l show ?thesis by (auto simp: HandleInstall_def)
  next
    case (Inr f)
    then obtain lp c where f: "found = Inr (lp, c)" by (cases f) simp
    obtain k s1 where k: "check_pointer E C lp (s\<lparr>cs_world := w\<rparr>) = (k, s1)"
      by (cases "check_pointer E C lp (s\<lparr>cs_world := w\<rparr>)")
    note cp = check_pointer_ok [OF assms(1) LookupLatestPointer_ok [OF l(2) f] quiet_world [OF quiet_refl] k]
    show ?thesis
    proof (cases "\<exists>e. k = Some (Inl e)")
      case True
      with assms(3) a l f k cp(1) show ?thesis by (auto simp: HandleInstall_def quiet_def)
    next
      case False
      with cp(2) assms(2) have ps: "pointer_signed E s lp" by (intro cp(3)) (cases k, auto, metis old.sum.exhaust old.unit.exhaust)
      let ?stage = "if EqualFold E verStr ''latest'' then install_latest E C N lp s1 else Some (install_version E C N lp verStr s1)"
      from False assms(3) a l f k
      have "Option.bind ?stage (\<lambda>(target, s2). case target of Inl e \<Rightarrow> Some (Inl e, s2) | Inr vr \<Rightarrow> install_blob E H N vr dest s2) = Some (r, s')"
        by (cases k) (auto simp: HandleInstall_def split: sum.splits)
      then obtain target s2 where t: "?stage = Some (target, s2)"
        and r: "(case target of Inl e \<Rightarrow> Some (Inl e, s2) | Inr vr \<Rightarrow> install_blob E H N vr dest s2) = Some (r, s')"
        unfolding bind_eq_Some_conv by auto
      show ?thesis
        using r t a l f ps cp(1) install_stage [OF assms(1) cp(1) t] by (cases target) (auto simp: quiet_def)
    qed
  qed
qed

section \<open>Properties\<close>


section \<open>A concrete node\<close>

text \<open>A node that holds the demo package and knows no other node, with the key of its owner.\<close>

definition demo_me :: Contact where
  "demo_me = NewContact (Some (mk_id [9])) ''10.0.0.1:8000''"

definition demo_store :: "KademliaID \<Rightarrow> bytes option" where
  "demo_store = map_of
     [(LatestPointerDHTKeyBytes demo_key_env ''example.com'' ''pkg'', [3]), (mk_id [1], [1]),
      (mk_id (replicate 32 0xAA), replicate 32 0xAA)]"

definition demo_ops :: "DNSResolver \<Rightarrow> unit node_ops" where
  "demo_ops owner = \<lparr>op_Me = demo_me, op_alpha = 3, op_has_rt = False, op_rt = (\<lambda>w. NewRoutingTable demo_me),
     op_set_rt = (\<lambda>rt w. w), op_has_net = False, op_arrival = (\<lambda>w cs. cs),
     op_SendPing = (\<lambda>c w. None), op_FindContact = (\<lambda>t c w. None), op_FindData = (\<lambda>t c w. None),
     op_SendStore = (\<lambda>c k v w. None), op_has_ds = True, op_ds_Get = (\<lambda>w. demo_store),
     op_ds_Validate = (\<lambda>k v w. (Inr (), w)), op_ds_Store = (\<lambda>k v w. Some (Inr (), w)),
     op_ds_StoreUnchecked = (\<lambda>k v w. w), op_ds_GetAllKeys = (\<lambda>w. [])\<rparr>"

definition demo_host :: host_env where
  "demo_host = \<lparr>he_read = (\<lambda>p. if p = ''pkg.tar.gz'' then Some [7, 8] else None), he_write_ok = (\<lambda>p. True),
     he_keys = Inl ErrKeyNotFound, he_now = 0, he_outcome = Written\<rparr>"

definition demo_CLI :: "unit CLI" where
  "demo_CLI = \<lparr>cli_Kad = Some demo_ops, cli_Delete = (\<lambda>k w. (False, w)), cli_KM = True, cli_Resolver = True\<rparr>"

definition demo_pair :: DomainKeyPair where
  "demo_pair = \<lparr>dkp_Domain = ''example.com'', dkp_PublicKey = demo_pub, dkp_PrivateKey = replicate 64 0, dkp_CreatedAt = 0\<rparr>"

definition demo_cli_state :: "unit cli_state" where
  "demo_cli_state = \<lparr>cs_world = (), cs_dns = SetKeyManager (NewNodeDNSResolver (\<lambda>d. None)) True,
     cs_keys = (\<lparr>km_baseDir = [], km_keys = gm_set ''example.com'' demo_pair gm_empty\<rparr>, []), cs_files = []\<rparr>"

lemma demo_key_valid:
  "IsValidDomain demo_key_env ''example.com''" "NormalizeDomain demo_key_env ''example.com'' = ''example.com''"
  by (simp_all add: domain_eval demo_key_env_def demo_env_def reg_env.defs)

lemma demo_key_env_simps [simp]:
  "sha256 demo_key_env = mk_id" "uToLower demo_key_env = map ascii_lower"
  "unjson_VersionRecord demo_key_env = unjson_VersionRecord demo_env"
  "unjson_LatestPointer demo_key_env = unjson_LatestPointer demo_env"
  "json_VersionRecord demo_key_env = json_VersionRecord demo_env"
  "json_LatestPointer demo_key_env = json_LatestPointer demo_env"
  "ed25519_Verify demo_key_env = ed25519_Verify demo_env" "ed25519_Sign demo_key_env = ed25519_Sign demo_env"
  by (simp_all add: demo_key_env_def demo_env_def reg_env.defs)

lemma demo_lower_ok: "lower_ok demo_key_env"
  by (simp add: lower_ok_def list_all_iff)

lemma demo_key_ok: "vr_ok demo_key_env demo_vr" "lp_ok demo_key_env demo_lp"
  using demo_ok by (simp_all add: vr_ok_def lp_ok_def demo_vr_def demo_lp_def demo_valid demo_key_valid)

lemma demo_owner: "cs_owner demo_key_env demo_cli_state ''example.com'' = Inr demo_pub"
  using demo_key_valid
  by (simp add: cs_owner_def owner_of_eq km_key_def demo_cli_state_def SetKeyManager_def NewNodeDNSResolver_def
      KeyManager_Load_def Let_def gm.get_set demo_pair_def demo_pub_def sized_def PublicKeySize_def)

lemma demo_store_simps [simp]:
  "demo_store (LatestPointerDHTKeyBytes demo_key_env ''example.com'' ''pkg'') = Some [3]"
  "demo_store (NewKademliaID demo_h1) = Some [1]"
  "demo_store (NewKademliaID (replicate 64 (CHR ''a''))) = Some (replicate 32 0xAA)"
proof -
  have k: "LatestPointerDHTKeyBytes demo_key_env ''example.com'' ''pkg'' = mk_id (bytes_of_string ''example.com:pkg:latest'')"
    by (simp add: LatestPointerDHTKeyBytes_def LatestPointerKeyString_def demo_key_valid demo_valid NewKademliaIDFromData_def)
  have "mk_id (bytes_of_string ''example.com:pkg:latest'') \<noteq> mk_id [1]"
    "mk_id (bytes_of_string ''example.com:pkg:latest'') \<noteq> mk_id (replicate 32 0xAA)" "mk_id [1] \<noteq> mk_id (replicate 32 0xAA)"
    "NewKademliaID demo_h1 = mk_id [1]" "NewKademliaID (replicate 64 (CHR ''a'')) = mk_id (replicate 32 0xAA)"
    by code_simp+
  with k show "demo_store (LatestPointerDHTKeyBytes demo_key_env ''example.com'' ''pkg'') = Some [3]"
    "demo_store (NewKademliaID demo_h1) = Some [1]"
    "demo_store (NewKademliaID (replicate 64 (CHR ''a''))) = Some (replicate 32 0xAA)"
    by (simp_all add: demo_store_def)
qed

lemma demo_lookup [simp]:
  "demo_store i = Some v \<Longrightarrow> LookupDataByID demo_key_env (demo_ops f) (Some i) w = Some (Inr (v, demo_me), w)"
  by (simp add: LookupDataByID_def demo_ops_def)

lemma demo_signed: "VersionRecord_Verify demo_key_env (Some demo_vr) demo_pub = (Some demo_vr, Inr ())"
  "LatestPointer_Verify demo_key_env (Some demo_lp) demo_pub = Inr ()"
  using demo_lp_verify(1) demo_key_ok demo_sig demo_ok
  by (simp_all add: LatestPointer_Verify_iff VersionRecord_Verify_iff prod_eq_iff VersionRecord_Verify_fst)
     (simp_all add: demo_vr_def demo_pub_def PublicKeySize_def demo_env_def)

lemma demo_parsed: "ParseLatestPointer demo_key_env [3] = Inr demo_lp" "ParseVersionRecord demo_key_env [1] = Inr demo_vr"
  using demo_key_ok by (simp_all add: ParseLatestPointer_def ParseVersionRecord_def demo_env_def)

lemma demo_latest: "EqualFold demo_key_env ''latest'' ''latest''"
  by (simp add: EqualFold_def demo_key_env_def demo_env_def reg_env.defs)

lemma demo_blob_hash: "EqualFold demo_key_env (ComputeBlobHash demo_key_env (replicate 32 0xAA)) (replicate 64 (CHR ''a''))"
proof -
  have "hex_EncodeToString (id_bytes (mk_id (replicate 32 0xAA))) = replicate 64 (CHR ''a'')" by code_simp
  then have "ComputeBlobHash demo_key_env (replicate 32 0xAA) = replicate 64 (CHR ''a'')"
    by (simp add: ComputeBlobHash_def)
  then show ?thesis by (simp add: EqualFold_def demo_key_env_def demo_env_def reg_env.defs)
qed

lemma demo_install:
  "\<exists>s'. HandleInstall demo_key_env demo_host demo_CLI [''example.com'', ''pkg'', ''latest''] demo_cli_state =
     Some (Inr (Installed demo_vr ''pkg-1.0.0.bin'' 32), s')"
proof -
  let ?E = demo_key_env let ?s = demo_cli_state
  have o1: "cs_owner ?E (?s\<lparr>cs_world := w\<rparr>) = cs_owner ?E ?s" for w by (simp add: cs_owner_def)
  have a: "install_args ?E [''example.com'', ''pkg'', ''latest''] = Inr (''example.com'', ''pkg'', ''latest'', [])"
    by (simp add: install_args_def demo_key_valid demo_valid) (simp add: domain_eval)
  have k: "cs_kad ?E demo_CLI ?s = Some (demo_ops (cs_owner ?E ?s))" by (simp add: cs_kad_def demo_CLI_def)
  have l: "LookupLatestPointer ?E (demo_ops f) ''example.com'' ''pkg'' w = Some (Inr (demo_lp, demo_me), w)" for f w
    by (simp add: LookupLatestPointer_def demo_parsed)
  have st: "stable ?E ''example.com''" by (simp add: stable_def demo_key_valid)
  obtain c s1 where c: "check_pointer ?E demo_CLI demo_lp (?s\<lparr>cs_world := ()\<rparr>) = (c, s1)"
    by (cases "check_pointer ?E demo_CLI demo_lp (?s\<lparr>cs_world := ()\<rparr>)")
  note q = check_pointer_ok(1) [OF demo_lower_ok demo_key_ok(2) quiet_world [OF quiet_refl] c]
  have c1: "c = Some (Inr ())" using c
    by (simp add: check_pointer_def demo_CLI_def o1 LatestPointer_VerifyWithResolver_def demo_lp_def demo_owner err_bind_def
     demo_signed(2) [unfolded demo_lp_def])
  obtain v r s2 where v: "check_version ?E demo_CLI demo_vr (s1\<lparr>cs_world := ()\<rparr>) = (v, r, s2)"
    by (cases "check_version ?E demo_CLI demo_vr (s1\<lparr>cs_world := ()\<rparr>)")
  have o2: "cs_owner ?E (s1\<lparr>cs_world := ()\<rparr>) ''example.com'' = Inr demo_pub"
    using quiet_owner [OF quiet_world [OF q] st] demo_owner by simp
  have v1: "v = demo_vr \<and> r = Some (Inr ())" using v o2 demo_signed(1)
    by (auto simp: check_version_def demo_CLI_def VersionRecord_VerifyWithResolver_def demo_vr_def)
  have i: "install_latest ?E demo_CLI (demo_ops f) demo_lp s1 = Some (Inr demo_vr, s2)" for f
    using v v1 by (simp add: install_latest_def LookupData_def demo_lp_def demo_parsed)
  have b: "\<exists>s'. install_blob ?E demo_host (demo_ops f) demo_vr [] s2 =
      Some (Inr (Installed demo_vr ''pkg-1.0.0.bin'' 32), s')" for f
    using demo_blob_hash
    by (simp add: install_blob_def LookupData_def demo_vr_def demo_host_def cs_write_def demo_me_def NewContact_def Let_def)
  show ?thesis using a k l c c1 i b
    by (simp add: HandleInstall_def demo_latest)
qed


end
