(* ===== verification/Node_Publish.thy ===== *)
theory Node_Publish
  imports Node_CLI
begin

text \<open>
  The \<^verbatim>\<open>publish\<close> command of \<^verbatim>\<open>src/cmd/node/cli.go\<close>: flags, the checks made before anything is stored, the link to the
  previous version, and the three values that are published.  Then \<^verbatim>\<open>Execute\<close> and \<^verbatim>\<open>Run\<close>, over all commands.
\<close>

section \<open>Arguments\<close>

text \<open>The flags: \<open>pf_prev\<close> is \<^verbatim>\<open>prevFlag\<close> when \<^verbatim>\<open>hasPrevFlag\<close> is set.\<close>

record publish_flags =
  pf_force :: bool
  pf_prev :: "string option"
  pf_positional :: "string list"

fun publish_loop :: "string list \<Rightarrow> publish_flags \<Rightarrow> cli_error + publish_flags" where
  "publish_loop [] f = Inr f"
| "publish_loop (arg # args) f =
     (if arg = ''--force'' then publish_loop args (f\<lparr>pf_force := True\<rparr>)
      else if HasPrefix arg ''--prev='' then publish_loop args (f\<lparr>pf_prev := Some (TrimPrefix arg ''--prev='')\<rparr>)
      else if arg = ''--prev'' then
        (case args of
           [] \<Rightarrow> Inl ErrPrevMissing
         | p # rest \<Rightarrow> publish_loop rest (f\<lparr>pf_prev := Some p\<rparr>))
      else if HasPrefix arg ''-'' then Inl ErrUnknownFlag
      else publish_loop args (f\<lparr>pf_positional := pf_positional f @ [arg]\<rparr>))"

definition publish_target :: "string list \<Rightarrow> cli_error + string \<times> string" where
  "publish_target positional =
     (case positional of
        [t, f] \<Rightarrow> Inr (t, f)
      | t # rest \<Rightarrow>
          if length positional > 2 \<and> Contains t '':'' then Inr (t, str_join '' '' rest)
          else if length positional = 4 then Inr (str_join '':'' (take 3 positional), positional ! 3)
          else if length positional > 4 then Inr (str_join '':'' (take 3 positional), str_join '' '' (drop 3 positional))
          else Inl ErrUsage
      | [] \<Rightarrow> Inl ErrUsage)"

text \<open>Domain, package and version of the target; \<^verbatim>\<open>--force\<close> skips the checks, and keeps a version that does not parse.\<close>

definition publish_spec :: "'e key_env_scheme \<Rightarrow> bool \<Rightarrow> string \<Rightarrow> cli_error + string \<times> string \<times> string" where
  "publish_spec E force target =
     (case Split target (CHR '':'') of
        [d, p, v] \<Rightarrow>
          (let domain = NormalizeDomain E d; pkg = TrimSpace p; verStr = TrimSpace v in
           if \<not> IsValidDomain E domain \<and> \<not> force then Inl ErrBadDomain
           else if \<not> IsValidPackageName pkg \<and> \<not> force then Inl ErrBadPackage
           else (case ParseVersion verStr of
             Inr parsedVer \<Rightarrow> Inr (domain, pkg, Version_String parsedVer)
           | Inl e \<Rightarrow> if force then Inr (domain, pkg, verStr) else Inl (ErrBadVersion e)))
      | _ \<Rightarrow> Inl ErrBadSpec)"

text \<open>The payload: the first candidate path with content, else the argument itself when it does not look like a path.\<close>

fun first_content :: "host_env \<Rightarrow> string list \<Rightarrow> (string \<times> bytes) option" where
  "first_content H [] = None"
| "first_content H (p # ps) =
     (case he_read H p of
        Some data \<Rightarrow> if length data > 0 then Some (p, data) else first_content H ps
      | None \<Rightarrow> first_content H ps)"

definition publish_candidates :: "string \<Rightarrow> string list" where
  "publish_candidates f = [f, filepath_Join ''/root/keys'' f, filepath_Join ''./keys'' f, filepath_Join ''/data'' f]"

definition publish_file :: "host_env \<Rightarrow> string \<Rightarrow> cli_error + string \<times> bytes" where
  "publish_file H filename =
     (case first_content H (publish_candidates filename) of
        Some r \<Rightarrow> Inr r
      | None \<Rightarrow>
          if Contains filename '' '' \<or> Contains filename [CHR 0x0A] \<or> Contains filename [CHR 0x09] \<or>
             \<not> Contains filename ''.'' \<and> \<not> Contains filename ''/''
          then Inr (''<inline-content>'', bytes_of_string filename)
          else Inl ErrFileNotFound)"

section \<open>Checks before anything is stored\<close>

text \<open>
  The key pair: that of the key manager, or for a forced publication a new one, which is nil when the domain
  is not valid.
\<close>

definition publish_key ::
  "'e key_env_scheme \<Rightarrow> host_env \<Rightarrow> 'w CLI \<Rightarrow> bool \<Rightarrow> string \<Rightarrow> 'w cli_state \<Rightarrow>
   (cli_error + DomainKeyPair option) \<times> 'w cli_state" where
  "publish_key E H C force domain s =
     (let (found, ks) = (if cli_KM C then KeyManager_Load E domain (cs_keys s) else (Inl ErrKeyNotFound, cs_keys s));
          s1 = s\<lparr>cs_keys := ks\<rparr> in
      case found of
        Inr dkp \<Rightarrow> (Inr (Some dkp), s1)
      | Inl _ \<Rightarrow>
          if \<not> force then (Inl ErrNoPrivateKey, s1)
          else (case GenerateDomainKeyPair E (he_keys H) (he_now H) domain of
            Inl _ \<Rightarrow> (Inr None, s1)
          | Inr dkp \<Rightarrow> (Inr (Some dkp), s1)))"

definition publish_owner ::
  "'e key_env_scheme \<Rightarrow> 'w CLI \<Rightarrow> bool \<Rightarrow> string \<Rightarrow> DomainKeyPair option \<Rightarrow> 'w cli_state \<Rightarrow>
   ((cli_error + unit) \<times> 'w cli_state) option" where
  "publish_owner E C force domain dkp s =
     (if \<not> force \<and> cli_Resolver C then
        (case cs_owner E s domain of
           Inl e \<Rightarrow> Some (Inl (ErrOwnership e), cs_looked_up E domain s)
         | Inr ownerPub \<Rightarrow> map_option (\<lambda>k.
             (if ownerPub \<noteq> dkp_PublicKey k then Inl ErrOwnerMismatch else Inr (), cs_looked_up E domain s)) dkp)
      else Some (Inr (), s))"

definition zero_prev :: "string \<Rightarrow> bool" where
  "zero_prev p \<longleftrightarrow> p = ''none'' \<or> p = ''0'' \<or> p = ''0.0.0'' \<or> p = ZeroHash"

definition hash_or_empty :: "string result \<Rightarrow> string" where
  "hash_or_empty r = (case r of Inl _ \<Rightarrow> [] | Inr h \<Rightarrow> h)"

text \<open>The record hash of the version named by \<^verbatim>\<open>--prev\<close>, the empty string when no record of the chain has it.\<close>

fun find_prev :: "'e reg_env_scheme \<Rightarrow> string \<Rightarrow> VersionRecord list \<Rightarrow> string" where
  "find_prev E prevFlag [] = []"
| "find_prev E prevFlag (vr # vrs) =
     (if vr_Version vr = prevFlag then hash_or_empty (RecordHash E (Some vr))
      else (case (VersionRecord_ParsedVersion (Some vr), ParseVersion prevFlag) of
        (Inr pVer, Inr targetPVer) \<Rightarrow>
          if Version_Compare pVer targetPVer = 0 then hash_or_empty (RecordHash E (Some vr)) else find_prev E prevFlag vrs
      | _ \<Rightarrow> find_prev E prevFlag vrs))"

definition rollback :: "string \<Rightarrow> LatestPointer \<Rightarrow> bool" where
  "rollback normVerStr currLP =
     (case (ParseVersion normVerStr, LatestPointer_ParsedVersion (Some currLP)) of
        (Inr vNew, Inr vCurr) \<Rightarrow> Version_Compare vNew vCurr \<le> 0
      | _ \<Rightarrow> False)"

definition publish_prev ::
  "'e key_env_scheme \<Rightarrow> 'w node_ops \<Rightarrow> bool \<Rightarrow> string option \<Rightarrow> string \<Rightarrow> LatestPointer option \<Rightarrow> 'w \<Rightarrow>
   (cli_error + string) \<times> 'w" where
  "publish_prev E N force prev normVerStr currLP w =
     (case currLP of
        Some lp \<Rightarrow>
          if \<not> force \<and> rollback normVerStr lp then (Inl ErrRollback, w)
          else (case prev of
            None \<Rightarrow> (Inr (lp_VersionRecordHash lp), w)
          | Some p \<Rightarrow>
              if zero_prev p then (if \<not> force then Inl ErrZeroPrevious else Inr ZeroHash, w)
              else if length p = 64 \<and> isCanonicalHexHash p then
                (let hexTarget = ToLower E p in
                 (if \<not> force \<and> hexTarget \<noteq> lp_VersionRecordHash lp then Inl ErrFork else Inr hexTarget, w))
              else
                (let ((chain, walked), w1) = Kademlia_WalkVersionChain E N (lp_VersionRecordHash lp) w;
                     foundHash = (if walked = Inr () then find_prev E p chain else []) in
                 (if foundHash = [] then Inl ErrPreviousNotFound
                  else if \<not> force \<and> foundHash \<noteq> lp_VersionRecordHash lp then Inl ErrFork
                  else Inr foundHash, w1)))
      | None \<Rightarrow>
          ((case prev of
              None \<Rightarrow> Inr ZeroHash
            | Some p \<Rightarrow>
                if zero_prev p then Inr ZeroHash
                else if \<not> force then Inl ErrInitialHasPrevious
                else if length p = 64 \<and> isCanonicalHexHash p then Inr (ToLower E p)
                else Inl ErrPreviousNotFound), w))"

section \<open>What is stored\<close>

text \<open>The records; for a forced publication without their checks.\<close>

definition publish_record ::
  "'e key_env_scheme \<Rightarrow> bool \<Rightarrow> string \<Rightarrow> string \<Rightarrow> string \<Rightarrow> string \<Rightarrow> string \<Rightarrow> cli_error + VersionRecord" where
  "publish_record E force domain pkg ver blobHash prev =
     (case NewVersionRecord E domain pkg ver blobHash prev of
        Inr vr \<Rightarrow> Inr vr
      | Inl e \<Rightarrow>
          if \<not> force then Inl (ErrCreateRecord e)
          else Inr \<lparr>vr_Tag = TagVersionRecord, vr_Domain = domain, vr_Package = pkg, vr_Version = ver,
            vr_BlobHash = blobHash, vr_PreviousVersionRecord = prev, vr_Signature = []\<rparr>)"

definition publish_pointer ::
  "'e key_env_scheme \<Rightarrow> bool \<Rightarrow> string \<Rightarrow> string \<Rightarrow> string \<Rightarrow> string \<Rightarrow> cli_error + LatestPointer" where
  "publish_pointer E force domain pkg ver vrHash =
     (case NewLatestPointer E domain pkg ver vrHash of
        Inr lp \<Rightarrow> Inr lp
      | Inl e \<Rightarrow>
          if \<not> force then Inl (ErrCreateRecord e)
          else Inr \<lparr>lp_Tag = TagLatestPointer, lp_Domain = domain, lp_Package = pkg, lp_Version = ver,
            lp_VersionRecordHash = vrHash, lp_Signature = []\<rparr>)"

definition publish_lp ::
  "'e key_env_scheme \<Rightarrow> 'w node_ops \<Rightarrow> bool \<Rightarrow> bytes \<Rightarrow> LatestPointer \<Rightarrow> 'w \<Rightarrow>
   ((cli_error + LatestPointer) \<times> 'w) option" where
  "publish_lp E N force priv lp0 w =
     Option.bind (LatestPointer_Sign E (Some lp0) priv) (\<lambda>(lp, _).
     map_option (\<lambda>(r, w1). (case r of Inl e \<Rightarrow> Inl (ErrStoreFailed e) | Inr _ \<Rightarrow> Inr (the lp), w1))
       (if force then StoreLatestPointerForce E N lp w else StoreLatestPointer E N lp w))"

text \<open>Blob, record and pointer in this order; \<open>None\<close> for a nil key pair, once the blob is stored.\<close>

definition publish_values ::
  "'e key_env_scheme \<Rightarrow> 'w node_ops \<Rightarrow> bool \<Rightarrow> string \<Rightarrow> string \<Rightarrow> string \<Rightarrow> DomainKeyPair option \<Rightarrow> string \<Rightarrow> bytes \<Rightarrow> 'w \<Rightarrow>
   ((cli_error + KademliaID \<times> KademliaID \<times> LatestPointer) \<times> 'w) option" where
  "publish_values E N force domain pkg ver dkp prev fileData w =
     Option.bind (Kademlia_Store E N fileData w) (\<lambda>(r1, w1).
       case r1 of
         Inl e \<Rightarrow> Some (Inl (ErrStoreFailed e), w1)
       | Inr blobKey \<Rightarrow>
           (case publish_record E force domain pkg ver (ComputeBlobHash E fileData) prev of
              Inl e \<Rightarrow> Some (Inl e, w1)
            | Inr vr0 \<Rightarrow>
                Option.bind dkp (\<lambda>k.
                Option.bind (VersionRecord_Sign E (Some vr0) (dkp_PrivateKey k)) (\<lambda>(vr, _).
                  case VersionRecord_MarshalJSON E vr of
                    Inl e \<Rightarrow> Some (Inl (ErrCreateRecord e), w1)
                  | Inr vrBytes \<Rightarrow>
                      Option.bind (Kademlia_Store E N vrBytes w1) (\<lambda>(r2, w2).
                        case r2 of
                          Inl e \<Rightarrow> Some (Inl (ErrStoreFailed e), w2)
                        | Inr vrKey \<Rightarrow>
                            (case publish_pointer E force domain pkg ver (hash_or_empty (RecordHash E vr)) of
                               Inl e \<Rightarrow> Some (Inl e, w2)
                             | Inr lp0 \<Rightarrow>
                                 map_option (\<lambda>(r3, w3). (map_sum id (\<lambda>lp. (blobKey, vrKey, lp)) r3, w3))
                                   (publish_lp E N force (dkp_PrivateKey k) lp0 w2)))))))"

section \<open>The command\<close>

definition publish_args ::
  "'e key_env_scheme \<Rightarrow> host_env \<Rightarrow> string list \<Rightarrow>
   cli_error + publish_flags \<times> (string \<times> string \<times> string) \<times> string \<times> bytes" where
  "publish_args E H args =
     err_bind (publish_loop args \<lparr>pf_force = False, pf_prev = None, pf_positional = []\<rparr>) (\<lambda>f.
     err_bind (publish_target (pf_positional f)) (\<lambda>(target, filename).
     err_bind (publish_spec E (pf_force f) target) (\<lambda>spec.
     err_bind (publish_file H filename) (\<lambda>file. Inr (f, spec, file)))))"

definition HandlePublish :: "'e key_env_scheme \<Rightarrow> host_env \<Rightarrow> 'w CLI \<Rightarrow> string list \<Rightarrow> 'w handler" where
  "HandlePublish E H C args s =
     (case publish_args E H args of
        Inl e \<Rightarrow> Some (Inl e, s)
      | Inr (f, (domain, pkg, ver), filename, fileData) \<Rightarrow>
          (case publish_key E H C (pf_force f) domain s of
             (Inl e, s1) \<Rightarrow> Some (Inl e, s1)
           | (Inr dkp, s1) \<Rightarrow>
               Option.bind (publish_owner E C (pf_force f) domain dkp s1) (\<lambda>(owned, s2).
                 case owned of
                   Inl e \<Rightarrow> Some (Inl e, s2)
                 | Inr _ \<Rightarrow>
                     Option.bind (cs_kad E C s2) (\<lambda>N.
                     Option.bind (LookupLatestPointer E N domain pkg (cs_world s2)) (\<lambda>(found, w).
                       let currLP = (case found of Inl _ \<Rightarrow> None | Inr (lp, _) \<Rightarrow> Some lp) in
                       case publish_prev E N (pf_force f) (pf_prev f) ver currLP w of
                         (Inl e, w1) \<Rightarrow> Some (Inl e, s2\<lparr>cs_world := w1\<rparr>)
                       | (Inr prev, w1) \<Rightarrow>
                           map_option (\<lambda>(r, w2).
                             (map_sum id (\<lambda>(blobKey, vrKey, lp).
                                Published domain pkg ver filename blobKey vrKey prev (LatestPointer_DHTKey E (Some lp)) (pf_force f)) r,
                              s2\<lparr>cs_world := w2\<rparr>))
                             (publish_values E N (pf_force f) domain pkg ver dkp prev fileData w1))))))"

section \<open>What the checks of an unforced publication mean\<close>

lemma publish_spec_unforced:
  assumes "publish_spec E False target = Inr (domain, pkg, ver)"
  shows "IsValidDomain E domain" and "IsValidPackageName pkg" and "\<exists>v. ver = Version_String v"
proof -
  obtain d p v where "Split target (CHR '':'') = [d, p, v]"
    using assms by (auto simp: publish_spec_def split: list.splits)
  with assms show "IsValidDomain E domain" "IsValidPackageName pkg" "\<exists>v. ver = Version_String v"
    by (auto simp: publish_spec_def Let_def split: if_splits sum.splits)
qed

lemma publish_prev_unforced:
  assumes "publish_prev E N False prev ver currLP w = (Inr h, w1)"
  shows "case currLP of None \<Rightarrow> h = ZeroHash | Some lp \<Rightarrow> h = lp_VersionRecordHash lp \<and> \<not> rollback ver lp"
  using assms by (auto simp: publish_prev_def Let_def split: option.splits if_splits prod.splits)

lemma publish_key_unforced:
  assumes "publish_key E H C False domain s = (Inr dkp, s1)"
  shows "\<exists>k. dkp = Some k \<and> fst (KeyManager_Load E domain (cs_keys s)) = Inr k" and "cs_owner E s1 = cs_owner E s"
    and "cs_world s1 = cs_world s" and "cs_kad E C s1 = cs_kad E C s"
proof -
  have v: "km_view E (snd (KeyManager_Load E domain (cs_keys s))) = km_view E (cs_keys s)" by (rule Load_keeps(1))
  have c: "\<exists>k. dkp = Some k \<and> fst (KeyManager_Load E domain (cs_keys s)) = Inr k \<and>
      s1 = s\<lparr>cs_keys := snd (KeyManager_Load E domain (cs_keys s))\<rparr>"
    using assms by (auto simp: publish_key_def Let_def split: if_splits prod.splits sum.splits)
  then show "\<exists>k. dkp = Some k \<and> fst (KeyManager_Load E domain (cs_keys s)) = Inr k" "cs_world s1 = cs_world s" by auto
  have km: "km_key E (cs_dns s, snd (KeyManager_Load E domain (cs_keys s))) = km_key E (cs_dns s, cs_keys s)"
    by (rule km_key_view) (simp_all add: v)
  have "owner_of E (cs_dns s, snd (KeyManager_Load E domain (cs_keys s))) d = owner_of E (cs_dns s, cs_keys s) d" for d
    by (simp only: owner_of_eq Let_def fst_conv km)
  with c show o: "cs_owner E s1 = cs_owner E s" by (auto simp: cs_owner_def fun_eq_iff)
  show "cs_kad E C s1 = cs_kad E C s" by (simp add: cs_kad_def o)
qed

lemma publish_owner_unforced:
  assumes "publish_owner E C False domain (Some k) s = Some (Inr u, s1)"
  shows "cli_Resolver C \<Longrightarrow> cs_owner E s domain = Inr (dkp_PublicKey k)" and "cs_world s1 = cs_world s"
    and "s1 = s \<or> s1 = cs_looked_up E domain s"
  using assms by (auto simp: publish_owner_def split: if_splits sum.splits)

text \<open>The values an unforced publication stores, one after the other.\<close>

lemma publish_values_unforced:
  assumes "publish_values E N False domain pkg ver (Some k) prev data w = Some (Inr (blobKey, vrKey, lp), w')"
  shows "\<exists>vr0 vr lp0 w1 w2 r q.
    Kademlia_Store E N data w = Some (Inr blobKey, w1) \<and>
    NewVersionRecord E domain pkg ver (ComputeBlobHash E data) prev = Inr vr0 \<and>
    VersionRecord_Sign E (Some vr0) (dkp_PrivateKey k) = Some (Some vr, r) \<and>
    Kademlia_Store E N (json_VersionRecord E vr) w1 = Some (Inr vrKey, w2) \<and>
    NewLatestPointer E domain pkg ver (hash_or_empty (RecordHash E (Some vr))) = Inr lp0 \<and>
    LatestPointer_Sign E (Some lp0) (dkp_PrivateKey k) = Some (Some lp, q) \<and>
    StoreLatestPointer E N (Some lp) w2 = Some (Inr (), w')"
proof -
  obtain r1 w1 where s1: "Kademlia_Store E N data w = Some (r1, w1)"
    using assms by (auto simp: publish_values_def bind_eq_Some_conv)
  then obtain b where b: "r1 = Inr b" using assms by (cases r1) (auto simp: publish_values_def)
  obtain vr0 where vr0: "NewVersionRecord E domain pkg ver (ComputeBlobHash E data) prev = Inr vr0"
    using assms s1 b by (auto simp: publish_values_def publish_record_def split: sum.splits)
  obtain ov r where sg: "VersionRecord_Sign E (Some vr0) (dkp_PrivateKey k) = Some (ov, r)"
    using assms s1 b vr0 by (auto simp: publish_values_def publish_record_def bind_eq_Some_conv)
  obtain vr where vr: "ov = Some vr" using sg by (auto simp: VersionRecord_Sign_def split: prod.splits sum.splits)
  obtain r2 w2 where s2: "Kademlia_Store E N (json_VersionRecord E vr) w1 = Some (r2, w2)"
    using assms s1 b vr0 sg vr
    by (auto simp: publish_values_def publish_record_def VersionRecord_MarshalJSON_def bind_eq_Some_conv)
  then obtain kk where kk: "r2 = Inr kk"
    using assms s1 b vr0 sg vr by (cases r2) (auto simp: publish_values_def publish_record_def VersionRecord_MarshalJSON_def)
  obtain lp0 where lp0: "NewLatestPointer E domain pkg ver (hash_or_empty (RecordHash E (Some vr))) = Inr lp0"
    using assms s1 b vr0 sg vr s2 kk
    by (auto simp: publish_values_def publish_record_def publish_pointer_def VersionRecord_MarshalJSON_def split: sum.splits)
  have p: "map_option (\<lambda>(r3, w3). (map_sum id (\<lambda>lp. (b, kk, lp)) r3, w3)) (publish_lp E N False (dkp_PrivateKey k) lp0 w2) =
      Some (Inr (blobKey, vrKey, lp), w')"
    using assms s1 b vr0 sg vr s2 kk lp0
    by (simp add: publish_values_def publish_record_def publish_pointer_def VersionRecord_MarshalJSON_def)
  then obtain r3 where r3: "publish_lp E N False (dkp_PrivateKey k) lp0 w2 = Some (r3, w')"
    and m: "map_sum id (\<lambda>lp. (b, kk, lp)) r3 = Inr (blobKey, vrKey, lp)" by auto
  from m have r3': "r3 = Inr lp" "b = blobKey" "kk = vrKey" by (cases r3; auto)+
  obtain ol q where sl: "LatestPointer_Sign E (Some lp0) (dkp_PrivateKey k) = Some (ol, q)"
    using r3 by (auto simp: publish_lp_def bind_eq_Some_conv)
  obtain l where l: "ol = Some l" using sl by (auto simp: LatestPointer_Sign_def split: sum.splits)
  obtain a where a: "StoreLatestPointer E N (Some l) w2 = Some (a, w')" "(case a of Inl e \<Rightarrow> Inl (ErrStoreFailed e) | Inr _ \<Rightarrow> Inr (the (Some l))) = r3"
    using r3 sl l by (auto simp: publish_lp_def)
  have "StoreLatestPointer E N (Some l) w2 = Some (Inr (), w') \<and> l = lp"
    using a r3'(1) by (cases a) auto
  with s1 b vr0 sg vr s2 kk lp0 sl l r3' show ?thesis by auto
qed

lemma not_rollback:
  assumes "lp_ok E lp" and "\<not> rollback ver lp" and "ver = Version_String v"
  shows "\<exists>u. LatestPointer_ParsedVersion (Some lp) = Inr u \<and> u < v"
  using assms ParseVersion_String [of v]
  by (auto simp: rollback_def lp_ok_def LatestPointer_ParsedVersion_def split: sum.splits)

text \<open>Signed with a genuine key pair, both records verify and belong together.\<close>

lemma published_records:
  assumes "NewVersionRecord E domain pkg ver blobHash prev = Inr vr0"
    and "length (dkp_PrivateKey k) = PrivateKeySize" and "length (dkp_PublicKey k) = PublicKeySize"
    and "\<And>m. length (ed25519_Sign E (dkp_PrivateKey k) m) = SignatureSize"
    and "\<And>m. ed25519_Verify E (dkp_PublicKey k) m (ed25519_Sign E (dkp_PrivateKey k) m)"
    and "VersionRecord_Sign E (Some vr0) (dkp_PrivateKey k) = Some (Some vr, r)"
    and "NewLatestPointer E domain pkg ver (hash_or_empty (RecordHash E (Some vr))) = Inr lp0"
    and "LatestPointer_Sign E (Some lp0) (dkp_PrivateKey k) = Some (Some lp, q)"
  shows "VersionRecord_Verify E (Some vr) (dkp_PublicKey k) = (Some vr, Inr ())"
    and "LatestPointer_Verify E (Some lp) (dkp_PublicKey k) = Inr ()"
    and "MatchesRecord E (Some lp) (Some vr) = Inr True"
proof -
  note new = NewVersionRecord_ok [OF assms(1)]
  define sig where "sig = ed25519_Sign E (dkp_PrivateKey k) (id_bytes (sha256 E (json_VersionRecord E (vr0\<lparr>vr_Signature := []\<rparr>))))"
  have len: "length sig = SignatureSize" using assms(4) by (simp add: sig_def)
  have vr: "vr = vr0\<lparr>vr_Signature := EncodeSignatureHex sig\<rparr>"
    using VersionRecord_Sign_ok [OF new(1) assms(2)] assms(6) by (simp add: sig_def)
  have ok: "vr_ok E vr" using new(1) by (simp add: vr)
  have ne: "vr_Signature vr \<noteq> []" using EncodeSignatureHex_nonempty [OF len] by (simp add: vr)
  have "ed25519_Verify E (dkp_PublicKey k) (id_bytes (sha256 E (json_VersionRecord E (vr\<lparr>vr_Signature := []\<rparr>)))) sig"
    using assms(5) by (simp add: sig_def vr)
  with ok ne len assms(3) have "snd (VersionRecord_Verify E (Some vr) (dkp_PublicKey k)) = Inr ()"
    by (auto simp: VersionRecord_Verify_iff vr)
  with VersionRecord_Verify_fst [OF ok, of "dkp_PublicKey k"]
  show "VersionRecord_Verify E (Some vr) (dkp_PublicKey k) = (Some vr, Inr ())" by (metis prod.collapse)
  let ?h = "hex_EncodeToString (id_bytes (sha256 E (json_VersionRecord E vr)))"
  have hash: "RecordHash E (Some vr) = Inr ?h" using ne by (simp add: RecordHash_def RecordHashBytes_def)
  have lp0: "lp_ok E lp0 \<and> lp_Domain lp0 = NormalizeDomain E domain \<and> lp_Package lp0 = TrimSpace pkg \<and>
      lp_VersionRecordHash lp0 = ?h \<and> lp_Version lp0 = vr_Version vr"
    using assms(7,1) hash ParseVersion_String
    by (auto simp: NewLatestPointer_def NewVersionRecord_def hash_or_empty_def lp_ok_def Let_def vr split: if_splits)
  define lsig where "lsig = ed25519_Sign E (dkp_PrivateKey k) (id_bytes (sha256 E (json_LatestPointer E (lp0\<lparr>lp_Signature := []\<rparr>))))"
  have llen: "length lsig = SignatureSize" using assms(4) by (simp add: lsig_def)
  have lp: "lp = lp0\<lparr>lp_Signature := EncodeSignatureHex lsig\<rparr>"
    using LatestPointer_Sign_ok [of E lp0, OF _ assms(2)] lp0 assms(8) by (simp add: lsig_def)
  have "ed25519_Verify E (dkp_PublicKey k) (id_bytes (sha256 E (json_LatestPointer E (lp\<lparr>lp_Signature := []\<rparr>)))) lsig"
    using assms(5) by (simp add: lsig_def lp)
  with lp0 llen assms(3) EncodeSignatureHex_nonempty [OF llen] show "LatestPointer_Verify E (Some lp) (dkp_PublicKey k) = Inr ()"
    by (auto simp: LatestPointer_Verify_iff lp)
  show "MatchesRecord E (Some lp) (Some vr) = Inr True"
    using hash lp0 new(2,4) by (auto simp: MatchesRecord_def lp vr)
qed

text \<open>The stages a successful publication went through.\<close>

lemma publish_args_spec:
  "publish_args E H args = Inr (f, spec, file) \<Longrightarrow> \<exists>target. publish_spec E (pf_force f) target = Inr spec"
  by (auto simp: publish_args_def err_bind_def split: sum.splits prod.splits)

lemma HandlePublish_stages:
  assumes "HandlePublish E H C args s = Some (Inr (Published domain pkg ver file blobKey vrKey prev dht force), s')"
  shows "\<exists>f data dkp s1 u s2 N found w w1 lp.
    publish_args E H args = Inr (f, (domain, pkg, ver), file, data) \<and> pf_force f = force \<and>
    publish_key E H C force domain s = (Inr dkp, s1) \<and>
    publish_owner E C force domain dkp s1 = Some (Inr u, s2) \<and> cs_kad E C s2 = Some N \<and>
    LookupLatestPointer E N domain pkg (cs_world s2) = Some (found, w) \<and>
    publish_prev E N force (pf_prev f) ver (case found of Inl _ \<Rightarrow> None | Inr (lp, _) \<Rightarrow> Some lp) w = (Inr prev, w1) \<and>
    publish_values E N force domain pkg ver dkp prev data w1 = Some (Inr (blobKey, vrKey, lp), cs_world s')"
proof -
  obtain a where "publish_args E H args = Inr a"
    using assms by (cases "publish_args E H args") (auto simp: HandlePublish_def)
  then obtain f d p v fl data where a: "publish_args E H args = Inr (f, (d, p, v), fl, data)" by (cases a) auto
  obtain k s1 where k: "publish_key E H C (pf_force f) d s = (k, s1)" by (cases "publish_key E H C (pf_force f) d s")
  obtain dkp where dkp: "k = Inr dkp" using assms a k by (cases k) (auto simp: HandlePublish_def)
  obtain o1 s2 where o1: "publish_owner E C (pf_force f) d dkp s1 = Some (o1, s2)"
    using assms a k dkp by (auto simp: HandlePublish_def bind_eq_Some_conv)
  obtain u where u: "o1 = Inr u" using assms a k dkp o1 by (cases o1) (auto simp: HandlePublish_def)
  obtain N where N: "cs_kad E C s2 = Some N"
    using assms a k dkp o1 u by (auto simp: HandlePublish_def bind_eq_Some_conv)
  obtain found w where l: "LookupLatestPointer E N d p (cs_world s2) = Some (found, w)"
    using assms a k dkp o1 u N by (auto simp: HandlePublish_def bind_eq_Some_conv)
  let ?curr = "case found of Inl _ \<Rightarrow> None | Inr (lp, _) \<Rightarrow> Some lp"
  obtain q w1 where q: "publish_prev E N (pf_force f) (pf_prev f) v ?curr w = (q, w1)"
    by (cases "publish_prev E N (pf_force f) (pf_prev f) v ?curr w")
  obtain h where h: "q = Inr h" using assms a k dkp o1 u N l q by (cases q) (auto simp: HandlePublish_def)
  obtain r w2 where r: "publish_values E N (pf_force f) d p v dkp h data w1 = Some (r, w2)"
    using assms a k dkp o1 u N l q h by (auto simp: HandlePublish_def)
  obtain bk vk lp where b: "r = Inr (bk, vk, lp)"
    using assms a k dkp o1 u N l q h r by (cases r) (auto simp: HandlePublish_def)
  show ?thesis
    using assms a k dkp o1 u N l q h r b by (auto simp: HandlePublish_def)
qed

section \<open>The concrete node publishes\<close>

lemma demo_publish_args:
  "publish_args demo_key_env demo_host [''example.com:pkg:2.0.0'', ''pkg.tar.gz''] =
     Inr (\<lparr>pf_force = False, pf_prev = None, pf_positional = [''example.com:pkg:2.0.0'', ''pkg.tar.gz'']\<rparr>,
       (''example.com'', ''pkg'', ''2.0.0''), ''pkg.tar.gz'', [7, 8])"
proof -
  have v: "ParseVersion ''2.0.0'' = Inr (Version 2 0 0)" "Version_String (Version 2 0 0) = ''2.0.0''"
    using demo_versions(2) by (simp_all add: Version_String_def dec.simps char_of_def bit_Suc_0_iff)
  have t: "TrimSpace ''2.0.0'' = ''2.0.0''" by (simp add: domain_eval)
  have "publish_spec demo_key_env False ''example.com:pkg:2.0.0'' = Inr (''example.com'', ''pkg'', ''2.0.0'')"
    using demo_key_valid demo_valid by (simp add: publish_spec_def t v)
  moreover have "publish_file demo_host ''pkg.tar.gz'' = Inr (''pkg.tar.gz'', [7, 8])"
    by (simp add: publish_file_def publish_candidates_def demo_host_def)
  ultimately show ?thesis
    by (simp add: publish_args_def publish_target_def HasPrefix_def err_bind_def)
qed

lemma demo_key_store:
  "d \<noteq> [] \<Longrightarrow> Kademlia_Store demo_key_env (demo_ops f) d w = Some (Inr (mk_id d), w)"
  "StoreWithKey (demo_ops f) (Some i) d w = (if d = [] then Some (Inl ErrEmptyData, w) else Some (Inr (), w))"
  by (auto simp: Kademlia_Store_def StoreWithKey_def demo_ops_def NewKademliaIDFromData_def)

lemma demo_json [simp]: "json_VersionRecord demo_env r \<noteq> []" "json_LatestPointer demo_env l \<noteq> []"
  by (simp_all add: demo_env_def)

lemma demo_sign: "ed25519_Sign demo_env priv m = replicate 64 0" "ed25519_Verify demo_env pub m (replicate 64 0)"
  by (simp_all add: demo_env_def)

lemma demo_publish_values:
  "\<exists>b v lp. publish_values demo_key_env (demo_ops f) False ''example.com'' ''pkg'' ''2.0.0'' (Some demo_pair) demo_h1 [7, 8] w =
     Some (Inr (b, v, lp), w)"
proof -
  let ?E = demo_key_env
  obtain i where i: "ComputeBlobHash ?E [7, 8] = hex_EncodeToString (id_bytes i)" unfolding ComputeBlobHash_def by blast
  then have h: "ToLower ?E (TrimSpace (ComputeBlobHash ?E [7, 8])) = ComputeBlobHash ?E [7, 8] \<and> length (ComputeBlobHash ?E [7, 8]) = 64"
    unfolding i by (simp add: IDLength_def)
  have "\<exists>vr0. NewVersionRecord ?E ''example.com'' ''pkg'' ''2.0.0'' (ComputeBlobHash ?E [7, 8]) demo_h1 = Inr vr0"
    using h demo_key_valid demo_valid demo_versions by (simp add: NewVersionRecord_def)
  then obtain vr0 where vr0: "NewVersionRecord ?E ''example.com'' ''pkg'' ''2.0.0'' (ComputeBlobHash ?E [7, 8]) demo_h1 = Inr vr0" ..
  have priv: "length (dkp_PrivateKey demo_pair) = PrivateKeySize" by (simp add: demo_pair_def PrivateKeySize_def)
  obtain vr where vr: "VersionRecord_Sign ?E (Some vr0) (dkp_PrivateKey demo_pair) = Some (Some vr, Inr ())" "vr_Signature vr \<noteq> []"
    using VersionRecord_Sign_ok [OF NewVersionRecord_ok(1) [OF vr0] priv] EncodeSignatureHex_nonempty [of "replicate 64 0"]
    by (simp add: demo_sign SignatureSize_def)
  let ?r = "hash_or_empty (RecordHash ?E (Some vr))"
  have r: "?r = hex_EncodeToString (id_bytes (mk_id (json_VersionRecord demo_env vr)))"
    using vr(2) by (simp add: RecordHash_def RecordHashBytes_def hash_or_empty_def)
  then have "\<exists>lp0. NewLatestPointer ?E ''example.com'' ''pkg'' ''2.0.0'' ?r = Inr lp0 \<and> lp_ok ?E lp0"
    using demo_key_valid demo_valid demo_versions ParseVersion_String [of "Version 2 0 0"] by (simp add: NewLatestPointer_def lp_ok_def IDLength_def)
  then obtain lp0 where lp0: "NewLatestPointer ?E ''example.com'' ''pkg'' ''2.0.0'' ?r = Inr lp0" "lp_ok ?E lp0" by blast
  obtain lp where lp: "LatestPointer_Sign ?E (Some lp0) (dkp_PrivateKey demo_pair) = Some (Some lp, Inr ())" "lp_ok ?E lp" "lp_Signature lp \<noteq> []"
    using LatestPointer_Sign_ok [OF lp0(2) priv] EncodeSignatureHex_nonempty [of "replicate 64 0"] lp0(2)
    by (simp add: demo_sign SignatureSize_def)
  have "StoreLatestPointer ?E (demo_ops f) (Some lp) w = Some (Inr (), w)"
    using lp(2,3) by (simp add: StoreLatestPointer_def LatestPointer_MarshalJSON_def demo_key_store)
  with vr0 vr(1) lp0(1) lp(1) show ?thesis
    by (simp add: publish_values_def publish_record_def publish_pointer_def publish_lp_def VersionRecord_MarshalJSON_def demo_key_store)
qed

lemma demo_publish:
  "\<exists>b v dht s'. HandlePublish demo_key_env demo_host demo_CLI [''example.com:pkg:2.0.0'', ''pkg.tar.gz''] demo_cli_state =
     Some (Inr (Published ''example.com'' ''pkg'' ''2.0.0'' ''pkg.tar.gz'' b v demo_h1 dht False), s')"
proof -
  let ?E = demo_key_env let ?s = demo_cli_state
  have "fst (KeyManager_Load ?E ''example.com'' (cs_keys ?s)) = Inr demo_pair"
    using demo_key_valid by (simp add: KeyManager_Load_def demo_cli_state_def gm.get_set)
  then obtain s1 where k: "publish_key ?E demo_host demo_CLI False ''example.com'' ?s = (Inr (Some demo_pair), s1)"
    by (cases "KeyManager_Load ?E ''example.com'' (cs_keys ?s)") (simp add: publish_key_def demo_CLI_def)
  note key = publish_key_unforced [OF k]
  have "dkp_PublicKey demo_pair = demo_pub" by (simp add: demo_pair_def)
  then have o: "publish_owner ?E demo_CLI False ''example.com'' (Some demo_pair) s1 = Some (Inr (), cs_looked_up ?E ''example.com'' s1)"
    using key(2) demo_owner by (simp add: publish_owner_def demo_CLI_def)
  have l: "LookupLatestPointer ?E (demo_ops f) ''example.com'' ''pkg'' w = Some (Inr (demo_lp, demo_me), w)" for f w
    by (simp add: LookupLatestPointer_def demo_parsed)
  have "\<not> Version_Compare (Version 2 0 0) (Version 1 0 0) \<le> 0" by code_simp
  then have "\<not> rollback ''2.0.0'' demo_lp"
    using demo_versions by (simp add: rollback_def LatestPointer_ParsedVersion_def demo_lp_def del: Version_Compare_order)
  then have p: "publish_prev ?E (demo_ops f) False None ''2.0.0'' (Some demo_lp) w = (Inr demo_h1, w)" for f w
    by (simp add: publish_prev_def) (simp add: demo_lp_def)
  let ?s2 = "cs_looked_up ?E ''example.com'' s1"
  have kad: "cs_kad ?E demo_CLI ?s2 = Some (demo_ops (cs_owner ?E ?s2))" by (simp add: cs_kad_def demo_CLI_def)
  obtain b v lp where v: "publish_values ?E (demo_ops (cs_owner ?E ?s2)) False ''example.com'' ''pkg'' ''2.0.0'' (Some demo_pair) demo_h1 [7, 8]
      (cs_world ?s2) = Some (Inr (b, v, lp), cs_world ?s2)"
    using demo_publish_values by blast
  show ?thesis using k o l p v kad demo_publish_args by (simp add: HandlePublish_def)
qed

section \<open>Properties\<close>


text \<open>
  C29. \<^verbatim>\<open>publish --force\<close> for a name that is no valid domain cannot work: there is no key of its own, no throwaway
  key can be made for it, and once the previous version is settled and the blob is stored, the nil key pair is dereferenced and the
  node panics.
\<close>

theorem HandlePublish_force_panics:
  assumes "publish_args E H args = Inr (f, (domain, pkg, ver), file, data)" and "pf_force f"
    and "\<not> IsValidDomain E (NormalizeDomain E domain)" and "cs_kad E C s = Some N"
    and "LookupLatestPointer E N domain pkg (cs_world s) = Some (found, w)"
    and "publish_prev E N True (pf_prev f) ver (case found of Inl _ \<Rightarrow> None | Inr (lp, _) \<Rightarrow> Some lp) w = (Inr prev, w1)"
    and "Kademlia_Store E N data w1 = Some (Inr blobKey, w2)"
  shows "HandlePublish E H C args s = None"
proof -
  have "KeyManager_Load E domain (cs_keys s) = (Inl ErrInvalidDomain, cs_keys s)"
    using assms(3) by (simp add: KeyManager_Load_def Let_def split: prod.split)
  then have "publish_key E H C True domain s = (Inr None, s)"
    using assms(3) by (simp add: publish_key_def GenerateDomainKeyPair_def Let_def)
  moreover have "\<exists>vr. publish_record E True domain pkg ver (ComputeBlobHash E data) prev = Inr vr"
    by (simp add: publish_record_def split: sum.split)
  then have "publish_values E N True domain pkg ver None prev data w1 = None"
    using assms(7) by (auto simp: publish_values_def)
  ultimately show ?thesis
    using assms(1,2,4-6) by (simp add: HandlePublish_def publish_owner_def)
qed

theorem HandlePublish_force_panics_witness:
  "HandlePublish demo_key_env demo_host demo_CLI [''--force'', ''x_y:pkg:1.0.0'', ''hello''] demo_cli_state = None"
proof -
  let ?E = demo_key_env let ?s = demo_cli_state let ?N = "demo_ops (cs_owner ?E ?s)"
  let ?f = "\<lparr>pf_force = True, pf_prev = None, pf_positional = [''x_y:pkg:1.0.0'', ''hello'']\<rparr>"
  have v: "ParseVersion ''1.0.0'' = Inr (Version 1 0 0)" "Version_String (Version 1 0 0) = ''1.0.0''"
    using demo_versions(1) by (simp_all add: Version_String_def dec.simps char_of_def bit_Suc_0_iff)
  have n: "NormalizeDomain ?E ''x_y'' = ''x_y''" "\<not> IsValidDomain ?E ''x_y''"
    by (simp_all add: domain_eval demo_key_env_def demo_env_def reg_env.defs)
  have t: "TrimSpace ''1.0.0'' = ''1.0.0''" by (simp add: domain_eval)
  have "publish_spec ?E True ''x_y:pkg:1.0.0'' = Inr (''x_y'', ''pkg'', ''1.0.0'')"
    by (simp add: publish_spec_def n t v demo_valid)
  moreover have "publish_file demo_host ''hello'' = Inr (''<inline-content>'', bytes_of_string ''hello'')"
  proof -
    have "first_content demo_host (publish_candidates ''hello'') = None" by code_simp
    then show ?thesis by (simp add: publish_file_def HasPrefix_def)
  qed
  ultimately have a: "publish_args ?E demo_host [''--force'', ''x_y:pkg:1.0.0'', ''hello''] =
      Inr (?f, (''x_y'', ''pkg'', ''1.0.0''), ''<inline-content>'', bytes_of_string ''hello'')"
    by (simp add: publish_args_def publish_target_def HasPrefix_def err_bind_def)
  have kad: "cs_kad ?E demo_CLI ?s = Some ?N" by (simp add: cs_kad_def demo_CLI_def)
  obtain q where q: "LookupDataByID ?E ?N (Some (LatestPointerDHTKeyBytes ?E ''x_y'' ''pkg'')) (cs_world ?s) = Some (q, cs_world ?s)"
    by (cases "demo_store (LatestPointerDHTKeyBytes ?E ''x_y'' ''pkg'')") (auto simp: LookupDataByID_def demo_ops_def)
  have "\<exists>found. LookupLatestPointer ?E ?N ''x_y'' ''pkg'' (cs_world ?s) = Some (found, cs_world ?s)"
  proof (cases q)
    case (Inr a)
    with q show ?thesis by (cases a; cases "ParseLatestPointer ?E (fst a)") (simp_all add: LookupLatestPointer_def)
  qed (use q in \<open>simp add: LookupLatestPointer_def\<close>)
  then obtain found where l: "LookupLatestPointer ?E ?N ''x_y'' ''pkg'' (cs_world ?s) = Some (found, cs_world ?s)" ..
  obtain prev where p: "publish_prev ?E ?N True (pf_prev ?f) ''1.0.0'' (case found of Inl _ \<Rightarrow> None | Inr (lp, _) \<Rightarrow> Some lp) (cs_world ?s) =
      (Inr prev, cs_world ?s)"
    by (cases found) (auto simp: publish_prev_def)
  show ?thesis
    by (rule HandlePublish_force_panics [OF a _ _ kad l p])
      (use n in \<open>simp_all add: demo_key_store bytes_of_string_def\<close>)
qed

end
