(* ===== verification/Kad_Eviction.thy ===== *)
theory Kad_Eviction
  imports Kad_Closest
begin

text \<open>
  The concurrent life of a routing table (\<^verbatim>\<open>src/kademlia/routingtable.go\<close>): calls of
  \<^verbatim>\<open>AddContact\<close>, \<^verbatim>\<open>RemoveContact\<close> and \<^verbatim>\<open>UpdateWithPing\<close> from any number of goroutines and the
  eviction goroutines that \<^verbatim>\<open>UpdateWithPing\<close> launches.  The code's critical sections are the atomic
  steps; \<open>task\<close> is where a running call or goroutine stands between two of them.
\<close>

section \<open>Tasks and steps\<close>

datatype task =
    T_Queue Contact nat Contact \<comment> \<open>UpdateWithPing after the first section: candidate, bucket, oldest\<close>
  | T_Ping nat Contact \<comment> \<open>eviction goroutine about to ping\<close>
  | T_Remove nat Contact \<comment> \<open>the ping failed\<close>
  | T_Pop nat \<comment> \<open>the dead contact is removed\<close>
  | T_Readd nat Contact \<comment> \<open>a replacement was popped\<close>
  | T_Promote nat Contact \<comment> \<open>the ping succeeded\<close>
  | T_Clear nat \<comment> \<open>first deferred call: delete inFlight\<close>
  | T_Done \<comment> \<open>second deferred call: evictWg.Done\<close>

fun task_step :: "bool \<Rightarrow> RoutingTable \<Rightarrow> task \<Rightarrow> (RoutingTable \<times> task option) option" where
  "task_step ping_failed rt (T_Queue candidate bi oldest) =
     (let (rt1, launched) = UpdateWithPing_queue rt candidate bi in
      Some (rt1, if launched then Some (T_Ping bi oldest) else None))"
| "task_step ping_failed rt (T_Ping bi target) =
     Some (rt, Some (if ping_failed then T_Remove bi target else T_Promote bi target))"
| "task_step ping_failed rt (T_Remove bi target) =
     map_option (\<lambda>(rt1, removed). (rt1, Some (T_Pop bi))) (RoutingTable_RemoveContact rt target)"
| "task_step ping_failed rt (T_Pop bi) =
     (let (rt1, repl) = pop_replacement rt bi in
      Some (rt1, Some (case repl of None \<Rightarrow> T_Clear bi | Some c \<Rightarrow> T_Readd bi c)))"
| "task_step ping_failed rt (T_Readd bi c) =
     map_option (\<lambda>rt1. (rt1, Some (T_Clear bi))) (RoutingTable_AddContact rt c)"
| "task_step ping_failed rt (T_Promote bi target) =
     map_option (\<lambda>rt1. (rt1, Some (T_Clear bi))) (promote_target rt bi target)"
| "task_step ping_failed rt (T_Clear bi) = Some (clear_inFlight rt bi, Some T_Done)"
| "task_step ping_failed rt T_Done = Some (rt\<lparr>evictWg := evictWg rt - 1\<rparr>, None)"

record evict_sys =
  tbl :: RoutingTable
  tasks :: "task multiset"

definition mset_opt :: "'a option \<Rightarrow> 'a multiset" where
  "mset_opt x = (case x of None \<Rightarrow> {#} | Some y \<Rightarrow> {#y#})"

inductive evict_step :: "evict_sys \<Rightarrow> evict_sys \<Rightarrow> bool" where
  add: "RoutingTable_AddContact (tbl s) c = Some rt \<Longrightarrow> evict_step s (s\<lparr>tbl := rt\<rparr>)"
| remove: "RoutingTable_RemoveContact (tbl s) c = Some (rt, r) \<Longrightarrow> evict_step s (s\<lparr>tbl := rt\<rparr>)"
| update: "UpdateWithPing_table (tbl s) c has_pinger = Some (rt, r) \<Longrightarrow>
     evict_step s (s\<lparr>tbl := rt,
       tasks := tasks s + mset_opt (map_option (\<lambda>(bi, oldest). T_Queue c bi oldest) r)\<rparr>)"
| task: "t \<in># tasks s \<Longrightarrow> task_step ping_failed (tbl s) t = Some (rt, t') \<Longrightarrow>
     evict_step s (s\<lparr>tbl := rt, tasks := tasks s - {#t#} + mset_opt t'\<rparr>)"

inductive evict_reachable :: "Contact \<Rightarrow> evict_sys \<Rightarrow> bool" for m where
  start: "evict_reachable m \<lparr>tbl = NewRoutingTable m, tasks = {#}\<rparr>"
| step: "evict_reachable m s \<Longrightarrow> evict_step s s' \<Longrightarrow> evict_reachable m s'"

section \<open>The invariant\<close>

fun probe_bucket :: "task \<Rightarrow> nat option" where
  "probe_bucket (T_Ping bi c) = Some bi"
| "probe_bucket (T_Remove bi c) = Some bi"
| "probe_bucket (T_Pop bi) = Some bi"
| "probe_bucket (T_Readd bi c) = Some bi"
| "probe_bucket (T_Promote bi c) = Some bi"
| "probe_bucket (T_Clear bi) = Some bi"
| "probe_bucket _ = None"

fun is_probe :: "task \<Rightarrow> bool" where
  "is_probe (T_Queue c bi oldest) = False"
| "is_probe _ = True"

definition in_place :: "KademliaID \<Rightarrow> nat \<Rightarrow> Contact \<Rightarrow> bool" where
  "in_place m bi c \<longleftrightarrow> ID c \<noteq> None \<and> bucket_index m (cid c) = bi"

fun task_ok :: "KademliaID \<Rightarrow> task \<Rightarrow> bool" where
  "task_ok m (T_Queue c bi oldest) = (in_place m bi c \<and> in_place m bi oldest)"
| "task_ok m (T_Ping bi c) = in_place m bi c"
| "task_ok m (T_Remove bi c) = in_place m bi c"
| "task_ok m (T_Readd bi c) = in_place m bi c"
| "task_ok m (T_Promote bi c) = in_place m bi c"
| "task_ok m _ = True"

definition probes_on :: "nat \<Rightarrow> task multiset \<Rightarrow> nat" where
  "probes_on bi ts = size (filter_mset (\<lambda>t. probe_bucket t = Some bi) ts)"

definition probes :: "task multiset \<Rightarrow> nat" where
  "probes ts = size (filter_mset is_probe ts)"

definition evict_inv :: "KademliaID \<Rightarrow> evict_sys \<Rightarrow> bool" where
  "evict_inv m s \<longleftrightarrow>
     rt_wf (tbl s) \<and> cid (me (tbl s)) = m \<and> (\<forall>t \<in># tasks s. task_ok m t) \<and>
     (\<forall>bi. probes_on bi (tasks s) = of_bool (is_inFlight (tbl s) bi)) \<and>
     evictWg (tbl s) = probes (tasks s)"

text \<open>What each section keeps: the frame facts the invariant needs.\<close>

definition same_book :: "RoutingTable \<Rightarrow> RoutingTable \<Rightarrow> bool" where
  "same_book rt rt' \<longleftrightarrow> me rt' = me rt \<and> inFlight rt' = inFlight rt \<and> evictWg rt' = evictWg rt"

lemma same_book_inFlight: "same_book rt rt' \<Longrightarrow> is_inFlight rt' bi = is_inFlight rt bi"
  by (simp add: same_book_def is_inFlight_def)

lemma AddContact_book: "RoutingTable_AddContact rt c = Some rt' \<Longrightarrow> same_book rt rt'"
  by (auto simp: RoutingTable_AddContact_def same_book_def bind_eq_Some_conv split: if_splits)

lemma RemoveContact_book: "RoutingTable_RemoveContact rt c = Some (rt', r) \<Longrightarrow> same_book rt rt'"
  by (auto simp: RoutingTable_RemoveContact_def same_book_def bind_eq_Some_conv Let_def
      case_prod_unfold split: if_splits)

lemma promote_book: "promote_target rt bi c = Some rt' \<Longrightarrow> same_book rt rt'"
  by (auto simp: promote_target_def same_book_def bind_eq_Some_conv)

lemma pop_book: "same_book rt (fst (pop_replacement rt bi))"
  by (simp add: pop_replacement_def same_book_def split: list.splits)

lemma promote_target_ok:
  assumes "rt_wf rt" and "in_place (cid (me rt)) bi c"
  shows "\<exists>rt'. promote_target rt bi c = Some rt' \<and> rt_wf rt'"
proof -
  from assms(2) have c: "ID c \<noteq> None" "bi = bucket_index (cid (me rt)) (cid c)"
    by (simp_all add: in_place_def)
  then have "bucket_wf (buckets rt ! bi)" using assms(1) by (simp add: rt_wfD)
  then obtain b r where b: "bucket_AddContact (buckets rt ! bi) c = Some (b, r)"
    using bucket_AddContact_no_panic c(1) by blast
  then show ?thesis
    using bucket_add_in_place [OF assms(1) c b] by (simp add: promote_target_def)
qed

lemma in_cache_iff:
  "list_all (\<lambda>c. ID c \<noteq> None) q \<Longrightarrow> ID c = Some k \<Longrightarrow> in_cache c q \<longleftrightarrow> k \<in> cid ` set q"
  by (induction q) (auto simp: Equals_ptr_def)

lemma enqueue_replacement_wf:
  assumes "queue_wf m bi q" and "in_place m bi c"
  shows "queue_wf m bi (enqueue_replacement q c)"
proof -
  from assms(2) obtain k where k: "ID c = Some k" by (auto simp: in_place_def)
  have "list_all (\<lambda>c. ID c \<noteq> None) q" using assms(1) by (auto simp: queue_wf_def list_all_iff)
  note in_cache_iff [OF this k]
  then show ?thesis
    using assms k
    by (cases q) (auto simp: queue_wf_def enqueue_replacement_def in_place_def
        replacementCacheSize_def list_all_iff)
qed

lemma queue_of_set [simp]:
  "queue_of (rt\<lparr>replacements := gm_set bi q (replacements rt)\<rparr>) bi' =
     (if bi' = bi then q else queue_of rt bi')"
  by (simp add: queue_of_def)

lemma rt_wf_queue_update:
  assumes "rt_wf rt" and "queue_wf (cid (me rt)) bi q"
  shows "rt_wf (rt\<lparr>replacements := gm_set bi q (replacements rt)\<rparr>)"
  using assms by (auto simp: rt_wf_def gm.invar_set simp del: gm.get_set)

lemma rt_wf_inFlight: "rt_wf rt \<Longrightarrow> gm_wf f \<Longrightarrow> rt_wf (rt\<lparr>inFlight := f\<rparr>)"
  by (simp add: rt_wf_def queue_of_def)

lemma rt_wf_evictWg [simp]: "rt_wf (rt\<lparr>evictWg := n\<rparr>) \<longleftrightarrow> rt_wf rt"
  by (simp add: rt_wf_def queue_of_def)

lemma UpdateWithPing_queue_ok:
  assumes "rt_wf rt" and "in_place (cid (me rt)) bi c" and "UpdateWithPing_queue rt c bi = (rt', l)"
  shows "rt_wf rt'" and "me rt' = me rt"
    and "l \<longleftrightarrow> \<not> is_inFlight rt bi"
    and "is_inFlight rt' bi' \<longleftrightarrow> is_inFlight rt bi' \<or> bi' = bi"
    and "evictWg rt' = evictWg rt + of_bool l"
proof -
  define rt1 where "rt1 = (if in_cache c (queue_of rt bi) then rt
    else rt\<lparr>replacements := gm_set bi (enqueue_replacement (queue_of rt bi) c) (replacements rt)\<rparr>)"
  have q: "queue_wf (cid (me rt)) bi (queue_of rt bi)" using assms(1) by (simp add: rt_wf_def)
  have w1: "rt_wf rt1"
    using assms(1) rt_wf_queue_update [OF assms(1) enqueue_replacement_wf [OF q assms(2)]]
    by (simp add: rt1_def)
  have b1: "same_book rt rt1" by (simp add: rt1_def same_book_def)
  have r: "(rt', l) = (if is_inFlight rt1 bi then (rt1, False)
     else (rt1\<lparr>inFlight := gm_set bi True (inFlight rt1), evictWg := Suc (evictWg rt1)\<rparr>, True))"
    unfolding assms(3) [symmetric] UpdateWithPing_queue_def Let_def rt1_def ..
  have "gm_wf (inFlight rt1)" using w1 by (simp add: rt_wf_def)
  then show "rt_wf rt'" using r w1
    by (auto simp: gm.invar_set rt_wf_inFlight split: if_splits)
  show "me rt' = me rt" "l \<longleftrightarrow> \<not> is_inFlight rt bi"
    "is_inFlight rt' bi' \<longleftrightarrow> is_inFlight rt bi' \<or> bi' = bi" "evictWg rt' = evictWg rt + of_bool l"
    using r b1 same_book_inFlight [OF b1]
    by (auto simp: same_book_def is_inFlight_def split: if_splits)
qed

lemma UpdateWithPing_table_ok:
  assumes "rt_wf rt"
  shows "\<exists>rt' r. UpdateWithPing_table rt c p = Some (rt', r) \<and> rt_wf rt' \<and> same_book rt rt' \<and>
    (\<forall>bi oldest. r = Some (bi, oldest) \<longrightarrow>
       in_place (cid (me rt)) bi c \<and> in_place (cid (me rt)) bi oldest)"
proof (cases "ID c = None \<or> ID c = ID (me rt)")
  case True
  then show ?thesis
    using assms rt_wfD(1) [OF assms]
    by (auto simp: UpdateWithPing_table_def Equals_ptr_def same_book_def)
next
  case False
  then obtain k where k: "ID c = Some k" by auto
  let ?bi = "bucket_index (cid (me rt)) k"
  have w: "bucket_wf (buckets rt ! ?bi)" using assms by (simp add: rt_wfD)
  then obtain b r where b: "bucket_AddContact (buckets rt ! ?bi) c = Some (b, r)"
    using bucket_AddContact_no_panic k by blast
  have self: "Equals_ptr (Some k) (ID (me rt)) = Some False"
    using False k rt_wfD(1) [OF assms] by (auto simp: Equals_ptr_def)
  have wf': "rt_wf (rt\<lparr>buckets := (buckets rt)[?bi := b]\<rparr>)"
    using bucket_add_in_place [OF assms, of c ?bi b r] b k by simp
  have old: "in_place (cid (me rt)) ?bi (last (buckets rt ! ?bi))" if "buckets rt ! ?bi \<noteq> []"
    using that rt_wfD(4) [OF assms, of ?bi "last (buckets rt ! ?bi)"] by (simp add: in_place_def)
  show ?thesis
    using assms k self b wf' old rt_wfD(1) [OF assms] bucket_AddContact_ids(3) [OF w k b]
    by (auto simp: UpdateWithPing_table_def same_book_def bucket_GetOldestContact_def in_place_def)
qed


section \<open>Every step keeps the invariant\<close>

lemma probes_simps [simp]:
  "probes_on bi (ts + us) = probes_on bi ts + probes_on bi us"
  "probes_on bi {#} = 0"
  "probes_on bi (add_mset t ts) = of_bool (probe_bucket t = Some bi) + probes_on bi ts"
  "probes (ts + us) = probes ts + probes us" "probes {#} = 0"
  "probes (add_mset t ts) = of_bool (is_probe t) + probes ts"
  by (simp_all add: probes_on_def probes_def)

lemma mset_opt_simps [simp]: "mset_opt None = {#}" "mset_opt (Some x) = {#x#}"
  by (simp_all add: mset_opt_def)

lemma evict_inv_start: "ID m \<noteq> None \<Longrightarrow> evict_inv (cid m) \<lparr>tbl = NewRoutingTable m, tasks = {#}\<rparr>"
  by (simp add: evict_inv_def rt_wf_New)
    (simp add: NewRoutingTable_def is_inFlight_def)

lemma evict_inv_same_book:
  assumes "evict_inv m s" and "rt_wf rt" and "same_book (tbl s) rt"
  shows "evict_inv m (s\<lparr>tbl := rt\<rparr>)"
  using assms same_book_inFlight [OF assms(3)] by (simp add: evict_inv_def same_book_def)

text \<open>A task step taken alone: what it does to the table and to the books.\<close>

lemma task_step_ok:
  assumes "rt_wf rt" and "task_ok (cid (me rt)) t" and "task_step f rt t = Some (rt', t')"
  shows "rt_wf rt'" and "me rt' = me rt" and "\<forall>u \<in># mset_opt t'. task_ok (cid (me rt)) u"
proof -
  have q: "queue_wf (cid (me rt)) bi (queue_of rt bi)" for bi
    using assms(1) by (simp add: rt_wf_def)
  have tl: "queue_wf (cid (me rt)) bi xs \<and> in_place (cid (me rt)) bi x"
    if "queue_of rt bi = x # xs" for bi x xs
    using q [of bi] that by (auto simp: queue_wf_def in_place_def)
  have "rt_wf rt' \<and> me rt' = me rt \<and> (\<forall>u \<in># mset_opt t'. task_ok (cid (me rt)) u)"
  proof (cases t)
    case (T_Queue c bi oldest)
    obtain rt1 l where u: "UpdateWithPing_queue rt c bi = (rt1, l)" by force
    have "in_place (cid (me rt)) bi c" "in_place (cid (me rt)) bi oldest"
      using assms(2) T_Queue by simp_all
    note ok = UpdateWithPing_queue_ok [OF assms(1) this(1) u] this(2)
    have "rt' = rt1" "t' = (if l then Some (T_Ping bi oldest) else None)"
      using assms(3) T_Queue u by auto
    with ok show ?thesis by simp
  next
    case (T_Remove bi c)
    with assms RoutingTable_RemoveContact_wf [OF assms(1)] RemoveContact_book show ?thesis
      by (fastforce simp: same_book_def)
  next
    case (T_Pop bi)
    with assms tl rt_wf_queue_update [OF assms(1)] show ?thesis
      by (auto simp: pop_replacement_def split: list.splits)
  next
    case (T_Readd bi c)
    with assms RoutingTable_AddContact_wf [OF assms(1)] AddContact_book show ?thesis
      by (fastforce simp: same_book_def)
  next
    case (T_Promote bi c)
    with assms promote_target_ok [OF assms(1), of bi c] promote_book show ?thesis
      by (fastforce simp: same_book_def)
  next
    case (T_Clear bi)
    have "gm_wf (inFlight rt)" using assms(1) by (simp add: rt_wf_def)
    with T_Clear assms show ?thesis by (auto simp: clear_inFlight_def gm.invar_del rt_wf_inFlight)
  qed (use assms in auto)
  then show "rt_wf rt'" "me rt' = me rt" "\<forall>u \<in># mset_opt t'. task_ok (cid (me rt)) u"
    by auto
qed

lemma task_step_books:
  assumes "rt_wf rt" and "task_ok (cid (me rt)) t" and "task_step f rt t = Some (rt', t')"
    and "\<And>bi. probe_bucket t = Some bi \<Longrightarrow> is_inFlight rt bi"
  shows "of_bool (is_inFlight rt' bi) + of_bool (probe_bucket t = Some bi) =
      of_bool (is_inFlight rt bi) + probes_on bi (mset_opt t')"
    and "is_probe t \<longrightarrow> evictWg rt \<noteq> 0 \<Longrightarrow>
      evictWg rt' + of_bool (is_probe t) = evictWg rt + probes (mset_opt t')"
proof -
  have keep: "is_inFlight rt' bi = is_inFlight rt bi \<and> evictWg rt' = evictWg rt" if "same_book rt rt'" for bi
    using that same_book_inFlight [OF that] by (simp add: same_book_def)
  have *: "of_bool (is_inFlight rt' bi) + of_bool (probe_bucket t = Some bi) =
      of_bool (is_inFlight rt bi) + probes_on bi (mset_opt t') \<and>
    ((is_probe t \<longrightarrow> evictWg rt \<noteq> 0) \<longrightarrow>
      evictWg rt' + of_bool (is_probe t) = evictWg rt + probes (mset_opt t'))"
  proof (cases t)
    case (T_Queue c b oldest)
    obtain rt1 l where u: "UpdateWithPing_queue rt c b = (rt1, l)" by force
    have "in_place (cid (me rt)) b c" using assms(2) T_Queue by simp
    note ok = UpdateWithPing_queue_ok(3-5) [OF assms(1) this u]
    have "rt' = rt1" "t' = (if l then Some (T_Ping b oldest) else None)"
      using assms(3) T_Queue u by auto
    with ok(1,3) ok(2) [of bi] T_Queue show ?thesis by auto
  next
    case (T_Remove b c)
    with assms(3) RemoveContact_book keep show ?thesis by fastforce
  next
    case (T_Pop b)
    with assms(3) have "same_book rt rt'" using pop_book [of rt b] by (auto split: prod.splits)
    with T_Pop assms(3) keep show ?thesis by (auto split: prod.splits option.splits)
  next
    case (T_Readd b c)
    with assms(3) AddContact_book keep show ?thesis by fastforce
  next
    case (T_Promote b c)
    with assms(3) promote_book keep show ?thesis by fastforce
  next
    case (T_Clear b)
    have "gm_wf (inFlight rt)" using assms(1) by (simp add: rt_wf_def)
    with T_Clear assms(3) assms(4) [of b] show ?thesis
      by (auto simp: clear_inFlight_def is_inFlight_def)
  qed (use assms(3) in \<open>auto simp: is_inFlight_def\<close>)
  then show "of_bool (is_inFlight rt' bi) + of_bool (probe_bucket t = Some bi) =
      of_bool (is_inFlight rt bi) + probes_on bi (mset_opt t')" by simp
  show "evictWg rt' + of_bool (is_probe t) = evictWg rt + probes (mset_opt t')"
    if "is_probe t \<longrightarrow> evictWg rt \<noteq> 0" using * that by simp
qed

lemma evict_inv_task:
  assumes inv: "evict_inv m s" and t: "t \<in># tasks s"
    and st: "task_step f (tbl s) t = Some (rt, t')"
  shows "evict_inv m (s\<lparr>tbl := rt, tasks := tasks s - {#t#} + mset_opt t'\<rparr>)"
proof -
  obtain ts where ts: "tasks s = add_mset t ts" using t by (metis mset_add)
  have split: "tasks s = {#t#} + ts" using ts by simp
  have wf: "rt_wf (tbl s)" and m: "cid (me (tbl s)) = m" and ok: "task_ok m t"
    and on: "\<And>bi. probes_on bi (tasks s) = of_bool (is_inFlight (tbl s) bi)"
    and wg: "evictWg (tbl s) = probes (tasks s)"
    using inv t by (auto simp: evict_inv_def)
  have on': "of_bool (probe_bucket t = Some bi) + probes_on bi ts = of_bool (is_inFlight (tbl s) bi)"
    for bi using on [of bi] unfolding split by simp
  have wg': "evictWg (tbl s) = of_bool (is_probe t) + probes ts" using wg unfolding split by simp
  have fl: "is_inFlight (tbl s) bi" if "probe_bucket t = Some bi" for bi
    using on' [of bi] that by (cases "is_inFlight (tbl s) bi") auto
  have ok': "task_ok (cid (me (tbl s))) t" using ok m by simp
  note books = task_step_books [OF wf ok' st fl]
  have "probes_on bi ts + probes_on bi (mset_opt t') = of_bool (is_inFlight rt bi)" for bi
    using books(1) [of bi] on' [of bi] by linarith
  moreover have "evictWg rt = probes ts + probes (mset_opt t')"
    using books(2) wg' by (cases "is_probe t") auto
  ultimately show ?thesis
    using inv task_step_ok [OF wf ok' st] m ts by (auto simp: evict_inv_def)
qed

lemma evict_inv_step: "evict_step s s' \<Longrightarrow> evict_inv m s \<Longrightarrow> evict_inv m s'"
proof (induction rule: evict_step.induct)
  case (add s c rt)
  then show ?case
    using AddContact_book RoutingTable_AddContact_wf
    by (intro evict_inv_same_book) (auto simp: evict_inv_def)
next
  case (remove s c rt r)
  then show ?case
    using RemoveContact_book RoutingTable_RemoveContact_wf
    by (intro evict_inv_same_book) (auto simp: evict_inv_def)
next
  case (update s c p rt r)
  have wf: "rt_wf (tbl s)" "cid (me (tbl s)) = m" using update(2) by (simp_all add: evict_inv_def)
  from UpdateWithPing_table_ok [OF wf(1), of c p] update(1)
  have rt: "rt_wf rt" "same_book (tbl s) rt"
    and r: "\<And>bi oldest. r = Some (bi, oldest) \<Longrightarrow> in_place m bi c \<and> in_place m bi oldest"
    using wf(2) by auto
  from evict_inv_same_book [OF update(2) rt] r show ?case
    by (cases r) (auto simp: evict_inv_def)
next
  case (task t s f rt t')
  then show ?case by (intro evict_inv_task)
qed

lemma evict_reachable_inv: "evict_reachable m s \<Longrightarrow> ID m \<noteq> None \<Longrightarrow> evict_inv (cid m) s"
  by (induction rule: evict_reachable.induct) (auto intro: evict_inv_start evict_inv_step)

section \<open>Progress\<close>

text \<open>How many sections a task has left: an upper bound that every step lowers.\<close>

fun task_rank :: "task \<Rightarrow> nat" where
  "task_rank (T_Queue c bi oldest) = 7"
| "task_rank (T_Ping bi c) = 6"
| "task_rank (T_Remove bi c) = 5"
| "task_rank (T_Pop bi) = 4"
| "task_rank (T_Readd bi c) = 3"
| "task_rank (T_Promote bi c) = 3"
| "task_rank (T_Clear bi) = 2"
| "task_rank T_Done = 1"

lemma task_step_rank:
  "task_step f rt t = Some (rt', t') \<Longrightarrow> sum_mset (image_mset task_rank (mset_opt t')) < task_rank t"
  by (cases t) (auto split: prod.splits option.splits)

lemma task_step_no_panic [panic_free]:
  assumes "rt_wf rt" and "task_ok (cid (me rt)) t"
  shows "\<exists>rt' t'. task_step f rt t = Some (rt', t')"
proof (cases t)
  case (T_Promote bi c)
  with assms promote_target_ok [OF assms(1), of bi c] show ?thesis by auto
qed (use assms RoutingTable_AddContact_no_panic [OF assms(1)]
    RoutingTable_RemoveContact_no_panic [OF assms(1)] in \<open>auto simp: split_def Let_def\<close>)

text \<open>What the running tasks have left to do.\<close>

definition task_work :: "task multiset \<Rightarrow> nat" where
  "task_work ts = sum_mset (image_mset task_rank ts)"

lemma task_work_step:
  assumes "t \<in># ts" and "task_step f rt t = Some (rt', t')"
  shows "task_work (ts - {#t#} + mset_opt t') < task_work ts"
proof -
  obtain us where "ts = add_mset t us" using assms(1) by (metis mset_add)
  with task_step_rank [OF assms(2)] show ?thesis by (simp add: task_work_def)
qed

lemma evict_inv_no_panic:
  "evict_inv m s \<Longrightarrow> t \<in># tasks s \<Longrightarrow> \<exists>rt t'. task_step f (tbl s) t = Some (rt, t')"
  by (rule task_step_no_panic) (auto simp: evict_inv_def)

lemma evict_inv_drains:
  "evict_inv m s \<Longrightarrow> \<exists>s'. evict_step\<^sup>*\<^sup>* s s' \<and> evict_inv m s' \<and> tasks s' = {#}"
proof (induction "task_work (tasks s)" arbitrary: s rule: less_induct)
  case less
  show ?case
  proof (cases "tasks s = {#}")
    case False
    then obtain t where t: "t \<in># tasks s" by blast
    obtain rt t' where st: "task_step True (tbl s) t = Some (rt, t')"
      using evict_inv_no_panic [OF less.prems t] by blast
    let ?s1 = "s\<lparr>tbl := rt, tasks := tasks s - {#t#} + mset_opt t'\<rparr>"
    have "\<exists>s'. evict_step\<^sup>*\<^sup>* ?s1 s' \<and> evict_inv m s' \<and> tasks s' = {#}"
      using less.hyps [of ?s1] task_work_step [OF t st] evict_inv_task [OF less.prems t st] by simp
    with evict_step.task [OF t st] show ?thesis
      by (meson converse_rtranclp_into_rtranclp)
  qed (use less.prems in blast)
qed

section \<open>Bounds of a well-formed table\<close>

lemma length_concat_bound:
  "(\<And>xs. xs \<in> set xss \<Longrightarrow> length xs \<le> n) \<Longrightarrow> length (concat xss) \<le> length xss * n"
  by (induction xss) (auto simp: add_mono)

lemma GetAllContacts_bound:
  assumes "rt_wf rt"
  shows "length (GetAllContacts rt) \<le> numBuckets * bucketSize"
proof -
  have "length b \<le> bucketSize" if "b \<in> set (buckets rt)" for b
    using that rt_wfD(2,3) [OF assms] by (auto simp: in_set_conv_nth bucket_wf_def)
  then show ?thesis
    using length_concat_bound [of "buckets rt" bucketSize] rt_wfD(2) [OF assms]
    by (simp add: GetAllContacts_def)
qed

section \<open>A full bucket\<close>

text \<open>Ten contacts in bucket 0 of the node 0, the first added at the tail.\<close>

definition full_rt :: RoutingTable where
  "full_rt = the (fill_table (peer []) (map (\<lambda>i. peer [0x80, i]) [1, 2, 3, 4, 5, 6, 7, 8, 9, 10]))"

lemma fill_table_reachable:
  "fill_table m cs = Some rt \<Longrightarrow> evict_reachable m \<lparr>tbl = rt, tasks = {#}\<rparr>"
proof (induction cs arbitrary: rt rule: rev_induct)
  case Nil
  then show ?case by (auto simp: fill_table_def intro: evict_reachable.start)
next
  case (snoc c cs)
  then obtain rt1 where 1: "fill_table m cs = Some rt1" "RoutingTable_AddContact rt1 c = Some rt"
    by (auto simp: fill_table_def bind_eq_Some_conv)
  then have "evict_step \<lparr>tbl = rt1, tasks = {#}\<rparr> (\<lparr>tbl = rt1, tasks = {#}\<rparr>\<lparr>tbl := rt\<rparr>)"
    by (intro evict_step.add) simp
  with snoc.IH [OF 1(1)] show ?case by (auto intro: evict_reachable.step)
qed

lemma full_rt_fill:
  "fill_table (peer []) (map (\<lambda>i. peer [0x80, i]) [1, 2, 3, 4, 5, 6, 7, 8, 9, 10]) = Some full_rt"
proof -
  have "fill_table (peer []) (map (\<lambda>i. peer [0x80, i]) [1, 2, 3, 4, 5, 6, 7, 8, 9, 10]) \<noteq> None"
    by code_simp
  then show ?thesis by (simp add: full_rt_def)
qed

text \<open>The table after an eleventh contact: its call stands between its two sections.\<close>

definition full_sys :: evict_sys where
  "full_sys = \<lparr>tbl = full_rt, tasks = {#T_Queue (peer [0x80, 11]) 0 (peer [0x80, 1])#}\<rparr>"

lemma peer_ID [simp]: "ID (peer bs) = Some (mk_id bs)"
  by (simp add: peer_def NewContact_def)

lemma full_sys_reachable: "evict_reachable (peer []) full_sys"
proof -
  have "UpdateWithPing_table full_rt (peer [0x80, 11]) True = Some (full_rt, Some (0, peer [0x80, 1]))"
    by code_simp
  then have "evict_step \<lparr>tbl = full_rt, tasks = {#}\<rparr> full_sys"
    using evict_step.update [of "\<lparr>tbl = full_rt, tasks = {#}\<rparr>" "peer [0x80, 11]" True]
    by (auto simp: full_sys_def)
  with fill_table_reachable [OF full_rt_fill] show ?thesis by (rule evict_reachable.step)
qed

section \<open>One eviction without interleaving\<close>

lemma run_task:
  assumes "task_step f rt t = Some (rt1, t1)"
    and "evict_step\<^sup>*\<^sup>* \<lparr>tbl = rt1, tasks = mset_opt t1 + ts\<rparr> s'"
  shows "evict_step\<^sup>*\<^sup>* \<lparr>tbl = rt, tasks = add_mset t ts\<rparr> s'"
proof -
  have "evict_step \<lparr>tbl = rt, tasks = add_mset t ts\<rparr> \<lparr>tbl = rt1, tasks = mset_opt t1 + ts\<rparr>"
    using evict_step.task [of t "\<lparr>tbl = rt, tasks = add_mset t ts\<rparr>" f rt1 t1] assms(1)
    by (simp add: add.commute)
  with assms(2) show ?thesis by (rule converse_rtranclp_into_rtranclp [rotated])
qed

text \<open>The goroutine body is what its sections do when nothing runs in between.\<close>

lemma run_clear:
  assumes "rt' = (clear_inFlight rt bi)\<lparr>evictWg := evictWg rt - 1\<rparr>"
  shows "evict_step\<^sup>*\<^sup>* \<lparr>tbl = rt, tasks = add_mset (T_Clear bi) ts\<rparr> \<lparr>tbl = rt', tasks = ts\<rparr>"
proof -
  have "task_step True (clear_inFlight rt bi) T_Done = Some (rt', None)"
    using assms by (simp add: clear_inFlight_def)
  then have "evict_step\<^sup>*\<^sup>* \<lparr>tbl = clear_inFlight rt bi, tasks = add_mset T_Done ts\<rparr>
    \<lparr>tbl = rt', tasks = ts\<rparr>"
    by (rule run_task) simp
  then show ?thesis
    using run_task [of True rt "T_Clear bi" "clear_inFlight rt bi" "Some T_Done"] by simp
qed

lemma eviction_probe_runs:
  assumes "eviction_probe rt bi target f = Some rt'"
  shows "evict_step\<^sup>*\<^sup>* \<lparr>tbl = rt, tasks = add_mset (T_Ping bi target) ts\<rparr> \<lparr>tbl = rt', tasks = ts\<rparr>"
    (is "evict_step\<^sup>*\<^sup>* _ ?end")
proof (cases f)
  case True
  with assms obtain ra r where ra: "RoutingTable_RemoveContact rt target = Some (ra, r)"
    by (auto simp: eviction_probe_def bind_eq_Some_conv)
  obtain rb repl where rb: "pop_replacement ra bi = (rb, repl)" by force
  obtain rc where rc: "(case repl of None \<Rightarrow> Some rb | Some c \<Rightarrow> RoutingTable_AddContact rb c) = Some rc"
    and rt': "rt' = (clear_inFlight rc bi)\<lparr>evictWg := evictWg rc - 1\<rparr>"
    using assms True ra rb by (auto simp: eviction_probe_def bind_eq_Some_conv)
  note clear = run_clear [OF rt', of ts]
  have "evict_step\<^sup>*\<^sup>* \<lparr>tbl = ra, tasks = add_mset (T_Pop bi) ts\<rparr> ?end"
  proof (cases repl)
    case None
    with rb rc clear show ?thesis
      using run_task [of True ra "T_Pop bi" rb "Some (T_Clear bi)"] by simp
  next
    case (Some c)
    with rc clear have "evict_step\<^sup>*\<^sup>* \<lparr>tbl = rb, tasks = add_mset (T_Readd bi c) ts\<rparr> ?end"
      using run_task [of True rb "T_Readd bi c" rc "Some (T_Clear bi)"] by simp
    with Some rb show ?thesis
      using run_task [of True ra "T_Pop bi" rb "Some (T_Readd bi c)"] by simp
  qed
  with ra have "evict_step\<^sup>*\<^sup>* \<lparr>tbl = rt, tasks = add_mset (T_Remove bi target) ts\<rparr> ?end"
    using run_task [of True rt "T_Remove bi target" ra "Some (T_Pop bi)"] by simp
  then show ?thesis
    using run_task [of True rt "T_Ping bi target" rt "Some (T_Remove bi target)"] by simp
next
  case False
  with assms obtain rc where rc: "promote_target rt bi target = Some rc"
    and rt': "rt' = (clear_inFlight rc bi)\<lparr>evictWg := evictWg rc - 1\<rparr>"
    by (auto simp: eviction_probe_def bind_eq_Some_conv)
  with run_clear [OF rt', of ts]
  have "evict_step\<^sup>*\<^sup>* \<lparr>tbl = rt, tasks = add_mset (T_Promote bi target) ts\<rparr> ?end"
    using run_task [of False rt "T_Promote bi target" rc "Some (T_Clear bi)"] by simp
  then show ?thesis
    using run_task [of False rt "T_Ping bi target" rt "Some (T_Promote bi target)"] by simp
qed

text \<open>A call on a full bucket with no probe running launches one on the oldest contact.\<close>

lemma UpdateWithPing_full:
  assumes wf: "rt_wf rt" and c: "ID c = Some k" "k \<noteq> cid (me rt)"
    and bi: "bi = bucket_index (cid (me rt)) k"
    and full: "length (buckets rt ! bi) = bucketSize" and new: "k \<notin> cid ` set (buckets rt ! bi)"
    and idle: "\<not> is_inFlight rt bi"
  shows "\<exists>rt1. UpdateWithPing rt c True = Some (rt1, Some (bi, last (buckets rt ! bi))) \<and>
     rt_wf rt1 \<and> me rt1 = me rt \<and> buckets rt1 = buckets rt \<and>
     queue_of rt1 bi = enqueue_replacement (queue_of rt bi) c \<and> evictWg rt1 = Suc (evictWg rt)"
proof -
  have w: "bucket_wf (buckets rt ! bi)" using wf bi by (simp add: rt_wfD)
  have add: "bucket_AddContact (buckets rt ! bi) c = Some (buckets rt ! bi, False)"
    using bucket_AddContact_new [OF w c(1) new] full by simp
  have self: "Equals_ptr (Some k) (ID (me rt)) = Some False"
    using c(2) rt_wfD(1) [OF wf] by (auto simp: Equals_ptr_def)
  have "buckets rt ! bi \<noteq> []" using full by (auto simp: bucketSize_def)
  with add self wf c bi have t: "UpdateWithPing_table rt c True = Some (rt, Some (bi, last (buckets rt ! bi)))"
    using rt_wfD(1) [OF wf] by (auto simp: UpdateWithPing_table_def bucket_GetOldestContact_def)
  obtain rt1 l where u: "UpdateWithPing_queue rt c bi = (rt1, l)" by force
  have pl: "in_place (cid (me rt)) bi c" using c bi by (simp add: in_place_def)
  note ok = UpdateWithPing_queue_ok [OF wf pl u]
  have "buckets rt1 = buckets rt" "queue_of rt1 bi = enqueue_replacement (queue_of rt bi) c"
    using u by (auto simp: UpdateWithPing_queue_def Let_def queue_of_def enqueue_replacement_def
        split: if_splits)
  with t u ok idle show ?thesis by (simp add: UpdateWithPing_def)
qed

lemma bucket_last_unique:
  assumes "bucket_wf b" and "b \<noteq> []"
  shows "filter (\<lambda>e. cid e \<noteq> cid (last b)) b = butlast b"
proof -
  have "distinct (map cid (butlast b @ [last b]))" using assms by (simp add: bucket_wf_def)
  then have "cid (last b) \<notin> cid ` set (butlast b)" by simp
  then have "\<forall>e \<in> set (butlast b). cid e \<noteq> cid (last b)"
    by (metis image_eqI)
  then have "filter (\<lambda>e. cid e \<noteq> cid (last b)) (butlast b @ [last b]) = butlast b"
    by (simp add: filter_id_conv)
  with assms(2) show ?thesis by simp
qed

lemma eviction_probe_dead:
  assumes wf: "rt_wf rt" and bi: "bi < numBuckets"
    and full: "length (buckets rt ! bi) = bucketSize"
    and q: "queue_of rt bi = repl # rest" and new: "cid repl \<notin> cid ` set (buckets rt ! bi)"
  shows "\<exists>rt'. eviction_probe rt bi (last (buckets rt ! bi)) True = Some rt' \<and>
    buckets rt' = (buckets rt)[bi := repl # butlast (buckets rt ! bi)] \<and> queue_of rt' bi = rest \<and>
    \<not> is_inFlight rt' bi \<and> evictWg rt' = evictWg rt - 1"
proof -
  let ?b = "buckets rt ! bi"
  have w: "bucket_wf ?b" and len: "length (buckets rt) = numBuckets" using wf bi by (simp_all add: rt_wfD)
  have ne: "?b \<noteq> []" using full by (auto simp: bucketSize_def)
  have old: "ID (last ?b) = Some (cid (last ?b))" "bucket_index (cid (me rt)) (cid (last ?b)) = bi"
    using rt_wfD(4) [OF wf bi, of "last ?b"] ne by auto
  let ?ra = "rt\<lparr>buckets := (buckets rt)[bi := butlast ?b]\<rparr>"
  have ra: "RoutingTable_RemoveContact rt (last ?b) = Some (?ra, True)"
    using RoutingTable_RemoveContact_eq [OF wf old(1)] old(2) bucket_last_unique [OF w ne] ne by simp
  let ?rb = "?ra\<lparr>replacements := gm_set bi rest (replacements rt)\<rparr>"
  have rb: "pop_replacement ?ra bi = (?rb, Some repl)"
    using q by (simp add: pop_replacement_def queue_of_def)
  have "queue_wf (cid (me rt)) bi (queue_of rt bi)" using wf by (simp add: rt_wf_def)
  then have r: "ID repl = Some (cid repl)" "bucket_index (cid (me rt)) (cid repl) = bi"
    using q by (auto simp: queue_wf_def)
  have "bucket_wf (butlast ?b)" using bucket_filter_wf [OF w] bucket_last_unique [OF w ne] by metis
  then have "bucket_AddContact (butlast ?b) repl = Some (repl # butlast ?b, True)"
    using bucket_AddContact_new [of "butlast ?b" repl] r(1) new full
    by (auto dest: in_set_butlastD simp: bucketSize_def)
  then have "RoutingTable_AddContact ?rb repl = Some (?rb\<lparr>buckets := (buckets rt)[bi := repl # butlast ?b]\<rparr>)"
    using r wf len bi by (auto simp: RoutingTable_AddContact_def GetBucketIndex_def rt_wf_def)
  with ra rb wf show ?thesis
    by (auto simp: eviction_probe_def clear_inFlight_def is_inFlight_def queue_of_def rt_wf_def)
qed

lemma eviction_probe_alive:
  assumes wf: "rt_wf rt" and bi: "bi < numBuckets" and ne: "buckets rt ! bi \<noteq> []"
  shows "\<exists>rt'. eviction_probe rt bi (last (buckets rt ! bi)) False = Some rt' \<and>
    buckets rt' = (buckets rt)[bi := last (buckets rt ! bi) # butlast (buckets rt ! bi)] \<and>
    queue_of rt' bi = queue_of rt bi \<and> \<not> is_inFlight rt' bi \<and> evictWg rt' = evictWg rt - 1"
proof -
  let ?b = "buckets rt ! bi"
  have w: "bucket_wf (butlast ?b @ last ?b # [])" using wf bi ne by (simp add: rt_wfD)
  have "ID (last ?b) = Some (cid (last ?b))" using rt_wfD(4) [OF wf bi, of "last ?b"] ne by auto
  then have "bucket_AddContact ?b (last ?b) = Some (last ?b # butlast ?b, True)"
    using bucket_AddContact_known [OF w] ne by simp
  then show ?thesis
    using wf by (auto simp: eviction_probe_def promote_target_def clear_inFlight_def is_inFlight_def
        queue_of_def rt_wf_def)
qed

section \<open>Properties\<close>

text \<open>
  C20. In every reachable state each bucket holds at most ten contacts, all of them in the bucket
  their identifier belongs to, no identifier is held twice in the table, the table holds at most
  2560 contacts and every replacement queue at most ten candidates; and a bucket has one probe running if
  it is marked in flight and none otherwise, and the wait group counts exactly the goroutines that still run.
\<close>

theorem evict_reachable_bounded:
  assumes "evict_reachable m s" and "ID m \<noteq> None"
  shows "list_all (\<lambda>i. length (buckets (tbl s) ! i) \<le> bucketSize \<and>
        list_all (\<lambda>c. GetBucketIndex (tbl s) (ID c) = Some i) (buckets (tbl s) ! i)) [0..<numBuckets] \<and>
    distinct (map ID (GetAllContacts (tbl s))) \<and> length (GetAllContacts (tbl s)) \<le> 2560 \<and>
    length (queue_of (tbl s) bi) \<le> 10 \<and>
    probes_on bi (tasks s) = of_bool (is_inFlight (tbl s) bi) \<and> evictWg (tbl s) = probes (tasks s)"
proof -
  have wf: "rt_wf (tbl s)" and books: "probes_on bi (tasks s) = of_bool (is_inFlight (tbl s) bi)"
    "evictWg (tbl s) = probes (tasks s)" using evict_reachable_inv [OF assms] by (simp_all add: evict_inv_def)
  have "GetBucketIndex (tbl s) (ID c) = Some i" if "i < numBuckets" "c \<in> set (buckets (tbl s) ! i)" for i c
    using rt_wfD(4) [OF wf that] wf by auto
  moreover have "length (buckets (tbl s) ! i) \<le> bucketSize" if "i < numBuckets" for i
    using rt_wfD(3) [OF wf that] by (simp add: bucket_wf_def)
  moreover have "distinct (map ID (GetAllContacts (tbl s)))"
    using distinct_all_ids [OF wf] by (auto simp: distinct_map inj_on_def)
  moreover have "length (queue_of (tbl s) bi) \<le> 10"
    using wf by (simp add: rt_wf_def queue_wf_def replacementCacheSize_def)
  ultimately show ?thesis
    using GetAllContacts_bound [OF wf] books by (simp add: list_all_iff numBuckets_def bucketSize_def IDLength_def)
qed

theorem evict_reachable_bounded_witness:
  "length (queue_of (tbl full_sys) 0) \<le> 10 \<and> length (GetAllContacts (tbl full_sys)) \<le> 2560 \<and>
   probes_on 0 (tasks full_sys) = of_bool (is_inFlight (tbl full_sys) 0)"
  using evict_reachable_bounded [OF full_sys_reachable, of 0] by simp

text \<open>
  C21. No eviction task ever panics or blocks: in every reachable state each running task can take
  its next step, whatever its ping answers, and every such step lowers the work that is left.  So
  the running tasks can always be finished, after which no bucket is in flight and the wait group
  is at zero.
\<close>

theorem evict_progress:
  assumes "evict_reachable m s" and "ID m \<noteq> None"
  shows "(\<forall>t \<in># tasks s. \<exists>rt t'. task_step ping_failed (tbl s) t = Some (rt, t') \<and>
        task_work (tasks s - {#t#} + mset_opt t') < task_work (tasks s)) \<and>
    (\<exists>s'. evict_step\<^sup>*\<^sup>* s s' \<and> tasks s' = {#} \<and> evictWg (tbl s') = 0 \<and>
        \<not> is_inFlight (tbl s') bi)"
proof -
  note inv = evict_reachable_inv [OF assms]
  obtain s' where s': "evict_step\<^sup>*\<^sup>* s s'" "evict_inv (cid m) s'" "tasks s' = {#}"
    using evict_inv_drains [OF inv] by blast
  then have "evictWg (tbl s') = 0" "\<not> is_inFlight (tbl s') bi" by (auto simp: evict_inv_def)
  with s' show ?thesis
    using evict_inv_no_panic [OF inv] task_work_step by blast
qed

theorem evict_progress_witness:
  "\<exists>s'. evict_step\<^sup>*\<^sup>* full_sys s' \<and> tasks s' = {#} \<and> evictWg (tbl s') = 0 \<and> \<not> is_inFlight (tbl s') 0"
  using evict_progress [OF full_sys_reachable, of True 0] by simp

lemma evict_dead_oldest:
  assumes "rt_wf rt" and "ID c = Some k" and "k \<noteq> cid (me rt)"
    and "bi = bucket_index (cid (me rt)) k"
    and "length (buckets rt ! bi) = bucketSize" and "k \<notin> cid ` set (buckets rt ! bi)"
    and "\<not> is_inFlight rt bi"
    and "enqueue_replacement (queue_of rt bi) c = repl # rest"
    and "cid repl \<notin> cid ` set (buckets rt ! bi)"
  shows "\<exists>rt1 rt2. UpdateWithPing rt c True = Some (rt1, Some (bi, last (buckets rt ! bi))) \<and>
    eviction_probe rt1 bi (last (buckets rt ! bi)) True = Some rt2 \<and>
    buckets rt2 = (buckets rt)[bi := repl # butlast (buckets rt ! bi)] \<and>
    queue_of rt2 bi = rest \<and> \<not> is_inFlight rt2 bi \<and> evictWg rt2 = evictWg rt"
proof -
  obtain rt1 where 1: "UpdateWithPing rt c True = Some (rt1, Some (bi, last (buckets rt ! bi)))"
    "rt_wf rt1" "buckets rt1 = buckets rt" "queue_of rt1 bi = repl # rest"
    "evictWg rt1 = Suc (evictWg rt)"
    using UpdateWithPing_full [OF assms(1-7)] assms(8) by auto
  have "bi < numBuckets" using assms(4) by simp
  from eviction_probe_dead [OF 1(2) this, of repl rest] 1 assms(5,9) show ?thesis by simp
qed

lemma evict_alive_oldest:
  assumes "rt_wf rt" and "ID c = Some k" and "k \<noteq> cid (me rt)"
    and "bi = bucket_index (cid (me rt)) k"
    and "length (buckets rt ! bi) = bucketSize" and "k \<notin> cid ` set (buckets rt ! bi)"
    and "\<not> is_inFlight rt bi"
  shows "\<exists>rt1 rt2. UpdateWithPing rt c True = Some (rt1, Some (bi, last (buckets rt ! bi))) \<and>
    eviction_probe rt1 bi (last (buckets rt ! bi)) False = Some rt2 \<and>
    buckets rt2 = (buckets rt)[bi := last (buckets rt ! bi) # butlast (buckets rt ! bi)] \<and>
    queue_of rt2 bi = enqueue_replacement (queue_of rt bi) c \<and> k \<in> cid ` set (queue_of rt2 bi) \<and>
    \<not> is_inFlight rt2 bi \<and> evictWg rt2 = evictWg rt"
proof -
  obtain rt1 where 1: "UpdateWithPing rt c True = Some (rt1, Some (bi, last (buckets rt ! bi)))"
    "rt_wf rt1" "buckets rt1 = buckets rt" "queue_of rt1 bi = enqueue_replacement (queue_of rt bi) c"
    "evictWg rt1 = Suc (evictWg rt)"
    using UpdateWithPing_full [OF assms(1-7)] by auto
  have "queue_wf (cid (me rt)) bi (queue_of rt bi)" using assms(1) by (simp add: rt_wf_def)
  then have "in_cache c (queue_of rt bi) \<longleftrightarrow> k \<in> cid ` set (queue_of rt bi)"
    by (intro in_cache_iff [OF _ assms(2)]) (auto simp: queue_wf_def list_all_iff)
  then have q: "k \<in> cid ` set (enqueue_replacement (queue_of rt bi) c)"
    using assms(2) by (auto simp: enqueue_replacement_def)
  have "bi < numBuckets" "buckets rt ! bi \<noteq> []" using assms(4,5) by (auto simp: bucketSize_def)
  from eviction_probe_alive [OF 1(2) this(1)] this(2) 1 q show ?thesis by auto
qed

text \<open>
  C22. A new contact for a full bucket.  When the oldest contact is dead, the bucket loses exactly that contact and gains, at
  its head, the candidate that waited longest (the new contact itself when none waited), which leaves the
  queue.  When it is alive, no contact is lost: it moves to the head of its bucket, and the new contact stays queued
  for a later eviction.  Either way the probe leaves no trace in the books.
\<close>

theorem evict_full_bucket:
  assumes "rt_wf rt" and "ID c = Some k" and "k \<noteq> cid (me rt)"
    and "bi = bucket_index (cid (me rt)) k"
    and "length (buckets rt ! bi) = bucketSize" and "k \<notin> cid ` set (buckets rt ! bi)"
    and "\<not> is_inFlight rt bi"
    and "enqueue_replacement (queue_of rt bi) c = repl # rest"
    and "cid repl \<notin> cid ` set (buckets rt ! bi)"
  shows "\<exists>rt1 rt2 rt3. UpdateWithPing rt c True = Some (rt1, Some (bi, last (buckets rt ! bi))) \<and>
    eviction_probe rt1 bi (last (buckets rt ! bi)) True = Some rt2 \<and>
    buckets rt2 = (buckets rt)[bi := repl # butlast (buckets rt ! bi)] \<and>
    queue_of rt2 bi = rest \<and> \<not> is_inFlight rt2 bi \<and> evictWg rt2 = evictWg rt \<and>
    eviction_probe rt1 bi (last (buckets rt ! bi)) False = Some rt3 \<and>
    buckets rt3 = (buckets rt)[bi := last (buckets rt ! bi) # butlast (buckets rt ! bi)] \<and>
    queue_of rt3 bi = repl # rest \<and> k \<in> cid ` set (queue_of rt3 bi) \<and>
    \<not> is_inFlight rt3 bi \<and> evictWg rt3 = evictWg rt"
proof -
  obtain rt1 rt2 where 1: "UpdateWithPing rt c True = Some (rt1, Some (bi, last (buckets rt ! bi)))"
    "eviction_probe rt1 bi (last (buckets rt ! bi)) True = Some rt2"
    "buckets rt2 = (buckets rt)[bi := repl # butlast (buckets rt ! bi)]"
    "queue_of rt2 bi = rest" "\<not> is_inFlight rt2 bi" "evictWg rt2 = evictWg rt"
    using evict_dead_oldest [OF assms] by blast
  obtain rt3 where 3: "eviction_probe rt1 bi (last (buckets rt ! bi)) False = Some rt3"
    "buckets rt3 = (buckets rt)[bi := last (buckets rt ! bi) # butlast (buckets rt ! bi)]"
    "queue_of rt3 bi = repl # rest" "k \<in> cid ` set (queue_of rt3 bi)" "\<not> is_inFlight rt3 bi" "evictWg rt3 = evictWg rt"
    using evict_alive_oldest [OF assms(1-7)] 1(1) assms(8) by auto
  from 1 3 show ?thesis by blast
qed

theorem evict_full_bucket_witness:
  "\<exists>rt1 rt2 rt3. UpdateWithPing full_rt (peer [0x80, 11]) True = Some (rt1, Some (0, peer [0x80, 1])) \<and>
    eviction_probe rt1 0 (peer [0x80, 1]) True = Some rt2 \<and>
    hd (buckets rt2 ! 0) = peer [0x80, 11] \<and> queue_of rt2 0 = [] \<and>
    eviction_probe rt1 0 (peer [0x80, 1]) False = Some rt3 \<and> hd (buckets rt3 ! 0) = peer [0x80, 1]"
proof -
  have wf: "rt_wf full_rt" by (rule fill_table_wf [OF _ full_rt_fill]) simp
  have bi: "0 = bucket_index (cid (me full_rt)) (mk_id [0x80, 11])"
    and ids: "mk_id [0x80, 11] \<noteq> cid (me full_rt)"
      "mk_id [0x80, 11] \<notin> cid ` set (buckets full_rt ! 0)"
    and st: "length (buckets full_rt ! 0) = bucketSize" "\<not> is_inFlight full_rt 0"
      "enqueue_replacement (queue_of full_rt 0) (peer [0x80, 11]) = [peer [0x80, 11]]"
    and l: "last (buckets full_rt ! 0) = peer [0x80, 1]"
    by code_simp+
  have n: "0 < length (buckets full_rt)" using rt_wfD(2) [OF wf] by (simp add: numBuckets_def IDLength_def)
  have c: "cid (peer [0x80, 11]) \<notin> cid ` set (buckets full_rt ! 0)" using ids(2) by simp
  obtain rt1 rt2 rt3 where r: "UpdateWithPing full_rt (peer [0x80, 11]) True = Some (rt1, Some (0, peer [0x80, 1]))"
    "eviction_probe rt1 0 (peer [0x80, 1]) True = Some rt2" "buckets rt2 = (buckets full_rt)[0 := peer [0x80, 11] # butlast (buckets full_rt ! 0)]"
    "queue_of rt2 0 = []" "eviction_probe rt1 0 (peer [0x80, 1]) False = Some rt3"
    "buckets rt3 = (buckets full_rt)[0 := peer [0x80, 1] # butlast (buckets full_rt ! 0)]"
    using evict_full_bucket [OF wf peer_ID ids(1) bi st(1) ids(2) st(2,3) c] unfolding l by blast
  then show ?thesis using n by (intro exI [of _ rt1] exI [of _ rt2] exI [of _ rt3]) simp
qed

end
