(* ===== verification/Kad_UDP.thy ===== *)
theory Kad_UDP
  imports Kad_Lookup Kad_Eviction
begin

text \<open>
  \<^verbatim>\<open>UDPNetwork\<close> of \<^verbatim>\<open>src/kademlia/network.go\<close>: requests over UDP, matched to their responses by
  transaction id.  The first part has the functions of the code; the second runs them as the code does,
  one goroutine for every packet and every call, as a step relation on the critical sections.  Sockets
  and JSON are parameters (\<open>udp_env\<close>); the table and the store behind the pointers of the struct are kept
  in the state.  The settings of the store, which this file never changes, are in the environment too.
\<close>

section \<open>The network object\<close>

text \<open>
  \<open>un_conn\<close> is \<^verbatim>\<open>nil\<close>, an open or a closed socket; a channel of \<^verbatim>\<open>pending\<close> is a number.
\<close>

record UDPNetwork =
  un_me :: Contact
  un_rt :: "RoutingTable option"
  un_ds :: "data option"
  un_conn :: "bool option"
  un_pending :: "(uuid, nat) gomap"
  un_timeout :: int

text \<open>
  \<open>ue_resolves\<close>: \<^verbatim>\<open>net.ResolveUDPAddr\<close> accepts the address; \<open>ue_unmarshal\<close>: what \<^verbatim>\<open>json.Unmarshal\<close>
  makes of a packet.
\<close>

record udp_env =
  ue_resolves :: "string \<Rightarrow> bool"
  ue_unmarshal :: "bytes \<Rightarrow> RPCMessage option"
  ue_maxValSize :: int
  ue_resolver :: "DNSResolver option"
  ue_fetcher :: "UDPNetwork RecordFetcher option"

definition NewUDPNetwork :: "Contact \<Rightarrow> RoutingTable option \<Rightarrow> data option \<Rightarrow> UDPNetwork" where
  "NewUDPNetwork self rt ds = \<lparr>un_me = self, un_rt = rt, un_ds = ds, un_conn = None, un_pending = gm_empty,
     un_timeout = 0\<rparr>"

definition SetTimeout :: "UDPNetwork \<Rightarrow> int \<Rightarrow> UDPNetwork" where
  "SetTimeout n d = n\<lparr>un_timeout := d\<rparr>"

text \<open>\<^verbatim>\<open>Listen\<close> after the socket is bound; binding it may fail, which changes nothing.\<close>

definition Listen :: "udp_env \<Rightarrow> bool \<Rightarrow> UDPNetwork \<Rightarrow> string \<Rightarrow> (net_error + unit) \<times> UDPNetwork" where
  "Listen U bound n address =
     (if \<not> ue_resolves U address then (Inl ErrAddress, n)
      else if \<not> bound then (Inl ErrAddress, n)
      else (Inr (), n\<lparr>un_conn := Some True\<rparr>))"

text \<open>\<^verbatim>\<open>Close\<close>; closing a closed socket is an error.\<close>

definition UDPNetwork_Close :: "UDPNetwork \<Rightarrow> (net_error + unit) \<times> UDPNetwork" where
  "UDPNetwork_Close n =
     (case un_conn n of
        None \<Rightarrow> (Inr (), n)
      | Some open_conn \<Rightarrow> (if open_conn then Inr () else Inl ErrClosed, n\<lparr>un_conn := Some False\<rparr>))"

section \<open>Requests\<close>

definition rpc_timeout :: "UDPNetwork \<Rightarrow> int" where
  "rpc_timeout n = (if un_timeout n > 0 then un_timeout n else 1000000000)"

text \<open>
  The calls of the \<^verbatim>\<open>Network\<close> interface.  Each prepares a request, hands it to \<^verbatim>\<open>sendRPC\<close> with an
  address and a timeout, and reads the response.  A call may return an error before it sends;
  \<open>None\<close> is a panic: \<^verbatim>\<open>SendPingMessage\<close> and \<^verbatim>\<open>SendFindContactMessage\<close> read the address of a nil contact.
\<close>

type_synonym prepared = "string \<times> RPCMessage \<times> int"

definition SendPing_request :: "UDPNetwork \<Rightarrow> uuid \<Rightarrow> Contact option \<Rightarrow> (net_error + prepared) option" where
  "SendPing_request n tx contact = do {
     c \<leftarrow> contact;
     Some (Inr (Address c, new_message Ping tx (un_me n), rpc_timeout n))
   }"

definition SendFindContact_request ::
  "UDPNetwork \<Rightarrow> uuid \<Rightarrow> KademliaID option \<Rightarrow> Contact option \<Rightarrow> (net_error + prepared) option" where
  "SendFindContact_request n tx target contact = do {
     c \<leftarrow> contact;
     Some (Inr (Address c, (new_message FindContact tx (un_me n))\<lparr>TargetID := target\<rparr>, rpc_timeout n))
   }"

definition SendFindContact_result :: "net_error + RPCMessage \<Rightarrow> net_error + Contact list" where
  "SendFindContact_result res = map_sum id Contacts res"

definition SendFindData_request ::
  "UDPNetwork \<Rightarrow> uuid \<Rightarrow> KademliaID option \<Rightarrow> Contact option \<Rightarrow> (net_error + prepared) option" where
  "SendFindData_request n tx target contact =
     (case contact of
        None \<Rightarrow> Some (Inl ErrNilContact)
      | Some c \<Rightarrow>
          if ID c = None then Some (Inl ErrNilContact)
          else if target = None then Some (Inl ErrNilTarget)
          else Some (Inr (Address c, (new_message FindData tx (un_me n))\<lparr>TargetID := target\<rparr>, rpc_timeout n)))"

text \<open>The data when there are any, else the contacts.\<close>

definition SendFindData_result :: "net_error + RPCMessage \<Rightarrow> net_error + bytes \<times> Contact list" where
  "SendFindData_result res = map_sum id (\<lambda>m.
     let d = (case Data m of None \<Rightarrow> [] | Some d \<Rightarrow> d) in
     if length d > 0 then (d, []) else ([], Contacts m)) res"

definition SendStore_request ::
  "UDPNetwork \<Rightarrow> uuid \<Rightarrow> Contact option \<Rightarrow> KademliaID option \<Rightarrow> bytes option \<Rightarrow> (net_error + prepared) option" where
  "SendStore_request n tx contact key data =
     (case contact of
        None \<Rightarrow> Some (Inl ErrNilContact)
      | Some c \<Rightarrow>
          if ID c = None then Some (Inl ErrNilContact)
          else if key = None then Some (Inl ErrNilTarget)
          else Some (Inr (Address c, (new_message Store tx (un_me n))\<lparr>TargetID := key, Data := data\<rparr>, rpc_timeout n)))"

definition SendStore_result :: "net_error + RPCMessage \<Rightarrow> net_error + unit" where
  "SendStore_result res = map_sum id (\<lambda>m. ()) res"

datatype net_call =
    SendPingMessage "Contact option"
  | SendFindContactMessage "KademliaID option" "Contact option"
  | SendFindDataMessage "KademliaID option" "Contact option"
  | SendStoreMessage "Contact option" "KademliaID option" "bytes option"

fun call_request :: "UDPNetwork \<Rightarrow> uuid \<Rightarrow> net_call \<Rightarrow> (net_error + prepared) option" where
  "call_request n tx (SendPingMessage c) = SendPing_request n tx c"
| "call_request n tx (SendFindContactMessage t c) = SendFindContact_request n tx t c"
| "call_request n tx (SendFindDataMessage t c) = SendFindData_request n tx t c"
| "call_request n tx (SendStoreMessage c k d) = SendStore_request n tx c k d"

section \<open>The critical sections of sendRPC\<close>

definition rpc_register :: "UDPNetwork \<Rightarrow> uuid \<Rightarrow> nat \<Rightarrow> UDPNetwork" where
  "rpc_register n tx ch = n\<lparr>un_pending := gm_set tx ch (un_pending n)\<rparr>"

definition rpc_unregister :: "UDPNetwork \<Rightarrow> uuid \<Rightarrow> UDPNetwork" where
  "rpc_unregister n tx = n\<lparr>un_pending := gm_del tx (un_pending n)\<rparr>"

definition rpc_write :: "UDPNetwork \<Rightarrow> bool \<Rightarrow> net_error + unit" where
  "rpc_write n written =
     (case un_conn n of
        None \<Rightarrow> Inl ErrClosed
      | Some open_conn \<Rightarrow> if open_conn \<and> written then Inr () else Inl ErrWrite)"

section \<open>Handling a packet\<close>

text \<open>
  \<^verbatim>\<open>updateRoutingTable\<close>: the critical section on the table; the rest of \<^verbatim>\<open>UpdateWithPing\<close> is the task it returns.
\<close>

definition updateRoutingTable :: "UDPNetwork \<Rightarrow> Contact \<Rightarrow> (UDPNetwork \<times> task option) option" where
  "updateRoutingTable n c =
     (case un_rt n of
        None \<Rightarrow> Some (n, None)
      | Some rt \<Rightarrow>
          if ID c = None then Some (n, None)
          else if ID (un_me n) \<noteq> None \<and> Equals_ptr (ID c) (ID (un_me n)) = Some True then Some (n, None)
          else map_option (\<lambda>(rt1, r). (n\<lparr>un_rt := Some rt1\<rparr>, map_option (\<lambda>(bi, oldest). T_Queue c bi oldest) r))
            (UpdateWithPing_table rt c True))"

text \<open>The contacts of a reply: not the requester, not the node itself.\<close>

definition reply_contacts :: "UDPNetwork \<Rightarrow> Contact \<Rightarrow> RoutingTable \<Rightarrow> KademliaID option \<Rightarrow> Contact list option" where
  "reply_contacts n requester rt target =
     map_option (filter_contacts (ID requester) (ID (un_me n))) (FindClosestContacts rt target (int bucketSize))"

definition serve_FindContact :: "UDPNetwork \<Rightarrow> RPCMessage \<Rightarrow> RPCMessage option" where
  "serve_FindContact n msg = do {
     filtered \<leftarrow> (case un_rt n of None \<Rightarrow> Some [] | Some rt \<Rightarrow> reply_contacts n (Sender msg) rt (TargetID msg));
     Some ((new_message FindContact (TransactionID msg) (un_me n))\<lparr>Contacts := filtered\<rparr>)
   }"

definition serve_FindData :: "UDPNetwork \<Rightarrow> RPCMessage \<Rightarrow> RPCMessage option" where
  "serve_FindData n msg =
     (let reply = new_message FindDataReply (TransactionID msg) (un_me n) in
      case (case (un_ds n, TargetID msg) of (Some d, Some t) \<Rightarrow> gm_get d t | _ \<Rightarrow> None) of
        Some val \<Rightarrow> Some (reply\<lparr>Data := Some val\<rparr>)
      | None \<Rightarrow>
          (case (un_rt n, TargetID msg) of
             (Some rt, Some t) \<Rightarrow>
               map_option (\<lambda>filtered. reply\<lparr>Contacts := filtered\<rparr>) (reply_contacts n (Sender msg) rt (Some t))
           | _ \<Rightarrow> Some reply))"

text \<open>The node's store with its settings; a fetch of a record may run calls of this same network.\<close>

definition udp_ds :: "udp_env \<Rightarrow> data \<Rightarrow> UDPNetwork DataStore" where
  "udp_ds U d = \<lparr>ds_data = d, maxValSize = ue_maxValSize U, dnsResolver = ue_resolver U,
     recordFetcher = ue_fetcher U\<rparr>"

definition serve_Store :: "'e reg_env_scheme \<Rightarrow> udp_env \<Rightarrow> UDPNetwork \<Rightarrow> RPCMessage \<Rightarrow> (UDPNetwork \<times> RPCMessage) option" where
  "serve_Store E U n msg = do {
     n1 \<leftarrow> (case (un_ds n, TargetID msg, Data msg) of
             (Some d, Some k, Some data) \<Rightarrow>
               map_option (\<lambda>(r, ds, n1). n1\<lparr>un_ds := Some (ds_data ds)\<rparr>) (DataStore_Store E (udp_ds U d) k data n)
           | _ \<Rightarrow> Some n);
     Some (n1, new_message StoreReply (TransactionID msg) (un_me n1))
   }"

text \<open>The switch on the type of a message that answers no call; other types are ignored.\<close>

definition handle_request ::
  "'e reg_env_scheme \<Rightarrow> udp_env \<Rightarrow> UDPNetwork \<Rightarrow> RPCMessage \<Rightarrow> (UDPNetwork \<times> RPCMessage option) option" where
  "handle_request E U n msg =
     (case Type msg of
        Ping \<Rightarrow> Some (n, Some (new_message Pong (TransactionID msg) (un_me n)))
      | FindContact \<Rightarrow> map_option (\<lambda>r. (n, Some r)) (serve_FindContact n msg)
      | FindData \<Rightarrow> map_option (\<lambda>r. (n, Some r)) (serve_FindData n msg)
      | Store \<Rightarrow> map_option (\<lambda>(n1, r). (n1, Some r)) (serve_Store E U n msg)
      | _ \<Rightarrow> Some (n, None))"

text \<open>
  \<^verbatim>\<open>handleMessage\<close> run without interleaving: the state, the eviction task it leaves, and what it does with
  the message: hand it to a channel, or answer it.
\<close>

datatype handled = Delivered nat | Answered "RPCMessage option"

definition handleMessage ::
  "'e reg_env_scheme \<Rightarrow> udp_env \<Rightarrow> UDPNetwork \<Rightarrow> RPCMessage \<Rightarrow> (UDPNetwork \<times> task option \<times> handled) option" where
  "handleMessage E U n msg = do {
     (n1, t) \<leftarrow> updateRoutingTable n (Sender msg);
     case gm_get (un_pending n1) (TransactionID msg) of
       Some ch \<Rightarrow> Some (n1, t, Delivered ch)
     | None \<Rightarrow> do {
         (n2, r) \<leftarrow> handle_request E U n1 msg;
         Some (n2, t, Answered r)
       }
   }"

section \<open>What handling a packet keeps\<close>

definition net_ok :: "'e reg_env_scheme \<Rightarrow> UDPNetwork \<Rightarrow> bool" where
  "net_ok E n \<longleftrightarrow> (\<forall>rt. un_rt n = Some rt \<longrightarrow> rt_wf rt) \<and> (\<forall>d. un_ds n = Some d \<longrightarrow> data_ok E d)"

lemma net_okD:
  "net_ok E n \<Longrightarrow> un_rt n = Some rt \<Longrightarrow> rt_wf rt" "net_ok E n \<Longrightarrow> un_ds n = Some d \<Longrightarrow> data_ok E d"
  by (simp_all add: net_ok_def)

text \<open>The frame of everything but a change of the store: who the node is, its pending calls, the books of its table.\<close>

definition net_keeps :: "UDPNetwork \<Rightarrow> UDPNetwork \<Rightarrow> bool" where
  "net_keeps n n' \<longleftrightarrow> un_me n' = un_me n \<and> un_pending n' = un_pending n \<and>
     rel_option (\<lambda>rt rt'. rt_wf rt \<longrightarrow> rt_wf rt' \<and> same_book rt rt') (un_rt n) (un_rt n')"

lemma same_book_refl [simp]: "same_book rt rt"
  by (simp add: same_book_def)

lemma same_book_trans: "same_book a b \<Longrightarrow> same_book b c \<Longrightarrow> same_book a c"
  by (simp add: same_book_def)

lemma net_keeps_refl [simp]: "net_keeps n n"
  by (simp add: net_keeps_def option.rel_refl)

lemma net_keeps_trans: "net_keeps a b \<Longrightarrow> net_keeps b c \<Longrightarrow> net_keeps a c"
  by (cases "un_rt a"; cases "un_rt b"; cases "un_rt c") (auto simp: net_keeps_def intro: same_book_trans)

lemma net_keeps_ds [simp]: "net_keeps n (n'\<lparr>un_ds := d\<rparr>) = net_keeps n n'"
  by (simp add: net_keeps_def)

text \<open>
  What the store's fetcher does with the network: its own calls are over when it returns, the table it
  may extend stays well-formed, and values that are stored stay.
\<close>

definition udp_fetcher_ok :: "'e reg_env_scheme \<Rightarrow> UDPNetwork RecordFetcher option \<Rightarrow> bool" where
  "udp_fetcher_ok E F \<longleftrightarrow> (\<forall>fetch st h. F = Some fetch \<longrightarrow>
     net_keeps (snd st) (snd (snd (fetch st h))) \<and>
     (data_ok E (fst st) \<longrightarrow> data_ok E (fst (snd (fetch st h)))) \<and>
     (\<forall>k v. gm_get (fst st) k = Some v \<longrightarrow> gm_get (fst (snd (fetch st h))) k = Some v))"

lemma udp_fetcher_okD:
  assumes "udp_fetcher_ok E F" and "F = Some fetch"
  shows "net_keeps (snd st) (snd (snd (fetch st h)))"
    and "data_ok E (fst st) \<Longrightarrow> data_ok E (fst (snd (fetch st h)))"
    and "gm_get (fst st) k = Some v \<Longrightarrow> gm_get (fst (snd (fetch st h))) k = Some v"
  using assms unfolding udp_fetcher_ok_def by blast+

lemma udp_fetcher_None [simp]: "udp_fetcher_ok E None"
  by (simp add: udp_fetcher_ok_def)

lemma udp_Store_ok:
  assumes "data_ok E d" and F: "udp_fetcher_ok E (ue_fetcher U)"
  shows "\<exists>r ds n1. DataStore_Store E (udp_ds U d) k v n = Some (r, ds, n1) \<and> data_ok E (ds_data ds) \<and> net_keeps n n1"
proof -
  let ?J = "\<lambda>st. data_ok E (fst st) \<and> net_keeps n (snd st)"
  have J: "fetcher_inv ?J (ue_fetcher U)"
    using udp_fetcher_okD(1,2) [OF F] net_keeps_trans by (auto simp: fetcher_inv_def)
  have P: "fetcher_inv (\<lambda>st. ?J st \<and> gm_get (fst st) k = Some v') (ue_fetcher U)" for v'
    using udp_fetcher_okD [OF F] net_keeps_trans by (auto simp: fetcher_inv_def)
  have "\<exists>r ds n1. DataStore_Store E (udp_ds U d) k v n = Some (r, ds, n1) \<and> ?J (ds_data ds, n1)"
    by (rule DataStore_Store_ok [where J = ?J])
      (use assms(1) J P classify_value_ok [of E "ue_maxValSize U" k v] in \<open>auto simp: udp_ds_def intro: data_ok_set\<close>)
  then show ?thesis by auto
qed

lemma serve_Store_ok:
  assumes "net_ok E n" and "udp_fetcher_ok E (ue_fetcher U)"
  shows "\<exists>n1. serve_Store E U n msg = Some (n1, new_message StoreReply (TransactionID msg) (un_me n)) \<and>
    net_keeps n n1 \<and> (un_ds n1 = None \<longleftrightarrow> un_ds n = None) \<and> (\<forall>d. un_ds n1 = Some d \<longrightarrow> data_ok E d)"
proof (cases "\<exists>d k v. un_ds n = Some d \<and> TargetID msg = Some k \<and> Data msg = Some v")
  case True
  then obtain d k v where k: "un_ds n = Some d" "TargetID msg = Some k" "Data msg = Some v" by blast
  obtain r ds n1 where "DataStore_Store E (udp_ds U d) k v n = Some (r, ds, n1)" "data_ok E (ds_data ds)" "net_keeps n n1"
    using udp_Store_ok [OF net_okD(2) [OF assms(1) k(1)] assms(2)] by blast
  with k show ?thesis by (simp add: serve_Store_def net_keeps_def)
next
  case False
  have "serve_Store E U n msg = Some (n, new_message StoreReply (TransactionID msg) (un_me n))"
    using False by (auto simp: serve_Store_def split: option.split)
  then show ?thesis using net_okD(2) [OF assms(1)] by simp
qed

lemma reply_contacts_ok:
  assumes "rt_wf rt"
  shows "\<exists>cs. reply_contacts n c rt (Some t) = Some cs \<and> length cs \<le> bucketSize \<and>
    sorted_wrt (<) (map cdist cs) \<and>
    (\<forall>x \<in> set cs. ID x \<noteq> None \<and> (ID c = None \<or> ID x \<noteq> ID c) \<and> (ID (un_me n) = None \<or> ID x \<noteq> ID (un_me n)))"
proof -
  obtain cs where cs: "FindClosestContacts rt (Some t) (int bucketSize) = Some cs"
    using FindClosestContacts_visits [OF assms, of "int bucketSize" t] by (metis of_nat_0_le_iff)
  have "length cs \<le> bucketSize \<and> list_all (\<lambda>c. ID c \<noteq> None) cs \<and> sorted_wrt (<) (map cdist cs)"
    using FindClosest_ids [OF assms _ cs] by simp
  with cs show ?thesis
    using le_trans [OF length_filter_contacts] sorted_filter_contacts
    by (auto simp: reply_contacts_def list_all_iff)
qed

lemma reply_contacts_None [simp]: "reply_contacts n c rt None = None"
  by (simp add: reply_contacts_def FindClosestContacts_def GetBucketIndex_def)

lemma updateRoutingTable_ok:
  assumes "net_ok E n"
  shows "\<exists>n1 t. updateRoutingTable n c = Some (n1, t) \<and> net_ok E n1 \<and> net_keeps n n1 \<and> un_ds n1 = un_ds n \<and>
    un_timeout n1 = un_timeout n \<and> un_conn n1 = un_conn n \<and>
    (\<forall>rt. un_rt n = Some rt \<longrightarrow> (\<forall>u. t = Some u \<longrightarrow> task_ok (cid (me rt)) u \<and> \<not> is_probe u \<and> probe_bucket u = None))"
proof (cases "un_rt n")
  case (Some rt)
  note wf = net_okD(1) [OF assms Some]
  from UpdateWithPing_table_ok [OF wf, of c True] obtain rt' r where
    u: "UpdateWithPing_table rt c True = Some (rt', r)" "rt_wf rt'" "same_book rt rt'"
    "\<forall>bi oldest. r = Some (bi, oldest) \<longrightarrow> in_place (cid (me rt)) bi c \<and> in_place (cid (me rt)) bi oldest"
    by blast
  show ?thesis
  proof (cases "ID c = None \<or> ID (un_me n) \<noteq> None \<and> Equals_ptr (ID c) (ID (un_me n)) = Some True")
    case False
    then have "updateRoutingTable n c = Some (n\<lparr>un_rt := Some rt'\<rparr>, map_option (\<lambda>(bi, oldest). T_Queue c bi oldest) r)"
      using Some u(1) by (auto simp: updateRoutingTable_def)
    with u(2-4) Some assms show ?thesis by (auto simp: net_ok_def net_keeps_def)
  next
    case True
    then have "updateRoutingTable n c = Some (n, None)" using Some by (auto simp: updateRoutingTable_def)
    with assms show ?thesis by simp
  qed
qed (use assms in \<open>simp add: updateRoutingTable_def\<close>)

text \<open>An answer: of the node, to the request, with contacts fit to hand out and data only from the store.\<close>

definition reply_ok :: "UDPNetwork \<Rightarrow> RPCMessage \<Rightarrow> RPCMessage \<Rightarrow> bool" where
  "reply_ok n msg r \<longleftrightarrow> TransactionID r = TransactionID msg \<and> Sender r = un_me n \<and>
     length (Contacts r) \<le> bucketSize \<and> sorted_wrt (<) (map cdist (Contacts r)) \<and>
     (\<forall>x \<in> set (Contacts r). ID x \<noteq> None \<and> (ID (Sender msg) = None \<or> ID x \<noteq> ID (Sender msg)) \<and>
        (ID (un_me n) = None \<or> ID x \<noteq> ID (un_me n))) \<and>
     (\<forall>v. Data r = Some v \<longrightarrow> (\<exists>d k. un_ds n = Some d \<and> TargetID msg = Some k \<and> gm_get d k = Some v))"

lemma reply_ok_new [simp]:
  "reply_ok n msg (new_message ty (TransactionID msg) (un_me n))"
  by (simp add: reply_ok_def new_message_def)

text \<open>The request that panics: FIND_CONTACT without a target, at a node with a table.\<close>

definition bad_request :: "UDPNetwork \<Rightarrow> RPCMessage \<Rightarrow> bool" where
  "bad_request n msg \<longleftrightarrow> Type msg = FindContact \<and> un_rt n \<noteq> None \<and> TargetID msg = None"

lemma serve_FindContact_ok:
  assumes "net_ok E n"
  shows "serve_FindContact n msg = None \<longleftrightarrow> un_rt n \<noteq> None \<and> TargetID msg = None"
    and "serve_FindContact n msg = Some r \<Longrightarrow> reply_ok n msg r \<and> Type r = FindContact \<and> Data r = None"
proof -
  have some: "\<exists>cs. reply_contacts n (Sender msg) rt (Some t) = Some cs" if "un_rt n = Some rt" for rt t
    using reply_contacts_ok [OF net_okD(1) [OF assms that], of n "Sender msg" t] by auto
  show "serve_FindContact n msg = None \<longleftrightarrow> un_rt n \<noteq> None \<and> TargetID msg = None"
  proof (cases "\<exists>rt t. un_rt n = Some rt \<and> TargetID msg = Some t")
    case True
    then obtain rt t where "un_rt n = Some rt" "TargetID msg = Some t" by blast
    with some [of rt t] show ?thesis by (auto simp: serve_FindContact_def)
  qed (auto simp: serve_FindContact_def split: option.splits)
  assume r: "serve_FindContact n msg = Some r"
  show "reply_ok n msg r \<and> Type r = FindContact \<and> Data r = None"
  proof (cases "un_rt n")
    case None
    with r show ?thesis by (auto simp: serve_FindContact_def reply_ok_def new_message_def)
  next
    case (Some rt)
    with r obtain t where "TargetID msg = Some t" by (cases "TargetID msg") (auto simp: serve_FindContact_def)
    with r Some reply_contacts_ok [OF net_okD(1) [OF assms Some], of n "Sender msg" t] show ?thesis
      by (auto simp: serve_FindContact_def reply_ok_def new_message_def)
  qed
qed

lemma serve_FindData_ok:
  assumes "net_ok E n"
  shows "\<exists>r. serve_FindData n msg = Some r \<and> reply_ok n msg r \<and> Type r = FindDataReply"
proof (cases "case (un_ds n, TargetID msg) of (Some d, Some t) \<Rightarrow> gm_get d t | _ \<Rightarrow> None")
  case (Some v)
  then obtain d k where "un_ds n = Some d" "TargetID msg = Some k" "gm_get d k = Some v"
    by (auto split: option.splits)
  then show ?thesis by (auto simp: serve_FindData_def reply_ok_def new_message_def)
next
  case None
  show ?thesis
  proof (cases "\<exists>rt t. un_rt n = Some rt \<and> TargetID msg = Some t")
    case True
    then obtain rt t where t: "un_rt n = Some rt" "TargetID msg = Some t" by blast
    from reply_contacts_ok [OF net_okD(1) [OF assms t(1)], of n "Sender msg" t] obtain cs where
      cs: "reply_contacts n (Sender msg) rt (Some t) = Some cs" "length cs \<le> bucketSize"
      "sorted_wrt (<) (map cdist cs)"
      "\<forall>x \<in> set cs. ID x \<noteq> None \<and> (ID (Sender msg) = None \<or> ID x \<noteq> ID (Sender msg)) \<and>
         (ID (un_me n) = None \<or> ID x \<noteq> ID (un_me n))" by blast
    let ?r = "(new_message FindDataReply (TransactionID msg) (un_me n))\<lparr>Contacts := cs\<rparr>"
    have "serve_FindData n msg = Some ?r" using None t cs(1) by (simp add: serve_FindData_def Let_def)
    moreover have "reply_ok n msg ?r \<and> Type ?r = FindDataReply" using cs(2-4) by (simp add: reply_ok_def new_message_def)
    ultimately show ?thesis by blast
  next
    case False
    then have "serve_FindData n msg = Some (new_message FindDataReply (TransactionID msg) (un_me n))"
      using None by (auto simp: serve_FindData_def Let_def split: option.splits)
    then show ?thesis by (simp add: new_message_def) (simp flip: new_message_def)
  qed
qed

fun reply_type :: "RPCType \<Rightarrow> RPCType option" where
  "reply_type Ping = Some Pong"
| "reply_type FindContact = Some FindContact"
| "reply_type FindData = Some FindDataReply"
| "reply_type Store = Some StoreReply"
| "reply_type _ = None"

lemma handle_request_ok:
  assumes "net_ok E n" and "udp_fetcher_ok E (ue_fetcher U)"
  shows "handle_request E U n msg = None \<longleftrightarrow> bad_request n msg"
    and "handle_request E U n msg = Some (n1, r) \<Longrightarrow>
      net_ok E n1 \<and> net_keeps n n1 \<and> (un_ds n1 = None \<longleftrightarrow> un_ds n = None) \<and> (Type msg \<noteq> Store \<longrightarrow> n1 = n) \<and>
      map_option Type r = reply_type (Type msg) \<and> (\<forall>x. r = Some x \<longrightarrow> reply_ok n msg x)"
proof -
  obtain n2 where st: "serve_Store E U n msg = Some (n2, new_message StoreReply (TransactionID msg) (un_me n))"
    "net_keeps n n2" "un_ds n2 = None \<longleftrightarrow> un_ds n = None" "\<forall>d. un_ds n2 = Some d \<longrightarrow> data_ok E d"
    using serve_Store_ok [OF assms, of msg] by metis
  have ok: "net_ok E n2"
    using st(2,4) assms(1) by (cases "un_rt n"; cases "un_rt n2") (auto simp: net_ok_def net_keeps_def)
  obtain x where fd: "serve_FindData n msg = Some x" "reply_ok n msg x" "Type x = FindDataReply"
    using serve_FindData_ok [OF assms(1), of msg] by blast
  have ty: "Type (new_message ty tx s) = ty" for ty tx s by (simp add: new_message_def)
  show "handle_request E U n msg = None \<longleftrightarrow> bad_request n msg"
    using serve_FindContact_ok(1) [OF assms(1)] st(1) fd(1)
    by (cases "Type msg") (simp_all add: handle_request_def bad_request_def)
  assume h: "handle_request E U n msg = Some (n1, r)"
  show "net_ok E n1 \<and> net_keeps n n1 \<and> (un_ds n1 = None \<longleftrightarrow> un_ds n = None) \<and> (Type msg \<noteq> Store \<longrightarrow> n1 = n) \<and>
      map_option Type r = reply_type (Type msg) \<and> (\<forall>x. r = Some x \<longrightarrow> reply_ok n msg x)"
  proof (cases "Type msg")
    case FindContact
    with h serve_FindContact_ok(2) [OF assms(1)] assms(1) show ?thesis by (auto simp: handle_request_def)
  next
    case Store
    with h st ok ty show ?thesis by (auto simp: handle_request_def)
  next
    case FindData
    with h fd(1) have "n1 = n" "r = Some x" by (simp_all add: handle_request_def)
    with FindData fd(2,3) assms(1) show ?thesis by simp
  qed (use h fd ty assms(1) in \<open>auto simp: handle_request_def\<close>)
qed

section \<open>The goroutines\<close>

text \<open>
  A call of \<^verbatim>\<open>sendRPC\<close>: registered, waiting in the \<^verbatim>\<open>select\<close>, about to run its deferred clean-up with a
  result, or returned.  A packet's goroutine: about to refresh the table, to look the transaction up, to
  send into a channel, or to answer.  The channels have capacity 1, so a send waits while one is full.
\<close>

datatype rpc_pc = Registered | Waiting | Leaving "net_error + RPCMessage" | Left "net_error + RPCMessage"

datatype handler =
    H_Refresh RPCMessage string | H_Lookup RPCMessage string | H_Send RPCMessage nat | H_Serve RPCMessage string

record udp_sys =
  us_net :: UDPNetwork
  evictions :: "task multiset"
  handlers :: "handler multiset"
  chans :: "nat \<Rightarrow> RPCMessage list"
  rpcs :: "nat \<Rightarrow> (prepared \<times> rpc_pc) option"
  next_ch :: nat
  sent :: "(string \<times> RPCMessage) list"

abbreviation req_tx :: "prepared \<Rightarrow> uuid" where
  "req_tx p \<equiv> TransactionID (fst (snd p))"

definition udp_start :: "UDPNetwork \<Rightarrow> udp_sys" where
  "udp_start n = \<lparr>us_net = n, evictions = {#}, handlers = {#}, chans = (\<lambda>_. []), rpcs = (\<lambda>_. None), next_ch = 0,
     sent = []\<rparr>"

text \<open>The transaction id of the call a channel was made for.\<close>

definition owner :: "udp_sys \<Rightarrow> nat \<Rightarrow> uuid option" where
  "owner s ch = map_option (\<lambda>(p, pc). req_tx p) (rpcs s ch)"

definition set_rpc :: "nat \<Rightarrow> prepared \<Rightarrow> rpc_pc \<Rightarrow> udp_sys \<Rightarrow> udp_sys" where
  "set_rpc ch p pc s = s\<lparr>rpcs := (rpcs s)(ch \<mapsto> (p, pc))\<rparr>"

text \<open>
  \<^verbatim>\<open>uuid.New\<close> gives an id that no earlier call has.  The table may change at any time by the rest of the node and
  the eviction goroutines (\<open>evict_step\<close>).
\<close>

inductive udp_step :: "'e reg_env_scheme \<Rightarrow> udp_env \<Rightarrow> udp_sys \<Rightarrow> udp_sys \<Rightarrow> bool" for E U where
  send: "call_request (us_net s) tx call = Some (Inr p) \<Longrightarrow> (\<forall>ch. owner s ch \<noteq> Some tx) \<Longrightarrow>
     udp_step E U s
       (if ue_resolves U (fst p)
        then set_rpc (next_ch s) p Registered (s\<lparr>us_net := rpc_register (us_net s) tx (next_ch s), next_ch := Suc (next_ch s)\<rparr>)
        else set_rpc (next_ch s) p (Left (Inl ErrAddress)) (s\<lparr>next_ch := Suc (next_ch s)\<rparr>))"
| written: "rpcs s ch = Some (p, Registered) \<Longrightarrow>
     udp_step E U s (set_rpc ch p (case rpc_write (us_net s) ok of Inl e \<Rightarrow> Leaving (Inl e) | Inr _ \<Rightarrow> Waiting) s)"
| receive: "rpcs s ch = Some (p, Waiting) \<Longrightarrow> chans s ch = m # ms \<Longrightarrow>
     udp_step E U s (set_rpc ch p (Leaving (Inr m)) (s\<lparr>chans := (chans s)(ch := ms)\<rparr>))"
| expire: "rpcs s ch = Some (p, Waiting) \<Longrightarrow> udp_step E U s (set_rpc ch p (Leaving (Inl ErrTimeout)) s)"
| leave: "rpcs s ch = Some (p, Leaving r) \<Longrightarrow>
     udp_step E U s (set_rpc ch p (Left r) (s\<lparr>us_net := rpc_unregister (us_net s) (req_tx p)\<rparr>))"
| packet: "un_conn (us_net s) = Some True \<Longrightarrow> ue_unmarshal U bs = Some msg \<Longrightarrow>
     udp_step E U s (s\<lparr>handlers := handlers s + {#H_Refresh msg raddr#}\<rparr>)"
| refresh: "H_Refresh msg raddr \<in># handlers s \<Longrightarrow> updateRoutingTable (us_net s) (Sender msg) = Some (n, t) \<Longrightarrow>
     udp_step E U s (s\<lparr>us_net := n, evictions := evictions s + mset_opt t,
       handlers := handlers s - {#H_Refresh msg raddr#} + {#H_Lookup msg raddr#}\<rparr>)"
| lookup: "H_Lookup msg raddr \<in># handlers s \<Longrightarrow>
     udp_step E U s (s\<lparr>handlers := handlers s - {#H_Lookup msg raddr#} +
       {#case gm_get (un_pending (us_net s)) (TransactionID msg) of
           Some ch \<Rightarrow> H_Send msg ch | None \<Rightarrow> H_Serve msg raddr#}\<rparr>)"
| deliver: "H_Send msg ch \<in># handlers s \<Longrightarrow> chans s ch = [] \<Longrightarrow>
     udp_step E U s (s\<lparr>handlers := handlers s - {#H_Send msg ch#}, chans := (chans s)(ch := [msg])\<rparr>)"
| serve: "H_Serve msg raddr \<in># handlers s \<Longrightarrow> handle_request E U (us_net s) msg = Some (n, r) \<Longrightarrow>
     udp_step E U s (s\<lparr>us_net := n, handlers := handlers s - {#H_Serve msg raddr#},
       sent := sent s @ (case r of None \<Rightarrow> [] | Some x \<Rightarrow> [(raddr, x)])\<rparr>)"
| evict: "un_rt (us_net s) = Some rt \<Longrightarrow> evict_step \<lparr>tbl = rt, tasks = evictions s\<rparr> q \<Longrightarrow>
     udp_step E U s (s\<lparr>us_net := (us_net s)\<lparr>un_rt := Some (tbl q)\<rparr>, evictions := tasks q\<rparr>)"
| timeout: "udp_step E U s (s\<lparr>us_net := SetTimeout (us_net s) d\<rparr>)"
| close: "udp_step E U s (s\<lparr>us_net := snd (UDPNetwork_Close (us_net s))\<rparr>)"

inductive udp_reachable :: "'e reg_env_scheme \<Rightarrow> udp_env \<Rightarrow> UDPNetwork \<Rightarrow> udp_sys \<Rightarrow> bool" for E U n where
  start: "udp_reachable E U n (udp_start n)"
| step: "udp_reachable E U n s \<Longrightarrow> udp_step E U s s' \<Longrightarrow> udp_reachable E U n s'"

text \<open>A call that still owns its entry of \<^verbatim>\<open>pending\<close>.\<close>

fun rpc_active :: "rpc_pc \<Rightarrow> bool" where
  "rpc_active (Left r) = False"
| "rpc_active _ = True"

section \<open>The invariant of the goroutines\<close>

text \<open>Requests: a response belongs to the call it is handed to, and \<^verbatim>\<open>pending\<close> holds the unfinished calls.\<close>

fun rpc_response :: "rpc_pc \<Rightarrow> RPCMessage option" where
  "rpc_response (Leaving (Inr m)) = Some m"
| "rpc_response (Left (Inr m)) = Some m"
| "rpc_response _ = None"

definition rpc_inv :: "udp_sys \<Rightarrow> bool" where
  "rpc_inv s \<longleftrightarrow>
     (\<forall>ch m. m \<in> set (chans s ch) \<longrightarrow> owner s ch = Some (TransactionID m)) \<and>
     (\<forall>msg ch. H_Send msg ch \<in># handlers s \<longrightarrow> owner s ch = Some (TransactionID msg)) \<and>
     (\<forall>ch p pc m. rpcs s ch = Some (p, pc) \<longrightarrow> rpc_response pc = Some m \<longrightarrow> req_tx p = TransactionID m)"

definition pending_inv :: "udp_sys \<Rightarrow> bool" where
  "pending_inv s \<longleftrightarrow> gm_wf (un_pending (us_net s)) \<and>
     (\<forall>ch. next_ch s \<le> ch \<longrightarrow> rpcs s ch = None) \<and>
     (\<forall>ch ch'. owner s ch \<noteq> None \<longrightarrow> owner s ch = owner s ch' \<longrightarrow> ch = ch') \<and>
     (\<forall>tx ch. gm_get (un_pending (us_net s)) tx = Some ch \<longleftrightarrow>
        (\<exists>p pc. rpcs s ch = Some (p, pc) \<and> rpc_active pc \<and> req_tx p = tx))"

text \<open>The state of the node: its store is sound and its table and eviction books are in order.\<close>

definition node_inv :: "'e reg_env_scheme \<Rightarrow> KademliaID \<Rightarrow> udp_sys \<Rightarrow> bool" where
  "node_inv E i s \<longleftrightarrow> net_ok E (us_net s) \<and>
     (\<forall>rt. un_rt (us_net s) = Some rt \<longrightarrow> evict_inv i \<lparr>tbl = rt, tasks = evictions s\<rparr>)"

lemma call_request_tx: "call_request n tx call = Some (Inr p) \<Longrightarrow> req_tx p = tx"
  by (cases call) (auto simp: SendPing_request_def SendFindContact_request_def SendFindData_request_def
      SendStore_request_def new_message_def bind_eq_Some_conv split: option.splits if_splits)

lemma set_rpc_simps [simp]:
  "rpcs (set_rpc ch p pc s) = (rpcs s)(ch \<mapsto> (p, pc))" "us_net (set_rpc ch p pc s) = us_net s"
  "chans (set_rpc ch p pc s) = chans s" "handlers (set_rpc ch p pc s) = handlers s"
  "evictions (set_rpc ch p pc s) = evictions s" "next_ch (set_rpc ch p pc s) = next_ch s"
  by (simp_all add: set_rpc_def)

lemma owner_set_rpc [simp]: "owner (set_rpc ch p pc s) ch' = (if ch' = ch then Some (req_tx p) else owner s ch')"
  by (simp add: owner_def)

lemma owner_rpcs: "rpcs s ch = Some (p, pc) \<Longrightarrow> owner s ch = Some (req_tx p)"
  by (simp add: owner_def)

lemma owner_frame [simp]:
  "owner (s\<lparr>us_net := n\<rparr>) = owner s" "owner (s\<lparr>next_ch := k\<rparr>) = owner s" "owner (s\<lparr>chans := c\<rparr>) = owner s"
  "owner (s\<lparr>handlers := h\<rparr>) = owner s" "owner (s\<lparr>evictions := v\<rparr>) = owner s" "owner (s\<lparr>sent := l\<rparr>) = owner s"
  by (auto simp: owner_def fun_eq_iff)

lemma pending_frame:
  "rpcs s' = rpcs s \<Longrightarrow> next_ch s' = next_ch s \<Longrightarrow> un_pending (us_net s') = un_pending (us_net s) \<Longrightarrow>
   pending_inv s' = pending_inv s"
  by (simp add: pending_inv_def owner_def)

lemma pending_invD:
  assumes "pending_inv s"
  shows "next_ch s \<le> ch \<Longrightarrow> rpcs s ch = None"
    and "owner s ch = Some tx \<Longrightarrow> owner s ch' = Some tx \<Longrightarrow> ch = ch'"
    and "gm_get (un_pending (us_net s)) tx = Some ch \<longleftrightarrow>
      (\<exists>p pc. rpcs s ch = Some (p, pc) \<and> rpc_active pc \<and> req_tx p = tx)"
    and "gm_wf (un_pending (us_net s))"
  using assms unfolding pending_inv_def by (blast, metis option.distinct(1), blast, blast)

lemma pending_owner: "pending_inv s \<Longrightarrow> gm_get (un_pending (us_net s)) tx = Some ch \<Longrightarrow> owner s ch = Some tx"
  by (auto simp: pending_invD(3) owner_def)

text \<open>A call that moves on without leaving.\<close>

lemma pending_advance:
  assumes "pending_inv s" and "rpcs s ch = Some (p, pc)" and "rpc_active pc" and "rpc_active pc'"
    and "rpcs s' = (rpcs s)(ch \<mapsto> (p, pc'))" and "next_ch s' = next_ch s"
    and "un_pending (us_net s') = un_pending (us_net s)"
  shows "pending_inv s'"
proof -
  have o: "owner s' = owner s" using assms(2,5) by (auto simp: owner_def fun_eq_iff)
  have a: "(\<exists>q pc. rpcs s' c = Some (q, pc) \<and> rpc_active pc \<and> req_tx q = tx) \<longleftrightarrow>
    (\<exists>q pc. rpcs s c = Some (q, pc) \<and> rpc_active pc \<and> req_tx q = tx)" for c tx
    using assms(2-5) by (cases "c = ch") auto
  have "ch < next_ch s" using assms(1,2) pending_invD(1) [of s ch] by (cases "ch < next_ch s") auto
  then show ?thesis
    using assms(1) unfolding pending_inv_def o assms(6,7) a using assms(5) by auto
qed

lemma pending_send:
  assumes "pending_inv s" and "\<forall>ch. owner s ch \<noteq> Some (req_tx p)" and "rpcs s' = (rpcs s)(next_ch s \<mapsto> (p, pc))"
    and "next_ch s' = Suc (next_ch s)"
    and "un_pending (us_net s') = (if rpc_active pc then gm_set (req_tx p) (next_ch s) (un_pending (us_net s))
      else un_pending (us_net s))"
  shows "pending_inv s'"
proof -
  note D = pending_invD [OF assms(1)]
  have o: "owner s' ch = (if ch = next_ch s then Some (req_tx p) else owner s ch)" for ch
    using assms(3) by (simp add: owner_def)
  have n: "rpcs s (next_ch s) = None" using D(1) by simp
  have f: "gm_get (un_pending (us_net s)) (req_tx p) = None"
  proof (cases "gm_get (un_pending (us_net s)) (req_tx p)")
    case (Some ch)
    with pending_owner [OF assms(1)] assms(2) show ?thesis by blast
  qed
  have "gm_get (un_pending (us_net s')) tx = Some ch \<longleftrightarrow>
      (\<exists>q pc. rpcs s' ch = Some (q, pc) \<and> rpc_active pc \<and> req_tx q = tx)" for tx ch
  proof (cases "ch = next_ch s")
    case True
    have "gm_get (un_pending (us_net s)) tx \<noteq> Some (next_ch s)" using D(3) n by simp
    with True show ?thesis using assms(3,5) by (auto simp: gm.get_set)
  next
    case False
    then show ?thesis using assms(3,5) D(3) [of tx ch] f by (auto simp: gm.get_set)
  qed
  moreover have "ch = ch'" if "owner s' ch \<noteq> None" "owner s' ch = owner s' ch'" for ch ch'
    using that assms(2) D(2) unfolding o by (auto split: if_splits)
  ultimately show ?thesis
    using assms(3-5) D(1,4) unfolding pending_inv_def by (auto simp: gm.invar_set)
qed

lemma pending_leave:
  assumes "pending_inv s" and "rpcs s ch = Some (p, Leaving r)" and "rpcs s' = (rpcs s)(ch \<mapsto> (p, Left r))"
    and "next_ch s' = next_ch s" and "un_pending (us_net s') = gm_del (req_tx p) (un_pending (us_net s))"
  shows "pending_inv s'"
proof -
  note D = pending_invD [OF assms(1)]
  have o: "owner s' = owner s" using assms(2,3) by (auto simp: owner_def fun_eq_iff)
  have c: "owner s ch = Some (req_tx p)" using assms(2) by (rule owner_rpcs)
  have "gm_get (un_pending (us_net s')) tx = Some ch' \<longleftrightarrow>
      (\<exists>q pc. rpcs s' ch' = Some (q, pc) \<and> rpc_active pc \<and> req_tx q = tx)" for tx ch'
  proof (cases "ch' = ch")
    case True
    then show ?thesis using assms(2,3,5) D(3) [of tx ch] by (auto simp: gm.get_del [OF D(4)])
  next
    case False
    then have "rpcs s' ch' = rpcs s ch'" using assms(3) by simp
    moreover have "owner s ch' \<noteq> Some (req_tx p)" using D(2) c False by blast
    ultimately show ?thesis
      using assms(5) D(3) [of tx ch'] owner_rpcs [of s ch'] by (auto simp: gm.get_del [OF D(4)])
  qed
  moreover have "ch < next_ch s" using assms(2) D(1) [of ch] by (cases "ch < next_ch s") auto
  ultimately show ?thesis
    using assms(1,3-5) gm.invar_del [OF D(4)] unfolding pending_inv_def o by auto
qed

lemma evict_inv_more:
  assumes "evict_inv i \<lparr>tbl = rt, tasks = ts\<rparr>" and "rt_wf rt'" and "same_book rt rt'"
    and "\<forall>u. t = Some u \<longrightarrow> task_ok i u \<and> \<not> is_probe u \<and> probe_bucket u = None"
  shows "evict_inv i \<lparr>tbl = rt', tasks = ts + mset_opt t\<rparr>"
proof -
  have "evict_inv i \<lparr>tbl = rt', tasks = ts\<rparr>" using evict_inv_same_book [OF assms(1,2)] assms(3) by simp
  with assms(4) show ?thesis by (cases t) (auto simp: evict_inv_def)
qed

lemma node_inv_frame:
  "un_rt (us_net s') = un_rt (us_net s) \<Longrightarrow> un_ds (us_net s') = un_ds (us_net s) \<Longrightarrow> evictions s' = evictions s \<Longrightarrow>
   node_inv E i s' = node_inv E i s"
  by (simp add: node_inv_def net_ok_def)

lemma node_inv_keeps:
  assumes "node_inv E i s" and "net_keeps (us_net s) (us_net s')" and "\<forall>d. un_ds (us_net s') = Some d \<longrightarrow> data_ok E d"
    and "evictions s' = evictions s + mset_opt t"
    and "\<forall>rt u. un_rt (us_net s) = Some rt \<longrightarrow> t = Some u \<longrightarrow> task_ok i u \<and> \<not> is_probe u \<and> probe_bucket u = None"
  shows "node_inv E i s'"
proof (cases "un_rt (us_net s)")
  case None
  with assms(2,3) show ?thesis by (simp add: node_inv_def net_ok_def net_keeps_def)
next
  case (Some rt)
  have wf: "rt_wf rt" using assms(1) Some net_okD(1) unfolding node_inv_def by blast
  obtain rt' where rt': "un_rt (us_net s') = Some rt'" "rt_wf rt'" "same_book rt rt'"
    using assms(2) Some wf by (cases "un_rt (us_net s')") (auto simp: net_keeps_def)
  have "evict_inv i \<lparr>tbl = rt, tasks = evictions s\<rparr>" using assms(1) Some by (simp add: node_inv_def)
  from evict_inv_more [OF this rt'(2,3)] assms(3-5) Some rt'(1,2) show ?thesis
    by (simp add: node_inv_def net_ok_def)
qed

lemma rpc_inv_frame:
  assumes "rpc_inv s" and "rpcs s' = rpcs s" and "chans s' = chans s"
    and "\<And>msg ch. H_Send msg ch \<in># handlers s' \<Longrightarrow> owner s ch = Some (TransactionID msg)"
  shows "rpc_inv s'"
proof -
  have "owner s' = owner s" using assms(2) by (simp add: owner_def fun_eq_iff)
  with assms show ?thesis unfolding rpc_inv_def by metis
qed

lemma rpc_invD:
  assumes "rpc_inv s"
  shows "m \<in> set (chans s ch) \<Longrightarrow> owner s ch = Some (TransactionID m)"
    and "H_Send msg ch \<in># handlers s \<Longrightarrow> owner s ch = Some (TransactionID msg)"
    and "rpcs s ch = Some (p, pc) \<Longrightarrow> rpc_response pc = Some m \<Longrightarrow> req_tx p = TransactionID m"
  using assms unfolding rpc_inv_def by blast+

lemma rpc_inv_set:
  assumes "rpc_inv s" and "rpcs s' = (rpcs s)(ch \<mapsto> (p, pc))" and "owner s ch = None \<or> owner s ch = Some (req_tx p)"
    and "\<And>c m. m \<in> set (chans s' c) \<Longrightarrow> m \<in> set (chans s c)" and "handlers s' = handlers s"
    and "\<And>m. rpc_response pc = Some m \<Longrightarrow> req_tx p = TransactionID m"
  shows "rpc_inv s'"
proof -
  note D = rpc_invD [OF assms(1)]
  have "owner s' c = (if c = ch then Some (req_tx p) else owner s c)" for c
    using assms(2) by (simp add: owner_def)
  with assms(3) have o: "owner s' c = Some tx" if "owner s c = Some tx" for c tx
    using that by (cases "c = ch") simp_all
  have "owner s' c = Some (TransactionID m)" if "m \<in> set (chans s' c)" for c m
    using o D(1) assms(4) that by blast
  moreover have "owner s' c = Some (TransactionID m)" if "H_Send m c \<in># handlers s'" for c m
    using o D(2) assms(5) that by simp
  moreover have "req_tx q = TransactionID m" if "rpcs s' c = Some (q, pc')" "rpc_response pc' = Some m" for c q pc' m
    using that assms(2,6) D(3) by (cases "c = ch") auto
  ultimately show ?thesis unfolding rpc_inv_def by blast
qed

definition udp_inv :: "'e reg_env_scheme \<Rightarrow> KademliaID \<Rightarrow> udp_sys \<Rightarrow> bool" where
  "udp_inv E i s \<longleftrightarrow> pending_inv s \<and> rpc_inv s \<and> node_inv E i s"

text \<open>The steps by what they change: no call, or one call that moves on.\<close>

lemma udp_inv_frame:
  assumes "udp_inv E i s" and "rpcs s' = rpcs s" and "chans s' = chans s" and "next_ch s' = next_ch s"
    and "net_keeps (us_net s) (us_net s')" and "\<forall>d. un_ds (us_net s') = Some d \<longrightarrow> data_ok E d"
    and "evictions s' = evictions s + mset_opt t"
    and "\<forall>rt u. un_rt (us_net s) = Some rt \<longrightarrow> t = Some u \<longrightarrow> task_ok i u \<and> \<not> is_probe u \<and> probe_bucket u = None"
    and "\<And>msg ch. H_Send msg ch \<in># handlers s' \<Longrightarrow> H_Send msg ch \<in># handlers s \<or> owner s ch = Some (TransactionID msg)"
  shows "udp_inv E i s'"
proof -
  have "pending_inv s'"
    using assms(1,2,4,5) pending_frame [of s' s] by (simp add: udp_inv_def net_keeps_def)
  moreover have "rpc_inv s'"
    using assms(1,9) rpc_invD(2) [of s] by (intro rpc_inv_frame [OF _ assms(2,3)]) (auto simp: udp_inv_def)
  moreover have "node_inv E i s'"
    using assms(1) by (intro node_inv_keeps [OF _ assms(5-8)]) (simp add: udp_inv_def)
  ultimately show ?thesis by (simp add: udp_inv_def)
qed

lemma udp_inv_rpc:
  assumes "udp_inv E i s" and "rpcs s' = (rpcs s)(ch \<mapsto> (p, pc))" and "pending_inv s'"
    and "owner s ch = None \<or> owner s ch = Some (req_tx p)"
    and "\<And>c m. m \<in> set (chans s' c) \<Longrightarrow> m \<in> set (chans s c)" and "handlers s' = handlers s"
    and "\<And>m. rpc_response pc = Some m \<Longrightarrow> req_tx p = TransactionID m"
    and "un_rt (us_net s') = un_rt (us_net s)" and "un_ds (us_net s') = un_ds (us_net s)" and "evictions s' = evictions s"
  shows "udp_inv E i s'"
  using assms(1,3) node_inv_frame [OF assms(8-10), of E i] rpc_inv_set [OF _ assms(2,4-7)] by (simp add: udp_inv_def)

lemma udp_inv_advance:
  assumes "udp_inv E i s" and "rpcs s ch = Some (p, pc)" and "rpc_active pc" and "rpc_active pc'"
    and "s' = set_rpc ch p pc' (s\<lparr>chans := c\<rparr>)" and "\<And>k m. m \<in> set (c k) \<Longrightarrow> m \<in> set (chans s k)"
    and "\<And>m. rpc_response pc' = Some m \<Longrightarrow> req_tx p = TransactionID m"
  shows "udp_inv E i s'"
proof (rule udp_inv_rpc [OF assms(1), where ch = ch and pc = pc' and p = p])
  show "pending_inv s'"
    by (rule pending_advance [OF _ assms(2-4)]) (use assms(1,5) in \<open>simp_all add: udp_inv_def\<close>)
qed (use assms(5-7) owner_rpcs [OF assms(2)] in auto)

lemma udp_inv_send:
  assumes "udp_inv E i s" and "call_request (us_net s) tx call = Some (Inr p)" and "\<forall>ch. owner s ch \<noteq> Some tx"
    and "s' = set_rpc (next_ch s) p pc (s\<lparr>us_net := n, next_ch := Suc (next_ch s)\<rparr>)"
    and "n = (if rpc_active pc then rpc_register (us_net s) tx (next_ch s) else us_net s)" and "rpc_response pc = None"
  shows "udp_inv E i s'"
proof (rule udp_inv_rpc [OF assms(1), where ch = "next_ch s" and pc = pc and p = p])
  note tx = call_request_tx [OF assms(2)]
  have P: "pending_inv s" using assms(1) by (simp add: udp_inv_def)
  show "pending_inv s'"
    by (rule pending_send [OF P, of p s' pc]) (use assms(3-5) tx in \<open>auto simp: rpc_register_def\<close>)
  show "owner s (next_ch s) = None \<or> owner s (next_ch s) = Some (req_tx p)"
    using pending_invD(1) [OF P] by (simp add: owner_def)
qed (use assms(4-6) in \<open>auto simp: rpc_register_def\<close>)

lemma udp_inv_leave:
  assumes "udp_inv E i s" and "rpcs s ch = Some (p, Leaving r)"
  shows "udp_inv E i (set_rpc ch p (Left r) (s\<lparr>us_net := rpc_unregister (us_net s) (req_tx p)\<rparr>))" (is "udp_inv E i ?s")
proof (rule udp_inv_rpc [OF assms(1), where ch = ch and pc = "Left r" and p = p])
  show "pending_inv ?s"
    by (rule pending_leave [OF _ assms(2)]) (use assms(1) in \<open>auto simp: udp_inv_def rpc_unregister_def\<close>)
  fix m assume "rpc_response (Left r) = Some m"
  then have "rpc_response (Leaving r) = Some m" by (cases r) auto
  with assms rpc_invD(3) show "req_tx p = TransactionID m" unfolding udp_inv_def by blast
qed (use owner_rpcs [OF assms(2)] in \<open>auto simp: rpc_unregister_def\<close>)

lemma udp_inv_deliver:
  assumes "udp_inv E i s" and "H_Send msg ch \<in># handlers s"
  shows "udp_inv E i (s\<lparr>handlers := handlers s - {#H_Send msg ch#}, chans := (chans s)(ch := [msg])\<rparr>)" (is "udp_inv E i ?s")
proof -
  have R: "rpc_inv s" using assms(1) by (simp add: udp_inv_def)
  have "owner s c = Some (TransactionID m)" if "m \<in> set (chans ?s c)" for m c
    using that rpc_invD(1) [OF R, of m c] rpc_invD(2) [OF R assms(2)] by (auto split: if_splits)
  moreover have "owner s c = Some (TransactionID m)" if "H_Send m c \<in># handlers ?s" for m c
    using that rpc_invD(2) [OF R, of m c] by (auto dest: in_diffD)
  moreover have "req_tx p = TransactionID m" if "rpcs ?s c = Some (p, pc)" "rpc_response pc = Some m" for c p pc m
    using that rpc_invD(3) [OF R, of c p pc m] by simp
  moreover have "owner ?s = owner s" by simp
  ultimately have "rpc_inv ?s" unfolding rpc_inv_def by auto
  then show ?thesis
    using assms(1) pending_frame [of ?s s] node_inv_frame [of ?s s E i] by (simp add: udp_inv_def)
qed

lemma udp_inv_evict:
  assumes "udp_inv E i s" and "un_rt (us_net s) = Some rt" and "evict_step \<lparr>tbl = rt, tasks = evictions s\<rparr> q"
  shows "udp_inv E i (s\<lparr>us_net := (us_net s)\<lparr>un_rt := Some (tbl q)\<rparr>, evictions := tasks q\<rparr>)" (is "udp_inv E i ?s")
proof -
  have N: "node_inv E i s" using assms(1) by (simp add: udp_inv_def)
  then have "evict_inv i \<lparr>tbl = rt, tasks = evictions s\<rparr>" using assms(2) by (simp add: node_inv_def)
  from evict_inv_step [OF assms(3) this] have "evict_inv i \<lparr>tbl = tbl q, tasks = tasks q\<rparr>" "rt_wf (tbl q)"
    by (simp_all add: evict_inv_def)
  with N have "node_inv E i ?s" by (simp add: node_inv_def net_ok_def)
  moreover have R: "rpc_inv s" using assms(1) by (simp add: udp_inv_def)
  then have "rpc_inv ?s" by (rule rpc_inv_frame) (use rpc_invD(2) [OF R] in simp_all)
  ultimately show ?thesis using assms(1) pending_frame [of ?s s] by (simp add: udp_inv_def)
qed

lemma net_keeps_close [simp]:
  "net_keeps n (snd (UDPNetwork_Close n))" "un_ds (snd (UDPNetwork_Close n)) = un_ds n"
  by (auto simp: UDPNetwork_Close_def net_keeps_def option.rel_refl split: option.split)

lemma net_keeps_timeout [simp]: "net_keeps n (SetTimeout n d)" "un_ds (SetTimeout n d) = un_ds n"
  by (simp_all add: SetTimeout_def net_keeps_def option.rel_refl)

lemma udp_step_inv:
  assumes "udp_step E U s s'" and I: "udp_inv E i s" and F: "udp_fetcher_ok E (ue_fetcher U)"
  shows "udp_inv E i s'"
  using assms(1)
proof (cases rule: udp_step.cases)
  have R: "rpc_inv s" and P: "pending_inv s" and ok: "net_ok E (us_net s)" and N: "node_inv E i s"
    using I by (simp_all add: udp_inv_def node_inv_def)
  note ds = net_okD(2) [OF ok]
  {
    case (send tx call p)
    show ?thesis
      by (rule udp_inv_send [OF I send(2,3),
          where pc = "if ue_resolves U (fst p) then Registered else Left (Inl ErrAddress)"])
        (auto simp: send(1))
  next
    case (written ch p ok)
    show ?thesis
      by (rule udp_inv_advance [OF I written(2), where c = "chans s"
          and pc' = "case rpc_write (us_net s) ok of Inl e \<Rightarrow> Leaving (Inl e) | Inr _ \<Rightarrow> Waiting"])
        (auto simp: written(1) split: sum.splits)
  next
    case (receive ch p m ms)
    have "req_tx p = TransactionID m" using rpc_invD(1) [OF R, of m ch] receive(3) owner_rpcs [OF receive(2)] by simp
    then show ?thesis
      by (intro udp_inv_advance [OF I receive(2) _ _ receive(1)]) (use receive(3) in \<open>auto split: if_splits\<close>)
  next
    case (expire ch p)
    show ?thesis by (rule udp_inv_advance [OF I expire(2), where c = "chans s"]) (auto simp: expire(1))
  next
    case (leave ch p r)
    show ?thesis unfolding leave(1) by (rule udp_inv_leave [OF I leave(2)])
  next
    case (packet bs msg raddr)
    show ?thesis by (rule udp_inv_frame [OF I, where t = None]) (use ds in \<open>auto simp: packet(1)\<close>)
  next
    case (refresh msg raddr n t)
    have "cid (me rt) = i" if "un_rt (us_net s) = Some rt" for rt
      using N that by (simp add: node_inv_def evict_inv_def)
    with updateRoutingTable_ok [OF ok, of "Sender msg"] refresh(3) ds show ?thesis
      by (intro udp_inv_frame [OF I, where t = t]) (auto simp: refresh(1) dest: in_diffD)
  next
    case (lookup msg raddr)
    show ?thesis
      by (rule udp_inv_frame [OF I, where t = None])
        (use ds pending_owner [OF P] in \<open>auto simp: lookup(1) dest: in_diffD split: option.splits\<close>)
  next
    case (deliver msg ch)
    show ?thesis unfolding deliver(1) by (rule udp_inv_deliver [OF I deliver(2)])
  next
    case (serve msg raddr n r)
    show ?thesis
      by (rule udp_inv_frame [OF I, where t = None])
        (use handle_request_ok(2) [OF ok F serve(3)] in \<open>auto simp: serve(1) net_ok_def dest: in_diffD\<close>)
  next
    case (evict rt q)
    show ?thesis unfolding evict(1) by (rule udp_inv_evict [OF I evict(2,3)])
  next
    case (timeout d)
    show ?thesis by (rule udp_inv_frame [OF I, where t = None]) (use ds in \<open>auto simp: timeout(1)\<close>)
  next
    case close
    show ?thesis by (rule udp_inv_frame [OF I, where t = None]) (use ds in \<open>auto simp: close(1)\<close>)
  }
qed

section \<open>Every call returns\<close>

text \<open>A call needs no packet to return: whatever the others do, its own next steps lead it out.\<close>

lemma call_leaves:
  assumes "rpcs s ch = Some (p, pc)" and "rpc_active pc"
  shows "\<exists>s' r. (udp_step E U)\<^sup>*\<^sup>* s s' \<and> rpcs s' = (rpcs s)(ch \<mapsto> (p, Left r)) \<and> next_ch s' = next_ch s"
proof -
  have leaving: "\<exists>s' r. (udp_step E U)\<^sup>*\<^sup>* s s' \<and> rpcs s' = (rpcs s)(ch \<mapsto> (p, Left r)) \<and> next_ch s' = next_ch s"
    if "rpcs s ch = Some (p, Leaving r)" for s r
  proof -
    let ?s = "set_rpc ch p (Left r) (s\<lparr>us_net := rpc_unregister (us_net s) (req_tx p)\<rparr>)"
    have "rpcs ?s = (rpcs s)(ch \<mapsto> (p, Left r)) \<and> next_ch ?s = next_ch s" by simp
    with udp_step.leave [OF that, of E U] show ?thesis by blast
  qed
  have waiting: "\<exists>s' r. (udp_step E U)\<^sup>*\<^sup>* s s' \<and> rpcs s' = (rpcs s)(ch \<mapsto> (p, Left r)) \<and> next_ch s' = next_ch s"
    if "rpcs s ch = Some (p, Waiting)" for s
  proof -
    let ?s = "set_rpc ch p (Leaving (Inl ErrTimeout)) s"
    obtain s' r where "(udp_step E U)\<^sup>*\<^sup>* ?s s'" "rpcs s' = (rpcs ?s)(ch \<mapsto> (p, Left r))" "next_ch s' = next_ch ?s"
      using leaving [of ?s "Inl ErrTimeout"] by auto
    with udp_step.expire [OF that, of E U] show ?thesis by (auto intro: converse_rtranclp_into_rtranclp)
  qed
  show ?thesis
  proof (cases pc)
    case Registered
    let ?pc = "case rpc_write (us_net s) True of Inl e \<Rightarrow> Leaving (Inl e) | Inr _ \<Rightarrow> Waiting"
    let ?s = "set_rpc ch p ?pc s"
    have "\<exists>s' r. (udp_step E U)\<^sup>*\<^sup>* ?s s' \<and> rpcs s' = (rpcs ?s)(ch \<mapsto> (p, Left r)) \<and> next_ch s' = next_ch ?s"
    proof (cases "rpc_write (us_net s) True")
      case (Inl e)
      then show ?thesis using leaving [of ?s "Inl e"] by simp
    next
      case (Inr u)
      then show ?thesis using waiting [of ?s] by simp
    qed
    then obtain s' r where "(udp_step E U)\<^sup>*\<^sup>* ?s s'" "rpcs s' = (rpcs ?s)(ch \<mapsto> (p, Left r))" "next_ch s' = next_ch ?s"
      by blast
    with udp_step.written [of s ch p E U True] assms(1) Registered show ?thesis
      by (auto intro: converse_rtranclp_into_rtranclp)
  qed (use assms leaving waiting in auto)
qed

definition active_calls :: "udp_sys \<Rightarrow> nat set" where
  "active_calls s = {ch. \<exists>p pc. rpcs s ch = Some (p, pc) \<and> rpc_active pc}"

lemma finite_active_calls: "pending_inv s \<Longrightarrow> finite (active_calls s)"
proof (rule finite_subset)
  assume "pending_inv s"
  then show "active_calls s \<subseteq> {..<next_ch s}"
    using pending_invD(1) [of s] by (force simp: active_calls_def not_less [symmetric])
qed simp

lemma calls_drain:
  assumes "udp_inv E i s" and "udp_fetcher_ok E (ue_fetcher U)"
  shows "\<exists>s'. (udp_step E U)\<^sup>*\<^sup>* s s' \<and> active_calls s' = {} \<and> udp_inv E i s'"
  using assms(1)
proof (induction "card (active_calls s)" arbitrary: s rule: less_induct)
  case less
  show ?case
  proof (cases "active_calls s = {}")
    case False
    then obtain ch p pc where ch: "rpcs s ch = Some (p, pc)" "rpc_active pc" by (auto simp: active_calls_def)
    obtain s1 r where s1: "(udp_step E U)\<^sup>*\<^sup>* s s1" "rpcs s1 = (rpcs s)(ch \<mapsto> (p, Left r))"
      using call_leaves [OF ch] by blast
    have "udp_inv E i s1"
      using s1(1) less.prems by (induction rule: rtranclp_induct) (blast intro: udp_step_inv [OF _ _ assms(2)])+
    moreover have "active_calls s1 = active_calls s - {ch}" using s1(2) by (auto simp: active_calls_def)
    moreover have "ch \<in> active_calls s" unfolding active_calls_def using ch by blast
    moreover have "finite (active_calls s)" using less.prems finite_active_calls by (auto simp: udp_inv_def)
    ultimately have "\<exists>s'. (udp_step E U)\<^sup>*\<^sup>* s1 s' \<and> active_calls s' = {} \<and> udp_inv E i s'"
      using less.hyps [of s1] by (metis card_Diff1_less)
    with s1(1) show ?thesis by (meson rtranclp_trans)
  qed (use less.prems in blast)
qed

lemma udp_start_inv:
  assumes "un_pending n = gm_empty" and "net_ok E n" and "\<forall>rt. un_rt n = Some rt \<longrightarrow> evict_inv i \<lparr>tbl = rt, tasks = {#}\<rparr>"
  shows "udp_inv E i (udp_start n)"
  using assms by (simp add: udp_inv_def udp_start_def pending_inv_def rpc_inv_def node_inv_def owner_def
      gm.invar_empty gm.get_empty)

lemma udp_reachable_inv:
  assumes "udp_reachable E U n s" and "un_pending n = gm_empty" and "net_ok E n"
    and "\<forall>rt. un_rt n = Some rt \<longrightarrow> evict_inv i \<lparr>tbl = rt, tasks = {#}\<rparr>" and "udp_fetcher_ok E (ue_fetcher U)"
  shows "udp_inv E i s"
  using assms(1)
proof (induction rule: udp_reachable.induct)
  case start
  show ?case by (rule udp_start_inv [OF assms(2-4)])
next
  case (step s s')
  from udp_step_inv [OF step(2,3) assms(5)] show ?case .
qed

section \<open>A goroutine that never ends\<close>

text \<open>
  A third response to a call finds the channel of a finished call full: nobody will ever empty it.
\<close>

definition stuck :: "RPCMessage \<Rightarrow> nat \<Rightarrow> udp_sys \<Rightarrow> bool" where
  "stuck msg ch s \<longleftrightarrow> H_Send msg ch \<in># handlers s \<and> chans s ch \<noteq> [] \<and> ch < next_ch s \<and>
     (\<exists>p r. rpcs s ch = Some (p, Left r))"

lemma stuck_frame:
  assumes "stuck msg ch s" and "rpcs s' ch = rpcs s ch" and "chans s' ch = chans s ch" and "next_ch s \<le> next_ch s'"
    and "H_Send msg ch \<in># handlers s'"
  shows "stuck msg ch s'"
  using assms by (auto simp: stuck_def)

lemma stuck_step:
  assumes "udp_step E U s s'" and "stuck msg ch s"
  shows "stuck msg ch s'"
proof -
  have h: "H_Send msg ch \<in># handlers s" "chans s ch \<noteq> []" "ch < next_ch s" using assms(2) by (auto simp: stuck_def)
  obtain p r where p: "rpcs s ch = Some (p, Left r)" using assms(2) by (auto simp: stuck_def)
  have other: "H_Send msg ch \<in># handlers s - {#x#}" if "x \<noteq> H_Send msg ch" for x
    using h(1) that by (simp add: in_diff_count)
  have full: "H_Send msg ch \<in># handlers s - {#H_Send m c#}" if "chans s c = []" for m c
    using h(2) that by (intro other) auto
  from assms(1) show ?thesis
    by cases (use h p other full in \<open>auto intro!: stuck_frame [OF assms(2)] split: if_splits\<close>)
qed

lemma stuck_forever: "(udp_step E U)\<^sup>*\<^sup>* s s' \<Longrightarrow> stuck msg ch s \<Longrightarrow> stuck msg ch s'"
  by (induction rule: rtranclp_induct) (blast intro: stuck_step)+

text \<open>A response whose sender has no identifier goes straight to the channel of its call.\<close>

lemma response_arrives:
  assumes "un_conn (us_net s) = Some True" and "ue_unmarshal U bs = Some msg" and "ID (Sender msg) = None"
    and "gm_get (un_pending (us_net s)) (TransactionID msg) = Some ch"
  shows "(udp_step E U)\<^sup>*\<^sup>* s (s\<lparr>handlers := handlers s + {#H_Send msg ch#}\<rparr>)"
proof -
  let ?a = "s\<lparr>handlers := handlers s + {#H_Refresh msg []#}\<rparr>"
  let ?b = "s\<lparr>handlers := handlers s + {#H_Lookup msg []#}\<rparr>"
  have "updateRoutingTable (us_net s) (Sender msg) = Some (us_net s, None)"
    using assms(3) by (simp add: updateRoutingTable_def split: option.split)
  then have "udp_step E U ?a ?b" using udp_step.refresh [of msg "[]" ?a "us_net s" None E U] by simp
  moreover have "udp_step E U s ?a" using assms(1,2) by (rule udp_step.packet)
  moreover have "udp_step E U ?b (s\<lparr>handlers := handlers s + {#H_Send msg ch#}\<rparr>)"
    using udp_step.lookup [of msg "[]" ?b E U] assms(4) by simp
  ultimately show ?thesis by (meson r_into_rtranclp rtranclp.rtrancl_into_rtrancl)
qed

definition demo_udp_env :: udp_env where
  "demo_udp_env = \<lparr>ue_resolves = (\<lambda>_. True), ue_unmarshal = (\<lambda>_. Some (new_message Pong 7 no_contact)),
     ue_maxValSize = DefaultMaxValSize, ue_resolver = None, ue_fetcher = None\<rparr>"

definition demo_udp :: UDPNetwork where
  "demo_udp = snd (Listen demo_udp_env True (NewUDPNetwork (peer []) (Some (NewRoutingTable (peer []))) None) ''127.0.0.1:0'')"

lemma demo_udp_simps:
  "un_me demo_udp = peer []" "un_rt demo_udp = Some (NewRoutingTable (peer []))" "un_ds demo_udp = None"
  "un_conn demo_udp = Some True" "un_pending demo_udp = gm_empty" "un_timeout demo_udp = 0"
  by (simp_all add: demo_udp_def Listen_def NewUDPNetwork_def) (simp_all add: demo_udp_env_def)

definition demo_ping :: prepared where
  "demo_ping = ([], new_message Ping 7 (peer []), 1000000000)"

text \<open>A call of the node that waits for its answer.\<close>

definition demo_waiting :: udp_sys where
  "demo_waiting = \<lparr>us_net = demo_udp\<lparr>un_pending := gm_set 7 0 gm_empty\<rparr>, evictions = {#}, handlers = {#},
     chans = (\<lambda>_. []), rpcs = (\<lambda>_. None)(0 \<mapsto> (demo_ping, Waiting)), next_ch = 1, sent = []\<rparr>"

lemma demo_waiting_reachable: "udp_reachable E demo_udp_env demo_udp demo_waiting"
proof -
  let ?s = "set_rpc 0 demo_ping Registered
    ((udp_start demo_udp)\<lparr>us_net := rpc_register demo_udp 7 0, next_ch := 1\<rparr>)"
  have call: "call_request demo_udp 7 (SendPingMessage (Some no_contact)) = Some (Inr demo_ping)"
    by (simp add: SendPing_request_def demo_ping_def no_contact_def rpc_timeout_def demo_udp_simps)
  have u: "ue_resolves demo_udp_env a" for a by (simp add: demo_udp_env_def)
  have i: "us_net (udp_start demo_udp) = demo_udp" "next_ch (udp_start demo_udp) = 0"
    "\<forall>ch. owner (udp_start demo_udp) ch \<noteq> Some 7" by (simp_all add: udp_start_def owner_def)
  have "udp_step E demo_udp_env (udp_start demo_udp) ?s"
    using udp_step.send [of "udp_start demo_udp" 7 "SendPingMessage (Some no_contact)" demo_ping E demo_udp_env] call i u
    by simp
  then have r: "udp_reachable E demo_udp_env demo_udp ?s"
    by (rule udp_reachable.step [OF udp_reachable.start])
  have "rpcs ?s 0 = Some (demo_ping, Registered)" by simp
  from udp_step.written [OF this, of E demo_udp_env True] have "udp_step E demo_udp_env ?s (set_rpc 0 demo_ping Waiting ?s)"
    by (simp add: rpc_write_def rpc_register_def demo_udp_simps)
  moreover have "set_rpc 0 demo_ping Waiting ?s = demo_waiting"
    by (simp add: set_rpc_def demo_waiting_def udp_start_def rpc_register_def demo_udp_simps)
  ultimately show ?thesis using udp_reachable.step [OF r] by simp
qed

lemma rtranclp_reachable: "(udp_step E U)\<^sup>*\<^sup>* s s' \<Longrightarrow> udp_reachable E U n s \<Longrightarrow> udp_reachable E U n s'"
  by (induction rule: rtranclp_induct) (auto intro: udp_reachable.step)

text \<open>Three copies of the answer; the call takes the first, the second stays in the channel.\<close>

lemma stuck_reachable:
  "\<exists>s. udp_reachable E demo_udp_env demo_udp s \<and> stuck (new_message Pong 7 no_contact) 0 s"
proof -
  let ?m = "new_message Pong 7 no_contact" let ?U = demo_udp_env let ?H = "\<lambda>k. replicate_mset k (H_Send ?m 0)"
  let ?w = "\<lambda>k. demo_waiting\<lparr>handlers := ?H k\<rparr>"
  have m: "ID (Sender ?m) = None" "TransactionID ?m = 7" by (simp_all add: new_message_def no_contact_def)
  have u: "ue_unmarshal ?U [] = Some ?m" by (simp add: demo_udp_env_def)
  have w: "un_conn (us_net (?w k)) = Some True" "gm_get (un_pending (us_net (?w k))) (TransactionID ?m) = Some 0"
    "?w k\<lparr>handlers := handlers (?w k) + {#H_Send ?m 0#}\<rparr> = ?w (Suc k)" for k
    using m(2) by (simp_all add: demo_waiting_def demo_udp_simps gm.get_set)
  have "udp_reachable E ?U demo_udp (?w k)" for k
  proof (induction k)
    case 0
    have "?w 0 = demo_waiting" by (simp add: demo_waiting_def)
    then show ?case using demo_waiting_reachable by simp
  next
    case (Suc k)
    have "(udp_step E ?U)\<^sup>*\<^sup>* (?w k) (?w (Suc k))"
      using response_arrives [OF w(1) u m(1) w(2), of E k] unfolding w(3) .
    from rtranclp_reachable [OF this Suc] show ?case .
  qed
  note r3 = this [of 3]
  let ?d1 = "demo_waiting\<lparr>handlers := ?H 2, chans := (\<lambda>_. [])(0 := [?m])\<rparr>"
  let ?d2 = "set_rpc 0 demo_ping (Leaving (Inr ?m)) (demo_waiting\<lparr>handlers := ?H 2\<rparr>)"
  let ?d3 = "?d2\<lparr>handlers := ?H 1, chans := (\<lambda>_. [])(0 := [?m])\<rparr>"
  let ?d4 = "set_rpc 0 demo_ping (Left (Inr ?m)) (?d3\<lparr>us_net := rpc_unregister (us_net ?d3) (req_tx demo_ping)\<rparr>)"
  have s1: "udp_step E ?U (?w 3) ?d1"
    using udp_step.deliver [of ?m 0 "?w 3" E ?U] by (simp add: demo_waiting_def numeral_3_eq_3 numeral_2_eq_2)
  have s2: "udp_step E ?U ?d1 ?d2"
    using udp_step.receive [of ?d1 0 demo_ping ?m "[]" E ?U] by (simp add: demo_waiting_def set_rpc_def fun_upd_idem)
  have s3: "udp_step E ?U ?d2 ?d3"
    using udp_step.deliver [of ?m 0 ?d2 E ?U] by (simp add: demo_waiting_def set_rpc_def numeral_2_eq_2)
  have s4: "udp_step E ?U ?d3 ?d4"
    using udp_step.leave [of ?d3 0 demo_ping "Inr ?m" E ?U] by (simp add: set_rpc_def)
  have "stuck ?m 0 ?d4" by (simp add: stuck_def set_rpc_def demo_waiting_def demo_ping_def)
  moreover have "udp_reachable E ?U demo_udp ?d4"
    by (rule udp_reachable.step [OF udp_reachable.step [OF udp_reachable.step [OF udp_reachable.step [OF r3 s1] s2] s3] s4])
  ultimately show ?thesis by blast
qed

lemma demo_udp_ok: "net_ok E demo_udp"
  by (simp add: net_ok_def demo_udp_simps rt_wf_New)

lemma handleMessage_cases:
  assumes "net_ok E n" and "udp_fetcher_ok E (ue_fetcher U)"
  shows "case gm_get (un_pending n) (TransactionID msg) of
      Some ch \<Rightarrow> \<exists>n' t. handleMessage E U n msg = Some (n', t, Delivered ch) \<and> net_ok E n' \<and> un_ds n' = un_ds n
    | None \<Rightarrow>
        if bad_request n msg then handleMessage E U n msg = None
        else \<exists>n' t r. handleMessage E U n msg = Some (n', t, Answered r) \<and> net_ok E n' \<and>
          (Type msg \<noteq> Store \<longrightarrow> un_ds n' = un_ds n) \<and>
          map_option Type r = reply_type (Type msg) \<and> (\<forall>x. r = Some x \<longrightarrow> reply_ok n msg x)"
proof -
  obtain n1 t where u: "updateRoutingTable n (Sender msg) = Some (n1, t)" "net_ok E n1" "net_keeps n n1" "un_ds n1 = un_ds n"
    using updateRoutingTable_ok [OF assms(1), of "Sender msg"] by blast
  have same: "un_pending n1 = un_pending n" "un_me n1 = un_me n" "un_rt n1 = None \<longleftrightarrow> un_rt n = None"
    using u(3) by (cases "un_rt n"; cases "un_rt n1"; simp add: net_keeps_def)+
  have r: "reply_ok n1 msg x = reply_ok n msg x" "bad_request n1 msg = bad_request n msg" for x
    using u(4) same by (simp_all add: reply_ok_def bad_request_def)
  note h = handle_request_ok [OF u(2) assms(2), of msg, unfolded r]
  show ?thesis
  proof (cases "gm_get (un_pending n) (TransactionID msg)")
    case (Some ch)
    then show ?thesis using u same by (simp add: handleMessage_def)
  next
    case None
    show ?thesis
    proof (cases "handle_request E U n1 msg")
      case None': None
      then show ?thesis using None u(1) same(1) h(1) by (simp add: handleMessage_def)
    next
      case (Some y)
      then obtain n2 x where y: "handle_request E U n1 msg = Some (n2, x)" by (cases y) auto
      have "handleMessage E U n msg = Some (n2, t, Answered x)"
        using None u(1) same(1) y by (simp add: handleMessage_def)
      with None y h u(4) show ?thesis by simp
    qed
  qed
qed

lemma handle_request_target: "handle_request E U n msg = Some (n1, Some r) \<Longrightarrow> TargetID r = None"
  by (cases "Type msg")
    (auto simp: handle_request_def serve_FindContact_def serve_FindData_def serve_Store_def new_message_def Let_def
      bind_eq_Some_conv split: option.splits)

lemma handleMessage_reply_target: "handleMessage E U n msg = Some (n1, t, Answered (Some r)) \<Longrightarrow> TargetID r = None"
  by (auto simp: handleMessage_def bind_eq_Some_conv split: option.splits dest: handle_request_target)

section \<open>Properties\<close>



text \<open>
  C15. A late answer to a FIND_CONTACT crashes the node that asked.  Let a node send the request of
  \<^verbatim>\<open>SendFindContactMessage\<close> to any node that has no call with the same transaction id; the answer that node makes,
  handled after the call has timed out and left \<^verbatim>\<open>pending\<close>, is taken for a new FIND_CONTACT without a target, and \<^verbatim>\<open>handleMessage\<close> panics.
\<close>

theorem late_reply_panics:
  assumes "net_ok E n" and "un_rt n \<noteq> None" and "gm_wf (un_pending n)" and "udp_fetcher_ok E (ue_fetcher U)"
    and "net_ok E' n'" and "udp_fetcher_ok E' (ue_fetcher U')" and "gm_get (un_pending n') tx = None"
    and "SendFindContact_request n tx (Some target) (Some c) = Some (Inr (address, req, timeout))"
  shows "\<exists>n2 t r. handleMessage E' U' n' req = Some (n2, t, Answered (Some r)) \<and>
    handleMessage E U (rpc_unregister n tx) r = None"
proof -
  have req: "Type req = FindContact" "TransactionID req = tx" "TargetID req = Some target"
    using assms(8) by (auto simp: SendFindContact_request_def new_message_def)
  then have "\<not> bad_request n' req" by (simp add: bad_request_def)
  with handleMessage_cases [OF assms(5,6), of req] assms(7) req obtain n2 t r where
    r: "handleMessage E' U' n' req = Some (n2, t, Answered (Some r))" "Type r = FindContact" "reply_ok n' req r"
    by (auto simp: map_option_case split: option.splits)
  have "TargetID r = None" by (rule handleMessage_reply_target [OF r(1)])
  moreover have "un_rt (rpc_unregister n tx) \<noteq> None" "net_ok E (rpc_unregister n tx)"
    using assms(1,2) by (simp_all add: rpc_unregister_def net_ok_def)
  moreover have "gm_get (un_pending (rpc_unregister n tx)) (TransactionID r) = None"
    using r(3) req(2) gm.get_del [OF assms(3)] by (simp add: rpc_unregister_def reply_ok_def)
  ultimately have "handleMessage E U (rpc_unregister n tx) r = None"
    using handleMessage_cases [of E "rpc_unregister n tx" U r] assms(4) r(2) by (simp add: bad_request_def)
  with r(1) show ?thesis by blast
qed

theorem late_reply_panics_witness:
  "\<exists>n2 t r. handleMessage demo_env demo_udp_env demo_udp
        ((new_message FindContact 5 (peer []))\<lparr>TargetID := Some (mk_id [2])\<rparr>) = Some (n2, t, Answered (Some r)) \<and>
      handleMessage demo_env demo_udp_env (rpc_unregister demo_udp 5) r = None"
proof -
  have f: "udp_fetcher_ok demo_env (ue_fetcher demo_udp_env)" by (simp add: demo_udp_env_def)
  have p: "un_rt demo_udp \<noteq> None" "gm_wf (un_pending demo_udp)" "gm_get (un_pending demo_udp) 5 = None"
    by (simp_all add: demo_udp_simps gm.invar_empty gm.get_empty)
  have "SendFindContact_request demo_udp 5 (Some (mk_id [2])) (Some (peer [1])) = Some (Inr (Address (peer [1]),
      (new_message FindContact 5 (peer []))\<lparr>TargetID := Some (mk_id [2])\<rparr>, 1000000000))"
    by (simp add: SendFindContact_request_def rpc_timeout_def demo_udp_simps)
  from late_reply_panics [OF demo_udp_ok p(1,2) f demo_udp_ok f p(3) this] show ?thesis .
qed

text \<open>
  C13. Whatever packets arrive and however the goroutines interleave: a call of \<^verbatim>\<open>sendRPC\<close> returns no
  message but one with its own transaction id; \<^verbatim>\<open>pending\<close> holds exactly the calls that have not returned;
  table and store stay sound; and from every state all calls can return, after which \<^verbatim>\<open>pending\<close> is empty.
\<close>

theorem sendRPC_matching:
  assumes "udp_reachable E U n s" and "un_pending n = gm_empty" and "net_ok E n"
    and "\<forall>rt. un_rt n = Some rt \<longrightarrow> evict_inv i \<lparr>tbl = rt, tasks = {#}\<rparr>" and "udp_fetcher_ok E (ue_fetcher U)"
  shows "(\<forall>ch p m. rpcs s ch = Some (p, Left (Inr m)) \<longrightarrow> TransactionID m = req_tx p) \<and>
    (\<forall>tx ch. gm_get (un_pending (us_net s)) tx = Some ch \<longleftrightarrow>
       (\<exists>p pc. rpcs s ch = Some (p, pc) \<and> rpc_active pc \<and> req_tx p = tx)) \<and>
    net_ok E (us_net s) \<and>
    (\<exists>s'. (udp_step E U)\<^sup>*\<^sup>* s s' \<and> active_calls s' = {} \<and> gm_keys (un_pending (us_net s')) = [])"
proof -
  have I: "udp_inv E i s" by (rule udp_reachable_inv [OF assms])
  then have P: "pending_inv s" and R: "rpc_inv s" and N: "net_ok E (us_net s)"
    by (simp_all add: udp_inv_def node_inv_def)
  obtain s' where s': "(udp_step E U)\<^sup>*\<^sup>* s s'" "active_calls s' = {}" "udp_inv E i s'"
    using calls_drain [OF I assms(5)] by blast
  have P': "pending_inv s'" using s'(3) by (simp add: udp_inv_def)
  have "gm_get (un_pending (us_net s')) tx = None" for tx
  proof (cases "gm_get (un_pending (us_net s')) tx")
    case (Some ch)
    then have "ch \<in> active_calls s'" using pending_invD(3) [OF P', of tx ch] unfolding active_calls_def by blast
    with s'(2) show ?thesis by simp
  qed
  then have "tx \<notin> set (gm_keys (un_pending (us_net s')))" for tx using gm.keys_iff [of tx] by blast
  then have "set (gm_keys (un_pending (us_net s'))) = {}" by (intro equals0I) simp
  then have "gm_keys (un_pending (us_net s')) = []" by simp
  moreover have "TransactionID m = req_tx p" if "rpcs s ch = Some (p, Left (Inr m))" for ch p m
    using rpc_invD(3) [OF R that] by simp
  ultimately show ?thesis using pending_invD(3) [OF P] N s'(1,2) by blast
qed

theorem sendRPC_matching_witness:
  "\<exists>s'. (udp_step demo_env demo_udp_env)\<^sup>*\<^sup>* demo_waiting s' \<and> active_calls s' = {} \<and> gm_keys (un_pending (us_net s')) = []"
proof -
  have i: "\<forall>rt. un_rt demo_udp = Some rt \<longrightarrow> evict_inv (cid (peer [])) \<lparr>tbl = rt, tasks = {#}\<rparr>"
    using evict_inv_start [of "peer []"] by (simp add: demo_udp_simps)
  have f: "udp_fetcher_ok demo_env (ue_fetcher demo_udp_env)" by (simp add: demo_udp_env_def)
  show ?thesis
    using sendRPC_matching [OF demo_waiting_reachable demo_udp_simps(5) demo_udp_ok i f] by blast
qed

text \<open>
  C19. A goroutine can be lost for good.  There is a run in which a response arrives three times and its call returns
  with the first copy; the second fills the channel, and the goroutine of the third waits to send into it in
  every later state, whatever happens.
\<close>

theorem duplicate_response_leak:
  "\<exists>s. udp_reachable E demo_udp_env demo_udp s \<and>
     {s'. (udp_step E demo_udp_env)\<^sup>*\<^sup>* s s'} \<subseteq> {s'. H_Send (new_message Pong 7 no_contact) 0 \<in># handlers s' \<and>
       chans s' 0 \<noteq> [] \<and> (\<exists>p r. rpcs s' 0 = Some (p, Left r))}"
proof -
  obtain s where s: "udp_reachable E demo_udp_env demo_udp s" "stuck (new_message Pong 7 no_contact) 0 s"
    using stuck_reachable by blast
  have "stuck (new_message Pong 7 no_contact) 0 s'" if "(udp_step E demo_udp_env)\<^sup>*\<^sup>* s s'" for s'
    by (rule stuck_forever [OF that s(2)])
  with s(1) show ?thesis unfolding stuck_def by blast
qed

end
