(* ===== verification/Node_Main.thy ===== *)
theory Node_Main
  imports Node_Publish Kad_UDP
begin

text \<open>
  \<^verbatim>\<open>Execute\<close> and \<^verbatim>\<open>Run\<close> of \<^verbatim>\<open>src/cmd/node/cli.go\<close> over all commands, and how \<^verbatim>\<open>src/cmd/node/main.go\<close> sets up a node.
  The texts of the banner and of the help are not modelled.
\<close>

section \<open>The command loop\<close>

text \<open>\<^verbatim>\<open>Execute\<close>: whether the session ends, and the result.  Only EXIT and QUIT end it.\<close>

definition CLI_Execute ::
  "'e key_env_scheme \<Rightarrow> host_env \<Rightarrow> 'w CLI \<Rightarrow> string \<Rightarrow> 'w cli_state \<Rightarrow> ((bool \<times> (cli_error + report)) \<times> 'w cli_state) option" where
  "CLI_Execute E H C line s =
     (let stay = map_option (\<lambda>(r, s1). ((False, r), s1)); input = TrimSpace line in
      if input = [] then Some ((False, Inr Silent), s)
      else (case splitCommandArgs input of
        [] \<Rightarrow> Some ((False, Inr Silent), s)
      | c # args \<Rightarrow>
          (let cmd = ToUpper E c in
           if cmd = ''EXIT'' \<or> cmd = ''QUIT'' then Some ((True, Inr Bye), s)
           else if cmd = ''HELP'' \<or> cmd = ''?'' then Some ((False, Inr Help), s)
           else if cmd = ''PING'' then stay (HandlePing E C args s)
           else if cmd = ''PUT'' then stay (HandlePut E H C args s)
           else if cmd = ''GET'' then stay (HandleGet E H C args s)
           else if cmd = ''FORGET'' then stay (HandleForget E C args s)
           else if cmd = ''SHOW'' then stay (HandleShow E C args s)
           else if cmd = ''RT'' \<or> cmd = ''ROUTING'' then stay (HandleShow E C [''rt''] s)
           else if cmd = ''DS'' \<or> cmd = ''DATASTORE'' then stay (HandleShow E C [''ds''] s)
           else if cmd = ''PUBLISH'' then stay (HandlePublish E H C args s)
           else if cmd = ''INSTALL'' then stay (HandleInstall E H C args s)
           else if cmd = ''KEYGEN'' then stay (HandleKeygen E H C args s)
           else if cmd = ''SET'' then stay (HandleSet E C args s)
           else Some ((False, Inl ErrUnknownCommand), s))))"

text \<open>The banner shows the identifier and the address of the node when it has them.\<close>

definition ShowBanner :: "'e key_env_scheme \<Rightarrow> 'w CLI \<Rightarrow> 'w cli_state \<Rightarrow> report" where
  "ShowBanner E C s =
     (case cs_kad E C s of
        None \<Rightarrow> Banner (None, ''uninitialized'')
      | Some N \<Rightarrow>
          (case ID (op_Me N) of
             None \<Rightarrow> Banner (None, ''uninitialized'')
           | Some i \<Rightarrow> Banner (Some (KademliaID_String i), Address (op_Me N))))"

text \<open>
  \<^verbatim>\<open>Run\<close>: a list of the lines the scanner delivers, each with the host at that time; it is over when the input ends, cannot be read
  or has a line longer than the buffer.
\<close>

fun run_lines ::
  "'e key_env_scheme \<Rightarrow> 'w CLI \<Rightarrow> (string \<times> host_env) list \<Rightarrow> 'w cli_state \<Rightarrow> ((cli_error + report) list \<times> 'w cli_state) option" where
  "run_lines E C [] s = Some ([], s)"
| "run_lines E C ((line, H) # rest) s =
     (case CLI_Execute E H C line s of
        None \<Rightarrow> None
      | Some ((shouldExit, r), s1) \<Rightarrow>
          if shouldExit then Some ([r], s1)
          else map_option (\<lambda>(rs, s2). (r # rs, s2)) (run_lines E C rest s1))"

definition CLI_Run ::
  "'e key_env_scheme \<Rightarrow> 'w CLI \<Rightarrow> (string \<times> host_env) list \<Rightarrow> 'w cli_state \<Rightarrow> ((cli_error + report) list \<times> 'w cli_state) option" where
  "CLI_Run E C ls s = map_option (\<lambda>(rs, s1). (Inr (ShowBanner E C s) # rs, s1)) (run_lines E C ls s)"

section \<open>Setting up a node\<close>

text \<open>The settings read from the environment; a port that is no number is 0.\<close>

record node_settings =
  ns_ip :: string
  ns_port :: int
  ns_keysDir :: string
  ns_bootstrap :: "Contact option"

definition read_settings :: "'e crypto_env_scheme \<Rightarrow> (string \<Rightarrow> string) \<Rightarrow> string \<Rightarrow> node_settings" where
  "read_settings E os_Getenv localIP =
     (let port = fst (Atoi (getEnv os_Getenv ''PORT'' ''8000''));
          bootstrapIP = os_Getenv ''BOOTSTRAP_IP'';
          bootstrapAddr = bootstrapIP @ '':'' @ dec_int port in
      \<lparr>ns_ip = getEnv os_Getenv ''IP'' ''0.0.0.0'', ns_port = port, ns_keysDir = getEnv os_Getenv ''KEYS_DIR'' ''./keys'',
       ns_bootstrap =
         (if bootstrapIP \<noteq> [] \<and> bootstrapIP \<noteq> localIP
          then Some (NewContact (Some (NewKademliaIDFromAddress (sha256 E) bootstrapAddr)) bootstrapAddr) else None)\<rparr>)"

text \<open>The addresses of the interfaces: whether each is an IP network, a loopback one, of version 4, and its text.\<close>

record net_addr =
  na_ipnet :: bool
  na_loopback :: bool
  na_v4 :: bool
  na_text :: string

fun local_ip :: "net_addr list \<Rightarrow> string option" where
  "local_ip [] = None"
| "local_ip (a # as) = (if na_ipnet a \<and> \<not> na_loopback a \<and> na_v4 a then Some (na_text a) else local_ip as)"

text \<open>The public keys of the stored domains are copied into the resolver; those that do not load are left out.\<close>

fun load_keys :: "'e key_env_scheme \<Rightarrow> string list \<Rightarrow> NodeDNSResolver \<Rightarrow> key_state \<Rightarrow> NodeDNSResolver \<times> key_state" where
  "load_keys E [] r ks = (r, ks)"
| "load_keys E (domain # domains) r ks =
     (case KeyManager_Load E domain ks of
        (Inr dkp, ks1) \<Rightarrow> load_keys E domains (snd (Node_SetKey E r domain (dkp_PublicKey dkp))) ks1
      | (Inl _, ks1) \<Rightarrow> load_keys E domains r ks1)"

record created_node =
  cn_me :: Contact
  cn_network :: UDPNetwork
  cn_keys :: key_state
  cn_resolver :: NodeDNSResolver

text \<open>
  \<^verbatim>\<open>createNode\<close>.  \<open>bound\<close>: the socket can be opened; \<open>made\<close>: the directory of the keys exists or can be made;
  \<open>listed\<close>: it can be read; \<open>d\<close>: its files.  A directory that cannot be made is replaced by keys in memory.  \<^verbatim>\<open>NewKademlia\<close> gets the contact, network, table and
  store that are returned here, and the number of parallel probes by default.
\<close>

definition createNode ::
  "'e key_env_scheme \<Rightarrow> udp_env \<Rightarrow> (string \<Rightarrow> string list option) \<Rightarrow> bool \<Rightarrow> bool \<Rightarrow> bool \<Rightarrow> disk \<Rightarrow>
   string \<Rightarrow> string \<Rightarrow> int \<Rightarrow> string \<Rightarrow> net_error + created_node" where
  "createNode E U lookupTXT bound made listed d localIP ip port keysDir =
     (let listenAddr = localIP @ '':'' @ dec_int port;
          me = NewContact (Some (NewKademliaIDFromAddress (sha256 E) listenAddr)) listenAddr;
          network = NewUDPNetwork me (Some (NewRoutingTable me)) (Some (ds_data (NewDataStore :: unit DataStore))) in
      case Listen U bound network (ip @ '':'' @ dec_int port) of
        (Inl e, _) \<Rightarrow> Inl e
      | (Inr _, network) \<Rightarrow>
          (let (km, d1) = (case NewKeyManager made keysDir of
                 Inr km \<Rightarrow> (km, d)
               | Inl _ \<Rightarrow> (\<lparr>km_baseDir = [], km_keys = gm_empty\<rparr>, d));
               r = SetKeyManager (NewNodeDNSResolver lookupTXT) True;
               (r1, ks) = load_keys E (KeyManager_ListDomains E listed (km, d1)) r (km, d1) in
           Inr \<lparr>cn_me = me, cn_network = network, cn_keys = ks, cn_resolver = r1\<rparr>))"

text \<open>The session of a node: its own network operations over the world \<open>w\<close> of its peers.\<close>

definition NewCLI :: "(DNSResolver \<Rightarrow> 'w node_ops) option \<Rightarrow> (KademliaID \<Rightarrow> 'w \<Rightarrow> bool \<times> 'w) \<Rightarrow> bool \<Rightarrow> bool \<Rightarrow> 'w CLI" where
  "NewCLI kad del km resolver = \<lparr>cli_Kad = kad, cli_Delete = del, cli_KM = km, cli_Resolver = resolver\<rparr>"

section \<open>What a new node knows\<close>

lemma load_keys_keeps:
  "load_keys E ds r ks = (r1, ks1) \<Longrightarrow> km_view E ks1 = km_view E ks \<and> nd_km r1 = nd_km r"
proof (induction ds arbitrary: r ks)
  case (Cons d ds)
  obtain x ks2 where l: "KeyManager_Load E d ks = (x, ks2)" by (cases "KeyManager_Load E d ks")
  have v: "km_view E ks2 = km_view E ks" using Load_keeps(1) [of E d ks] l by simp
  have k: "nd_km (snd (Node_SetKey E r d pub)) = nd_km r" for pub by (simp add: Node_SetKey_def split: sum.split)
  from Cons.prems l Cons.IH v k show ?case by (cases x) fastforce+
qed simp

text \<open>
  A new node owns its stored keys: for every domain with a key in the key directory the resolver answers with its public key,
  and the node listens under the identifier of its address.
\<close>

lemma createNode_owner:
  assumes "createNode E U txt bound True listed d localIP ip port keysDir = Inr n"
    and "km_view E (\<lparr>km_baseDir = keysDir, km_keys = gm_empty\<rparr>, d) (NormalizeDomain E domain) = Some k"
    and "length (dkp_PublicKey k) = PublicKeySize" and "NormalizeDomain E domain \<noteq> []"
    and "IsValidDomain E (NormalizeDomain E domain)" and "NormalizeDomain E (NormalizeDomain E domain) = NormalizeDomain E domain"
  shows "owner_of E (cn_resolver n, cn_keys n) domain = Inr (dkp_PublicKey k)"
    and "ID (cn_me n) = Some (NewKademliaIDFromAddress (sha256 E) (Address (cn_me n)))" and "un_conn (cn_network n) = Some True"
proof -
  let ?ks = "(\<lparr>km_baseDir = keysDir, km_keys = gm_empty\<rparr>, d)"
  obtain r1 ks where l: "load_keys E (KeyManager_ListDomains E listed ?ks) (SetKeyManager (NewNodeDNSResolver txt) True) ?ks = (r1, ks)"
    by (cases "load_keys E (KeyManager_ListDomains E listed ?ks) (SetKeyManager (NewNodeDNSResolver txt) True) ?ks")
  have n: "cn_resolver n = r1" "cn_keys n = ks" "un_conn (cn_network n) = Some True"
    "ID (cn_me n) = Some (NewKademliaIDFromAddress (sha256 E) (Address (cn_me n)))"
    using assms(1) l by (auto simp: createNode_def NewKeyManager_def NewContact_def Listen_def Let_def split: if_splits)
  note kp = load_keys_keeps [OF l]
  have "fst (KeyManager_Load E (NormalizeDomain E domain) ks) = Inr k"
    using kp assms(2,5,6) by (simp add: Load_view)
  then have "km_key E (r1, ks) (NormalizeDomain E domain) = Some (dkp_PublicKey k)"
    using kp assms(3) by (simp add: km_key_def sized_def SetKeyManager_def)
  then show "owner_of E (cn_resolver n, cn_keys n) domain = Inr (dkp_PublicKey k)"
    using assms(4) n by (simp add: owner_of_eq)
  show "ID (cn_me n) = Some (NewKademliaIDFromAddress (sha256 E) (Address (cn_me n)))" "un_conn (cn_network n) = Some True"
    using n by simp_all
qed

end
