(* ===== verification/Node_Session.thy ===== *)
theory Node_Session
  imports Node_Main
begin

text \<open>
  A session at the command line of \<^verbatim>\<open>src/cmd/node/cli.go\<close>: over a node that meets its contract, every command
  returns a result or an error, except \<^verbatim>\<open>ping\<close>, which reads the sender of an answer without looking
  whether it has an identifier, and a forced \<^verbatim>\<open>publish\<close>.  The locale \<open>cli_node\<close> says what the commands
  rely on.
\<close>

section \<open>Computations that return\<close>

definition returns :: "('s \<Rightarrow> bool) \<Rightarrow> ('r \<times> 's) option \<Rightarrow> bool" where
  "returns P x \<longleftrightarrow> (\<exists>r s. x = Some (r, s) \<and> P s)"

lemma returns_simps [simp]: "returns P (Some y) \<longleftrightarrow> P (snd y)" "\<not> returns P None"
  by (cases y) (simp_all add: returns_def)

lemma returns_bind:
  "returns P x \<Longrightarrow> (\<And>r s. x = Some (r, s) \<Longrightarrow> P s \<Longrightarrow> returns Q (f (r, s))) \<Longrightarrow> returns Q (Option.bind x f)"
  by (auto simp: returns_def)

lemma returns_map:
  "returns P x \<Longrightarrow> (\<And>r s. x = Some (r, s) \<Longrightarrow> P s \<Longrightarrow> Q (snd (f (r, s)))) \<Longrightarrow> returns Q (map_option f x)"
  by (auto simp: returns_def) (metis prod.collapse)

lemma returns_tag [simp]: "returns P (map_option (\<lambda>(r, s). (f r, s)) x) = returns P x"
  by (cases x) auto

lemma returns_option: "x \<noteq> None \<Longrightarrow> (\<And>i. P (snd (f i))) \<Longrightarrow> returns P (map_option f x)"
  by (auto simp: returns_def) (metis prod.collapse)

lemma returnsE:
  assumes "returns P x"
  obtains r s where "x = Some (r, s)" and "P s"
  using assms by (auto simp: returns_def)

lemma those_map_Some: "(\<And>x. x \<in> set xs \<Longrightarrow> f x \<noteq> None) \<Longrightarrow> those (map f xs) \<noteq> None"
  by (induction xs) (auto split: option.split)

section \<open>The private keys of a session\<close>

text \<open>
  \<^verbatim>\<open>ed25519.Sign\<close> panics on a key of another length.  Keys that are decoded have the right one, because
  \<^verbatim>\<open>ed25519.NewKeyFromSeed\<close> makes such keys.
\<close>

definition seeds_ok :: "'e crypto_env_scheme \<Rightarrow> bool" where
  "seeds_ok E \<longleftrightarrow> (\<forall>s. length s = SeedSize \<longrightarrow> length (ed25519_NewKeyFromSeed E s) = PrivateKeySize)"

definition keys_sized :: "key_state \<Rightarrow> bool" where
  "keys_sized ks \<longleftrightarrow> (\<forall>d k. gm_get (km_keys (fst ks)) d = Some k \<longrightarrow> length (dkp_PrivateKey k) = PrivateKeySize)"

lemma keys_sizedD: "keys_sized ks \<Longrightarrow> gm_get (km_keys (fst ks)) d = Some k \<Longrightarrow> length (dkp_PrivateKey k) = PrivateKeySize"
  unfolding keys_sized_def by blast

lemma keys_sized_set:
  "keys_sized (km, d) \<Longrightarrow> length (dkp_PrivateKey k) = PrivateKeySize \<Longrightarrow>
   keys_sized (km\<lparr>km_keys := gm_set n k (km_keys km)\<rparr>, d')"
  by (auto simp: keys_sized_def gm.get_set)

lemma keys_sized_disk: "keys_sized (km, d) \<Longrightarrow> keys_sized (km, d')"
  by (simp add: keys_sized_def)

lemma LoadDomainKeyPair_sized:
  assumes "seeds_ok E" and "LoadDomainKeyPair E f d = Inr k"
  shows "length (dkp_PrivateKey k) = PrivateKeySize"
proof -
  obtain t where "DecodePrivateKeyHex E t = Inr (dkp_PrivateKey k)"
    using assms(2) by (auto simp: LoadDomainKeyPair_def err_bind_def split: option.splits sum.splits)
  then show ?thesis
    using assms(1) by (auto simp: DecodePrivateKeyHex_def seeds_ok_def Let_def split: prod.splits if_splits)
qed

lemma Load_sized:
  assumes "seeds_ok E" and "keys_sized ks"
  shows "keys_sized (snd (KeyManager_Load E domain ks))"
    and "fst (KeyManager_Load E domain ks) = Inr k \<Longrightarrow> length (dkp_PrivateKey k) = PrivateKeySize"
proof -
  obtain km d where ks: "ks = (km, d)" by (cases ks)
  note l = LoadDomainKeyPair_sized [OF assms(1)] and s = keys_sizedD [OF assms(2), unfolded ks fst_conv]
  show "keys_sized (snd (KeyManager_Load E domain ks))"
    using assms(2) l keys_sized_set [of km d] unfolding ks
    by (auto simp: KeyManager_Load_def Let_def split: sum.splits option.splits)
  show "length (dkp_PrivateKey k) = PrivateKeySize" if "fst (KeyManager_Load E domain ks) = Inr k"
    using that l s unfolding ks
    by (auto simp: KeyManager_Load_def Let_def split: sum.splits option.splits if_splits)
qed

lemma LookupOwner_sized:
  assumes "seeds_ok E" and "keys_sized (snd st)"
  shows "keys_sized (snd (snd (Node_LookupOwnerKey E domain st)))"
proof -
  obtain r ks where st: "st = (r, ks)" by (cases st)
  obtain found ks1 where f: "(if nd_km r then KeyManager_Load E (NormalizeDomain E domain) ks else (Inl ErrKeyNotFound, ks)) = (found, ks1)"
    by (cases "if nd_km r then KeyManager_Load E (NormalizeDomain E domain) ks else (Inl ErrKeyNotFound, ks)")
  have "keys_sized ks1" using f Load_sized(1) [OF assms(1), of ks "NormalizeDomain E domain"] assms(2) st by (auto split: if_splits)
  with assms(2) st f show ?thesis by (auto simp: Node_LookupOwnerKey_def Let_def split: option.splits)
qed

lemma Generate_sized:
  assumes "keys_sized ks" and "\<And>pub priv. keys = Inr (pub, priv) \<Longrightarrow> length priv = PrivateKeySize"
  shows "keys_sized (snd (KeyManager_Generate E keys now outcome domain ks))"
proof (cases "GenerateDomainKeyPair E keys now domain")
  case (Inl e)
  then show ?thesis using assms(1) by (simp add: KeyManager_Generate_def)
next
  case (Inr k)
  obtain km d where ks: "ks = (km, d)" by (cases ks)
  have "length (dkp_PrivateKey k) = PrivateKeySize"
    using Inr assms(2) by (auto simp: GenerateDomainKeyPair_def Let_def err_bind_def split: if_splits sum.splits)
  then show ?thesis
    using Inr keys_sized_set [of km d] keys_sized_disk [of km d] assms(1) unfolding ks
    by (auto simp: KeyManager_Generate_def KeyManager_Save_def Let_def split: prod.splits sum.splits)
qed


lemma Sign_total:
  assumes "length priv = PrivateKeySize"
  shows "VersionRecord_Sign E vr priv \<noteq> None" and "LatestPointer_Sign E lp priv \<noteq> None"
  using assms by (auto simp: VersionRecord_Sign_def LatestPointer_Sign_def Sign_def split: option.split prod.split sum.split)

lemma publish_loop_force:
  "publish_loop args f = Inr f' \<Longrightarrow> ''--force'' \<notin> set args \<Longrightarrow> pf_force f' = pf_force f"
  by (induction args f rule: publish_loop.induct) (auto split: if_splits list.splits)

lemma publish_args_force: "publish_args E H args = Inr (f, rest) \<Longrightarrow> ''--force'' \<notin> set args \<Longrightarrow> \<not> pf_force f"
  by (auto simp: publish_args_def err_bind_def dest!: publish_loop_force split: sum.splits prod.splits)

section \<open>The commands return\<close>

definition session_ok :: "('w \<Rightarrow> bool) \<Rightarrow> 'w cli_state \<Rightarrow> bool" where
  "session_ok valid s \<longleftrightarrow> valid (cs_world s) \<and> keys_sized (cs_keys s)"

lemma session_ok_simps [simp]:
  "session_ok valid (s\<lparr>cs_world := w\<rparr>) \<longleftrightarrow> valid w \<and> keys_sized (cs_keys s)"
  "session_ok valid (s\<lparr>cs_files := fs\<rparr>) = session_ok valid s" "session_ok valid (s\<lparr>cs_dns := r\<rparr>) = session_ok valid s"
  "session_ok valid (s\<lparr>cs_keys := ks\<rparr>) \<longleftrightarrow> valid (cs_world s) \<and> keys_sized ks"
  by (simp_all add: session_ok_def)

lemma session_okD: "session_ok valid s \<Longrightarrow> valid (cs_world s)" "session_ok valid s \<Longrightarrow> keys_sized (cs_keys s)"
  by (simp_all add: session_ok_def)

lemma session_ok_write: "session_ok valid s \<Longrightarrow> cs_write H f d s = (ok, s1) \<Longrightarrow> session_ok valid s1"
  by (auto simp: cs_write_def split: if_splits)

text \<open>The host gives private keys of the right length.\<close>

definition host_ok :: "host_env \<Rightarrow> bool" where
  "host_ok H \<longleftrightarrow> (\<forall>pub priv. he_keys H = Inr (pub, priv) \<longrightarrow> length priv = PrivateKeySize)"

text \<open>A line that is neither a \<^verbatim>\<open>ping\<close> nor a forced \<^verbatim>\<open>publish\<close>.\<close>

definition plain_line :: "'e unicode_env_scheme \<Rightarrow> string \<Rightarrow> bool" where
  "plain_line E line \<longleftrightarrow>
     (case splitCommandArgs (TrimSpace line) of
        [] \<Rightarrow> True
      | c # args \<Rightarrow> ToUpper E c \<noteq> ''PING'' \<and> \<not> (ToUpper E c = ''PUBLISH'' \<and> ''--force'' \<in> set args))"

text \<open>
  What a session relies on: its node, whatever owners its resolver gives, meets the contract of a node and knows its own
  identifier; a value can be deleted.
\<close>

locale cli_node =
  fixes E :: "'e key_env_scheme" and C :: "'w CLI" and K :: "DNSResolver \<Rightarrow> 'w node_ops" and valid :: "'w \<Rightarrow> bool"
  assumes kad: "cli_Kad C = Some K"
    and node: "kad_store E (K ow) valid (\<lambda>_. True)"
    and self: "valid w \<Longrightarrow> ID (op_Me (K ow)) \<noteq> None"
    and delete: "valid w \<Longrightarrow> op_has_ds (K ow) \<Longrightarrow> valid (snd (cli_Delete C k w))"
    and seeds: "valid w \<Longrightarrow> seeds_ok E"
begin

abbreviation ok :: "'w cli_state \<Rightarrow> bool" where
  "ok \<equiv> session_ok valid"

lemma cs_kad_eq [simp]: "cs_kad E C s = Some (K (cs_owner E s))"
  by (simp add: cs_kad_def kad)

lemma looked_up_ok: "ok s \<Longrightarrow> ok (cs_looked_up E d s)"
  using LookupOwner_sized [of E "(cs_dns s, cs_keys s)" d] seeds
  by (auto simp: cs_looked_up_def session_ok_def split: prod.splits)

lemma store_returns: "valid w \<Longrightarrow> returns valid (Kademlia_Store E (K ow) d w)"
  unfolding returns_def by (rule Kademlia_Store_keeps [OF node])

lemma pointer_returns: "valid w \<Longrightarrow> returns valid (LookupLatestPointer E (K ow) d p w)"
  unfolding returns_def by (rule LookupLatestPointer_keeps [OF node])

lemma store_pointer_returns: "valid w \<Longrightarrow> returns valid (StoreLatestPointer E (K ow) lp w)"
  unfolding returns_def by (rule StoreLatestPointer_keeps [OF node])

lemma data_returns:
  assumes "valid w"
  shows "returns valid (LookupDataByID E (K ow) t w)"
    and "LookupDataByID E (K ow) t w = Some (Inr (d, c), w') \<Longrightarrow> ID c \<noteq> None"
  using LookupDataByID_keeps [OF node assms, of ow t] self [OF assms, of ow] by (auto simp: returns_def)

lemma walk_valid: "valid w \<Longrightarrow> Kademlia_WalkVersionChain E (K ow) h w = (r, w') \<Longrightarrow> valid w'"
  using Walk_keeps [OF node, of w ow h] by simp

lemma deleted_valid: "valid w \<Longrightarrow> op_has_ds (K ow) \<Longrightarrow> cli_Delete C k w = (b, w') \<Longrightarrow> valid w'"
  using delete [of w ow k] by simp

lemma check_pointer_session: "ok s \<Longrightarrow> check_pointer E C lp s = (r, s1) \<Longrightarrow> ok s1"
  by (auto simp: check_pointer_def looked_up_ok split: if_splits)

lemma check_version_session: "ok s \<Longrightarrow> check_version E C vr s = (v, r, s1) \<Longrightarrow> ok s1"
  by (auto simp: check_version_def looked_up_ok split: if_splits prod.splits)

lemma check_chain_session: "ok s \<Longrightarrow> check_chain E C vrs s = (r, s1) \<Longrightarrow> ok s1"
  by (induction vrs arbitrary: s r) (auto split: prod.splits dest: check_version_session)

lemma find_version_session: "ok s \<Longrightarrow> find_version E C v vrs s = (r, s1) \<Longrightarrow> ok s1"
proof (induction vrs arbitrary: s)
  case (Cons vr vrs)
  obtain vr1 c s2 where c: "check_version E C vr s = (vr1, c, s2)" by (cases "check_version E C vr s")
  have "ok s2" by (rule check_version_session [OF Cons.prems(1) c])
  with Cons.prems(2) Cons.IH [of s2] c show ?case
    by (auto split: option.splits sum.splits if_splits)
qed simp

lemma HandlePut_returns: "ok s \<Longrightarrow> returns ok (HandlePut E H C args s)"
  by (auto simp: HandlePut_def Let_def session_okD intro!: returns_map [OF store_returns])

lemma HandleGet_returns:
  assumes "ok s"
  shows "returns ok (HandleGet E H C args s)"
proof (cases args)
  case (Cons a rest)
  let ?key = "NewKademliaID (TrimSpace a)"
  obtain r w where l: "LookupDataByID E (K (cs_owner E s)) (Some ?key) (cs_world s) = Some (r, w)" "valid w"
    by (rule returnsE [OF data_returns(1) [OF session_okD(1) [OF assms]]])
  let ?s = "s\<lparr>cs_world := w\<rparr>"
  have s1: "ok ?s" using l(2) assms by (simp add: session_ok_def)
  show ?thesis
  proof (cases r)
    case (Inl e)
    with l s1 assms show ?thesis by (simp add: HandleGet_def Cons Let_def)
  next
    case (Inr p)
    obtain d c where p: "r = Inr (d, c)" using Inr by (cases p) auto
    have i: "ID c \<noteq> None" by (rule data_returns(2) [OF session_okD(1) [OF assms] l(1) [unfolded p]])
    obtain b s2 where w: "(case rest of [] \<Rightarrow> (True, ?s) | filename # _ \<Rightarrow> cs_write H filename d ?s) = (b, s2)"
      by (cases "case rest of [] \<Rightarrow> (True, ?s) | filename # _ \<Rightarrow> cs_write H filename d ?s")
    have "ok s2" using w s1 session_ok_write [OF s1] by (cases rest) auto
    with l p i w assms show ?thesis
      by (auto simp: HandleGet_def Cons Let_def intro!: returns_option)
  qed
qed (simp add: HandleGet_def assms)

lemma HandleForget_returns:
  assumes "ok s"
  shows "returns ok (HandleForget E C args s)"
  using assms deleted_valid [OF session_okD(1) [OF assms]]
  by (auto simp: HandleForget_def Let_def session_okD split: list.split prod.split)

lemma showRoutingTable_returns:
  assumes "ok s"
  shows "returns ok (showRoutingTable E C s)"
proof (cases "op_has_rt (K (cs_owner E s))")
  case True
  let ?rt = "op_rt (K (cs_owner E s)) (cs_world s)"
  let ?row = "\<lambda>c. Option.bind (GetBucketIndex ?rt (ID c)) (\<lambda>bi. map_option (\<lambda>i. (int bi, i)) (ID c))"
  have wf: "rt_wf ?rt"
    using kad_net.rt_ok [OF kad_store.axioms(1) [OF node] session_okD(1) [OF assms]] True by blast
  have "?row c \<noteq> None" if "c \<in> set (GetAllContacts ?rt)" for c
    using rt_ids [OF wf that] rt_wfD(1) [OF wf] by (auto simp: GetBucketIndex_def)
  then have "those (map ?row (GetAllContacts ?rt)) \<noteq> None"
    by (intro those_map_Some) auto
  then show ?thesis
    using True assms by (auto simp: showRoutingTable_def Let_def intro!: returns_option)
qed (use assms in \<open>simp add: showRoutingTable_def\<close>)

text \<open>The lookup of a pointer, then its signature and its chain.\<close>

lemma showPackage_returns:
  assumes "ok s"
  shows "returns ok (showPackage E C target s)"
proof (cases "\<exists>d p. Split target (CHR '':'') = [d, p]")
  case True
  then obtain d p where sp: "Split target (CHR '':'') = [d, p]" by blast
  let ?N = "K (cs_owner E s)"
  obtain r w where l: "LookupLatestPointer E ?N (NormalizeDomain E d) (TrimSpace p) (cs_world s) = Some (r, w)" "valid w"
    by (rule returnsE [OF pointer_returns [OF session_okD(1) [OF assms]]])
  then have s1: "ok (s\<lparr>cs_world := w\<rparr>)" using assms by (simp add: session_ok_def)
  show ?thesis
  proof (cases r)
    case (Inl e)
    with sp l s1 assms show ?thesis by (simp add: showPackage_def Let_def)
  next
    case (Inr x)
    then obtain lp c where x: "r = Inr (lp, c)" by (cases x) auto
    obtain sig s2 where cp: "check_pointer E C lp (s\<lparr>cs_world := w\<rparr>) = (sig, s2)"
      by (cases "check_pointer E C lp (s\<lparr>cs_world := w\<rparr>)")
    have s2: "ok s2" by (rule check_pointer_session [OF s1 cp])
    obtain chain walked w2 where wk: "Kademlia_WalkVersionChain E ?N (lp_VersionRecordHash lp) (cs_world s2) = ((chain, walked), w2)"
      by (metis prod.collapse)
    have "valid w2" by (rule walk_valid [OF session_okD(1) [OF s2] wk])
    then have s3: "ok (s2\<lparr>cs_world := w2\<rparr>)" using s2 by (simp add: session_ok_def)
    obtain checks s4 where cc: "check_chain E C chain (s2\<lparr>cs_world := w2\<rparr>) = (checks, s4)"
      by (cases "check_chain E C chain (s2\<lparr>cs_world := w2\<rparr>)")
    have "ok s4" by (rule check_chain_session [OF s3 cc])
    with sp l x cp wk cc s3 assms show ?thesis by (simp add: showPackage_def Let_def)
  qed
next
  case False
  then have "showPackage E C target s = Some (Inl ErrBadSpec, s)"
    by (auto simp: showPackage_def split: list.split)
  with assms show ?thesis by simp
qed

lemma HandleShow_returns:
  assumes "ok s"
  shows "returns ok (HandleShow E C args s)"
proof -
  have "returns ok (showDataStore E C s)" using assms by (simp add: showDataStore_def Let_def)
  moreover have "returns ok (showDNS E C d s)" for d
    using assms looked_up_ok by (simp add: showDNS_def Let_def split: sum.split)
  ultimately show ?thesis
    using assms showRoutingTable_returns showPackage_returns by (simp add: HandleShow_def Let_def split: list.split)
qed

lemma install_blob_returns:
  assumes "ok s"
  shows "returns ok (install_blob E H (K ow) vr dest s)"
proof -
  obtain r w where l: "LookupDataByID E (K ow) (Some (NewKademliaID (vr_BlobHash vr))) (cs_world s) = Some (r, w)" "valid w"
    by (rule returnsE [OF data_returns(1) [OF session_okD(1) [OF assms]]])
  let ?s = "s\<lparr>cs_world := w\<rparr>" let ?file = "if dest = [] then vr_Package vr @ ''-'' @ vr_Version vr @ ''.bin'' else dest"
  have s1: "ok ?s" using l(2) assms by (simp add: session_ok_def)
  show ?thesis
  proof (cases r)
    case (Inl e)
    with l s1 show ?thesis by (simp add: install_blob_def LookupData_def Let_def)
  next
    case (Inr p)
    then obtain d c where p: "r = Inr (d, c)" by (cases p) auto
    have i: "ID c \<noteq> None" by (rule data_returns(2) [OF session_okD(1) [OF assms] l(1) [unfolded p]])
    obtain b s2 where w: "cs_write H ?file d ?s = (b, s2)" by (cases "cs_write H ?file d ?s")
    have "ok s2" by (rule session_ok_write [OF s1 w])
    with l p i w s1 show ?thesis
      by (auto simp: install_blob_def LookupData_def Let_def intro!: returns_option)
  qed
qed

lemma install_latest_returns:
  assumes "ok s"
  shows "returns ok (install_latest E C (K ow) lp s)"
proof -
  obtain r w where l: "LookupDataByID E (K ow) (Some (NewKademliaID (lp_VersionRecordHash lp))) (cs_world s) = Some (r, w)" "valid w"
    by (rule returnsE [OF data_returns(1) [OF session_okD(1) [OF assms]]])
  have s1: "ok (s\<lparr>cs_world := w\<rparr>)" using l(2) assms by (simp add: session_ok_def)
  show ?thesis
    using l(1) s1 check_version_session [OF s1]
    by (auto simp: install_latest_def LookupData_def Let_def split: sum.split prod.split option.split)
qed

lemma install_version_session:
  assumes "ok s" and "install_version E C (K ow) lp v s = (r, s1)"
  shows "ok s1"
proof -
  obtain chain walked w where wk: "Kademlia_WalkVersionChain E (K ow) (lp_VersionRecordHash lp) (cs_world s) = ((chain, walked), w)"
    by (metis prod.collapse)
  have "valid w" by (rule walk_valid [OF session_okD(1) [OF assms(1)] wk])
  then have s2: "ok (s\<lparr>cs_world := w\<rparr>)" using assms(1) by (simp add: session_ok_def)
  show ?thesis
    using assms wk s2 find_version_session [OF s2]
    by (auto simp: install_version_def Let_def split: sum.splits prod.splits option.splits if_splits)
qed

lemma HandleInstall_returns:
  assumes "ok s"
  shows "returns ok (HandleInstall E H C args s)"
proof (cases "install_args E args")
  case (Inr a)
  then obtain domain pkg v dest where a: "install_args E args = Inr (domain, pkg, v, dest)" by (cases a) auto
  let ?N = "K (cs_owner E s)"
  obtain r w where l: "LookupLatestPointer E ?N domain pkg (cs_world s) = Some (r, w)" "valid w"
    by (rule returnsE [OF pointer_returns [OF session_okD(1) [OF assms]]])
  then have s1: "ok (s\<lparr>cs_world := w\<rparr>)" using assms by (simp add: session_ok_def)
  show ?thesis
  proof (cases r)
    case (Inl e)
    with a l s1 show ?thesis by (simp add: HandleInstall_def)
  next
    case (Inr x)
    then obtain lp c where x: "r = Inr (lp, c)" by (cases x) auto
    obtain sig s2 where cp: "check_pointer E C lp (s\<lparr>cs_world := w\<rparr>) = (sig, s2)"
      by (cases "check_pointer E C lp (s\<lparr>cs_world := w\<rparr>)")
    have s2: "ok s2" by (rule check_pointer_session [OF s1 cp])
    have "returns ok (if EqualFold E v ''latest'' then install_latest E C ?N lp s2 else Some (install_version E C ?N lp v s2))"
      using install_latest_returns [OF s2] install_version_session [OF s2] by (auto simp: prod_eq_iff)
    then obtain t s3 where t: "(if EqualFold E v ''latest'' then install_latest E C ?N lp s2
        else Some (install_version E C ?N lp v s2)) = Some (t, s3)" "ok s3"
      by (rule returnsE)
    show ?thesis
      using a l x cp s2 t install_blob_returns [OF t(2)]
      by (auto simp: HandleInstall_def split: sum.split option.split)
  qed
qed (simp add: HandleInstall_def assms)

lemma HandleKeygen_returns:
  assumes "ok s" and "host_ok H"
  shows "returns ok (HandleKeygen E H C args s)"
proof -
  have "keys_sized (snd (KeyManager_Generate E (he_keys H) (he_now H) (he_outcome H) d (cs_keys s)))" for d
    using Generate_sized [OF session_okD(2) [OF assms(1)], of "he_keys H"] assms(2) by (simp add: host_ok_def)
  with assms(1) show ?thesis
    by (auto simp: HandleKeygen_def Let_def session_okD split: list.split prod.split sum.split)
      (metis snd_conv)+
qed

lemma HandleSet_returns: "ok s \<Longrightarrow> returns ok (HandleSet E C args s)"
  by (auto simp: HandleSet_def Let_def split: list.split sum.split prod.split)

lemma publish_lp_returns:
  assumes "valid w" and "length priv = PrivateKeySize"
  shows "returns valid (publish_lp E (K ow) False priv lp w)"
proof -
  obtain x where "LatestPointer_Sign E (Some lp) priv = Some x" using Sign_total(2) [OF assms(2)] by blast
  then show ?thesis
    by (cases x) (auto simp: publish_lp_def intro!: store_pointer_returns [OF assms(1)])
qed

lemma publish_values_returns:
  assumes "valid w" and "length (dkp_PrivateKey k) = PrivateKeySize"
  shows "returns valid (publish_values E (K ow) False domain pkg ver (Some k) prev data w)"
proof -
  obtain r1 w1 where s1: "Kademlia_Store E (K ow) data w = Some (r1, w1)" "valid w1"
    by (rule returnsE [OF store_returns [OF assms(1)]])
  note sign = Sign_total(1) [OF assms(2)]
  have rest: "returns valid (Option.bind (Kademlia_Store E (K ow) bs w1) (\<lambda>(r2, w2).
      case r2 of
        Inl e \<Rightarrow> Some (Inl (ErrStoreFailed e), w2)
      | Inr vrKey \<Rightarrow>
          (case publish_pointer E False domain pkg ver rh of
             Inl e \<Rightarrow> Some (Inl e, w2)
           | Inr lp0 \<Rightarrow> map_option (\<lambda>(r3, w3). (map_sum id (\<lambda>lp. (bk, vrKey, lp)) r3, w3))
               (publish_lp E (K ow) False (dkp_PrivateKey k) lp0 w2))))" for bs rh and bk :: KademliaID
    by (rule returns_bind [OF store_returns [OF s1(2)]])
      (auto split: sum.split intro!: publish_lp_returns assms(2))
  show ?thesis
  proof (cases "\<exists>b vr0. r1 = Inr b \<and> publish_record E False domain pkg ver (ComputeBlobHash E data) prev = Inr vr0")
    case True
    then obtain b vr0 where b: "r1 = Inr b" "publish_record E False domain pkg ver (ComputeBlobHash E data) prev = Inr vr0" by blast
    obtain vr q where "VersionRecord_Sign E (Some vr0) (dkp_PrivateKey k) = Some (vr, q)"
      using sign [of E "Some vr0"] by (metis not_None_eq surj_pair)
    with s1 b rest [of _ b "hash_or_empty (RecordHash E vr)"] show ?thesis
      by (cases "VersionRecord_MarshalJSON E vr") (simp_all add: publish_values_def)
  next
    case False
    with s1 show ?thesis by (cases r1) (auto simp: publish_values_def split: sum.split)
  qed
qed

lemma publish_prev_valid: "valid w \<Longrightarrow> publish_prev E (K ow) force prev v lp w = (r, w') \<Longrightarrow> valid w'"
  by (auto simp: publish_prev_def Let_def split: option.splits if_splits prod.splits dest: walk_valid)

lemma HandlePublish_returns:
  assumes "ok s" and "''--force'' \<notin> set args"
  shows "returns ok (HandlePublish E H C args s)"
proof (cases "publish_args E H args")
  case (Inr a)
  then obtain f domain pkg ver fn data where a: "publish_args E H args = Inr (f, (domain, pkg, ver), fn, data)"
    by (metis prod.collapse)
  have f: "pf_force f = False" using publish_args_force [OF a assms(2)] by simp
  obtain found s1 where k: "publish_key E H C False domain s = (found, s1)" by (cases "publish_key E H C False domain s")
  have s1: "ok s1" using k Load_sized(1) [OF seeds [OF session_okD(1) [OF assms(1)]] session_okD(2) [OF assms(1)], of domain] assms(1)
    by (auto simp: publish_key_def Let_def session_ok_def split: if_splits prod.splits sum.splits)
  show ?thesis
  proof (cases found)
    case (Inl e)
    with a f k s1 show ?thesis by (simp add: HandlePublish_def)
  next
    case (Inr dkp)
    obtain kp where kp: "dkp = Some kp" "fst (KeyManager_Load E domain (cs_keys s)) = Inr kp"
      using publish_key_unforced(1) k Inr by blast
    have len: "length (dkp_PrivateKey kp) = PrivateKeySize"
      by (rule Load_sized(2) [OF seeds [OF session_okD(1) [OF assms(1)]] session_okD(2) [OF assms(1)] kp(2)])
    obtain o2 s2 where own: "publish_owner E C False domain dkp s1 = Some (o2, s2)" "ok s2"
      using s1 looked_up_ok [OF s1, of domain] unfolding publish_owner_def kp(1)
      by (cases "cs_owner E s1 domain"; cases "cli_Resolver C") auto
    let ?N = "K (cs_owner E s2)"
    obtain r w where l: "LookupLatestPointer E ?N domain pkg (cs_world s2) = Some (r, w)" "valid w"
      by (rule returnsE [OF pointer_returns [OF session_okD(1) [OF own(2)]]])
    obtain p w1 where p: "publish_prev E ?N False (pf_prev f) ver (case r of Inl _ \<Rightarrow> None | Inr (lp, _) \<Rightarrow> Some lp) w = (p, w1)"
      by (metis surj_pair)
    have w1: "valid w1" by (rule publish_prev_valid [OF l(2) p])
    show ?thesis
    proof (cases "\<exists>u prev. o2 = Inr u \<and> p = Inr prev")
      case True
      then obtain u prev where o: "o2 = Inr u" "p = Inr prev" by blast
      have "returns valid (publish_values E ?N False domain pkg ver (Some kp) prev data w1)"
        by (rule publish_values_returns [OF w1 len])
      with a f k Inr kp own l p o session_okD(2) [OF own(2)] show ?thesis
        by (auto simp: HandlePublish_def Let_def intro!: returns_map)
    next
      case False
      with a f k Inr own l p w1 session_okD(2) [OF own(2)] show ?thesis
        by (cases o2; cases p) (auto simp: HandlePublish_def Let_def)
    qed
  qed
qed (simp add: HandlePublish_def assms)

lemma CLI_Execute_returns:
  assumes "ok s" and "host_ok H" and "plain_line E line"
  shows "returns ok (CLI_Execute E H C line s)"
proof (cases "TrimSpace line = [] \<or> splitCommandArgs (TrimSpace line) = []")
  case True
  with assms(1) show ?thesis by (auto simp: CLI_Execute_def Let_def)
next
  case False
  then obtain c args where c: "TrimSpace line \<noteq> []" "splitCommandArgs (TrimSpace line) = c # args"
    by (meson list.exhaust)
  have plain: "ToUpper E c \<noteq> ''PING''" "ToUpper E c = ''PUBLISH'' \<Longrightarrow> ''--force'' \<notin> set args"
    using assms(3) c by (auto simp: plain_line_def)
  note h = HandlePut_returns [OF assms(1)] HandleGet_returns [OF assms(1)] HandleForget_returns [OF assms(1)]
    HandleShow_returns [OF assms(1)] HandleInstall_returns [OF assms(1)] HandleKeygen_returns [OF assms(1,2)]
    HandleSet_returns [OF assms(1)]
  show ?thesis
    using c plain assms(1) h HandlePublish_returns [OF assms(1)] by (simp add: CLI_Execute_def Let_def)
qed

lemma run_lines_returns:
  assumes "ok s" and "list_all (\<lambda>(line, H). plain_line E line \<and> host_ok H) ls"
  shows "returns ok (run_lines E C ls s)"
  using assms
proof (induction ls arbitrary: s)
  case (Cons x ls)
  obtain line H where x: "x = (line, H)" by (cases x)
  have "host_ok H" "plain_line E line" using Cons.prems(2) x by simp_all
  from CLI_Execute_returns [OF Cons.prems(1) this] obtain q s1 where e: "CLI_Execute E H C line s = Some (q, s1)" "ok s1"
    by (rule returnsE)
  obtain stop r where q: "q = (stop, r)" by (cases q)
  have "returns ok (run_lines E C ls s1)" using Cons.IH [OF e(2)] Cons.prems(2) by simp
  with e x q show ?case by simp
qed simp

lemma CLI_Run_returns:
  assumes "ok s" and "list_all (\<lambda>(line, H). plain_line E line \<and> host_ok H) ls"
  shows "\<exists>rs s'. CLI_Run E C ls s = Some (rs, s') \<and> ok s'"
  using run_lines_returns [OF assms] by (auto simp: returns_def CLI_Run_def)

end

end
