(* ===== verification/Kad_UDP_Node.thy ===== *)
theory Kad_UDP_Node
  imports Kad_UDP Kad_Node
begin

text \<open>
  A node of \<^verbatim>\<open>src/kademlia/kademlia.go\<close> over the datagram network of \<^verbatim>\<open>network.go\<close>, as
  \<^verbatim>\<open>createNode\<close> puts it together: the table and the store of the node are those of its network.  A call
  of the network runs to its end while the packets, the eviction goroutines and the other calls of the
  process take any steps they like; a schedule says which.  The node meets the contract \<open>kad_store\<close>
  under every schedule.
\<close>

section \<open>Schedules\<close>

text \<open>
  \<open>sc_env\<close>: the steps of everything else at a moment, from the state at hand; \<open>sc_uuid\<close>: what
  \<^verbatim>\<open>uuid.New\<close> draws; \<open>sc_written\<close>: whether a write to the socket succeeds; \<open>sc_order\<close>: the order in which
  the answers of a round arrive.
\<close>

record udp_sched =
  sc_env :: "nat \<Rightarrow> udp_sys \<Rightarrow> udp_sys"
  sc_uuid :: "nat \<Rightarrow> udp_sys \<Rightarrow> uuid"
  sc_written :: "nat \<Rightarrow> bool"
  sc_order :: "nat \<Rightarrow> Contact \<Rightarrow> nat"

text \<open>Everything else only takes steps of the network, and an identifier is not drawn twice.\<close>

definition sched_ok :: "'e reg_env_scheme \<Rightarrow> udp_env \<Rightarrow> udp_sched \<Rightarrow> bool" where
  "sched_ok E U S \<longleftrightarrow>
     (\<forall>t s. (udp_step E U)\<^sup>*\<^sup>* s (sc_env S t s)) \<and>
     (\<forall>t s ch. pending_inv s \<longrightarrow> owner s ch \<noteq> Some (sc_uuid S t s))"

record udp_world =
  uw_sys :: udp_sys
  uw_time :: nat

definition interleave :: "udp_sched \<Rightarrow> udp_world \<Rightarrow> udp_world" where
  "interleave S w = \<lparr>uw_sys = sc_env S (uw_time w) (uw_sys w), uw_time = Suc (uw_time w)\<rparr>"

section \<open>A call from its start to its end\<close>

text \<open>\<^verbatim>\<open>sendRPC\<close>: resolving the address and registering the response channel.\<close>

definition rpc_begin :: "udp_env \<Rightarrow> prepared \<Rightarrow> udp_sys \<Rightarrow> udp_sys" where
  "rpc_begin U p s =
     (if ue_resolves U (fst p)
      then set_rpc (next_ch s) p Registered
        (s\<lparr>us_net := rpc_register (us_net s) (req_tx p) (next_ch s), next_ch := Suc (next_ch s)\<rparr>)
      else set_rpc (next_ch s) p (Left (Inl ErrAddress)) (s\<lparr>next_ch := Suc (next_ch s)\<rparr>))"

text \<open>
  What its goroutine does next: write the request, take the response or run into the timeout, clean
  up.  In the \<^verbatim>\<open>select\<close> a response that is there is taken; the timeout may still win, as a step of the
  schedule.
\<close>

definition rpc_next :: "bool \<Rightarrow> nat \<Rightarrow> udp_sys \<Rightarrow> udp_sys" where
  "rpc_next ok ch s =
     (case rpcs s ch of
        Some (p, Registered) \<Rightarrow>
          set_rpc ch p (case rpc_write (us_net s) ok of Inl e \<Rightarrow> Leaving (Inl e) | Inr _ \<Rightarrow> Waiting) s
      | Some (p, Waiting) \<Rightarrow>
          (case chans s ch of
             [] \<Rightarrow> set_rpc ch p (Leaving (Inl ErrTimeout)) s
           | m # ms \<Rightarrow> set_rpc ch p (Leaving (Inr m)) (s\<lparr>chans := (chans s)(ch := ms)\<rparr>))
      | Some (p, Leaving r) \<Rightarrow>
          set_rpc ch p (Left r) (s\<lparr>us_net := rpc_unregister (us_net s) (req_tx p)\<rparr>)
      | _ \<Rightarrow> s)"

definition rpc_advance :: "udp_sched \<Rightarrow> nat \<Rightarrow> udp_world \<Rightarrow> udp_world" where
  "rpc_advance S ch w =
     (let w1 = interleave S w in w1\<lparr>uw_sys := rpc_next (sc_written S (uw_time w)) ch (uw_sys w1)\<rparr>)"

text \<open>\<open>None\<close> would be a call that has not returned; three advances are enough (\<open>sendRPC_returns\<close>).\<close>

definition sendRPC :: "udp_sched \<Rightarrow> udp_env \<Rightarrow> prepared \<Rightarrow> udp_world \<Rightarrow> ((net_error + RPCMessage) \<times> udp_world) option" where
  "sendRPC S U p w =
     (let ch = next_ch (uw_sys w);
          w1 = (rpc_advance S ch ^^ 3) (w\<lparr>uw_sys := rpc_begin U p (uw_sys w)\<rparr>) in
      case rpcs (uw_sys w1) ch of
        Some (_, Left r) \<Rightarrow> Some (r, w1)
      | _ \<Rightarrow> None)"

definition udp_call :: "udp_sched \<Rightarrow> udp_env \<Rightarrow> net_call \<Rightarrow> udp_world \<Rightarrow> ((net_error + RPCMessage) \<times> udp_world) option" where
  "udp_call S U call w0 =
     (let w = interleave S w0; s = uw_sys w; tx = sc_uuid S (uw_time w) s in
      case call_request (us_net s) tx call of
        None \<Rightarrow> None
      | Some (Inl e) \<Rightarrow> Some (Inl e, w)
      | Some (Inr p) \<Rightarrow> sendRPC S U p w)"

section \<open>The node\<close>

abbreviation uw_net :: "udp_world \<Rightarrow> UDPNetwork" where
  "uw_net w \<equiv> us_net (uw_sys w)"

definition uw_put :: "UDPNetwork \<Rightarrow> udp_world \<Rightarrow> udp_world" where
  "uw_put n w = w\<lparr>uw_sys := (uw_sys w)\<lparr>us_net := n\<rparr>\<rparr>"

definition uw_ds :: "udp_env \<Rightarrow> udp_world \<Rightarrow> UDPNetwork DataStore" where
  "uw_ds U w = udp_ds U (the (un_ds (uw_net w)))"

text \<open>The operations of the node; its table and its store are behind the pointers of the network.\<close>

definition udp_node :: "'e reg_env_scheme \<Rightarrow> udp_env \<Rightarrow> udp_sched \<Rightarrow> Kademlia \<Rightarrow> udp_world node_ops" where
  "udp_node E U S K = \<lparr>
     op_Me = Me K,
     op_alpha = kad_alpha K,
     op_has_rt = (kad_RoutingTable K \<noteq> None),
     op_rt = (\<lambda>w. the (un_rt (uw_net w))),
     op_set_rt = (\<lambda>rt w. uw_put ((uw_net w)\<lparr>un_rt := Some rt\<rparr>) w),
     op_has_net = (kad_Network K \<noteq> None),
     op_arrival = (\<lambda>w. sort_key (sc_order S (uw_time w))),
     op_SendPing = (\<lambda>c. udp_call S U (SendPingMessage c)),
     op_FindContact = (\<lambda>t c w. map_option (\<lambda>(r, w1). (SendFindContact_result r, w1))
       (udp_call S U (SendFindContactMessage (Some t) (Some c)) w)),
     op_FindData = (\<lambda>t c w. map_option (\<lambda>(r, w1). (SendFindData_result r, w1))
       (udp_call S U (SendFindDataMessage (Some t) (Some c)) w)),
     op_SendStore = (\<lambda>c k d w. map_option (\<lambda>(r, w1). (SendStore_result r, w1))
       (udp_call S U (SendStoreMessage (Some c) (Some k) (Some d)) w)),
     op_has_ds = (kad_DataStore K \<noteq> None),
     op_ds_Get = (\<lambda>w. DataStore_Get (uw_ds U w)),
     op_ds_Validate = (\<lambda>k d w. case DataStore_Validate E (uw_ds U w) k d (uw_net w) of
       (r, ds, n) \<Rightarrow> (r, uw_put (n\<lparr>un_ds := Some (ds_data ds)\<rparr>) w)),
     op_ds_Store = (\<lambda>k d w. map_option (\<lambda>(r, ds, n). (r, uw_put (n\<lparr>un_ds := Some (ds_data ds)\<rparr>) w))
       (DataStore_Store E (uw_ds U w) k d (uw_net w))),
     op_ds_StoreUnchecked = (\<lambda>k d w.
       uw_put ((uw_net w)\<lparr>un_ds := Some (ds_data (StoreUnchecked (uw_ds U w) k d))\<rparr>) w),
     op_ds_GetAllKeys = (\<lambda>w. GetAllKeys (uw_ds U w))\<rparr>"

section \<open>Calls return\<close>

text \<open>How far a call is from its end; no step of the network takes it back.\<close>

fun rpc_rank :: "rpc_pc \<Rightarrow> nat" where
  "rpc_rank Registered = 3"
| "rpc_rank Waiting = 2"
| "rpc_rank (Leaving r) = 1"
| "rpc_rank (Left r) = 0"

definition rpc_at :: "nat \<Rightarrow> nat \<Rightarrow> udp_sys \<Rightarrow> bool" where
  "rpc_at ch k s \<longleftrightarrow> (case rpcs s ch of None \<Rightarrow> False | Some x \<Rightarrow> rpc_rank (snd x) \<le> k)"

lemma rpc_at_Some: "rpcs s ch = Some (p, pc) \<Longrightarrow> rpc_at ch k s \<longleftrightarrow> rpc_rank pc \<le> k"
  by (simp add: rpc_at_def)

lemma rpc_at_set_rpc: "rpc_at ch k (set_rpc c p pc s) = (if c = ch then rpc_rank pc \<le> k else rpc_at ch k s)"
  by (simp add: rpc_at_def)

lemma rpc_at_frame [simp]:
  "rpc_at ch k (s\<lparr>us_net := n\<rparr>) = rpc_at ch k s" "rpc_at ch k (s\<lparr>next_ch := m\<rparr>) = rpc_at ch k s"
  "rpc_at ch k (s\<lparr>chans := c\<rparr>) = rpc_at ch k s" "rpc_at ch k (s\<lparr>handlers := h\<rparr>) = rpc_at ch k s"
  "rpc_at ch k (s\<lparr>evictions := v\<rparr>) = rpc_at ch k s" "rpc_at ch k (s\<lparr>sent := l\<rparr>) = rpc_at ch k s"
  by (simp_all add: rpc_at_def)

lemma rpc_at_step:
  assumes "udp_step E U s s'" and "pending_inv s" and "rpc_at ch k s"
  shows "rpc_at ch k s'"
proof -
  have n: "next_ch s \<noteq> ch" using assms(2,3) pending_invD(1) [of s ch] by (auto simp: rpc_at_def)
  from assms(1) show ?thesis
  proof cases
    case (written c p ok)
    with assms(3) show ?thesis
      by (cases "c = ch") (simp_all add: rpc_at_set_rpc rpc_at_Some split: sum.split)
  qed (use assms(3) n in \<open>auto simp: rpc_at_set_rpc rpc_at_Some\<close>)
qed

lemma udp_steps_inv:
  assumes "(udp_step E U)\<^sup>*\<^sup>* s s'" and "udp_fetcher_ok E (ue_fetcher U)" and "udp_inv E i s"
  shows "udp_inv E i s' \<and> (rpc_at ch k s \<longrightarrow> rpc_at ch k s')"
  using assms(1)
proof (induction rule: rtranclp_induct)
  case (step s1 s2)
  then have "pending_inv s1" by (simp add: udp_inv_def)
  with step udp_step_inv [OF step(2) _ assms(2)] rpc_at_step [OF step(2)] show ?case by blast
qed (use assms(3) in simp)

lemma rpc_begin_step:
  assumes "call_request (us_net s) tx call = Some (Inr p)" and "\<forall>ch. owner s ch \<noteq> Some tx"
  shows "udp_step E U s (rpc_begin U p s)"
  using udp_step.send [OF assms, of E U] unfolding rpc_begin_def call_request_tx [OF assms(1)] .

lemma rpc_next_step:
  assumes "rpc_at ch (Suc k) s"
  shows "(udp_step E U)\<^sup>*\<^sup>* s (rpc_next ok ch s)" and "rpc_at ch k (rpc_next ok ch s)"
proof -
  obtain p pc where p: "rpcs s ch = Some (p, pc)" "rpc_rank pc \<le> Suc k"
    using assms by (auto simp: rpc_at_def split: option.splits)
  have "udp_step E U s (rpc_next ok ch s) \<or> rpc_next ok ch s = s"
    using p(1) udp_step.written [of s ch p E U ok] udp_step.receive [of s ch p _ _ E U] udp_step.expire [of s ch p E U]
      udp_step.leave [of s ch p _ E U]
    by (cases pc) (auto simp: rpc_next_def split: list.split)
  then show "(udp_step E U)\<^sup>*\<^sup>* s (rpc_next ok ch s)" by auto
  show "rpc_at ch k (rpc_next ok ch s)"
    using p by (cases pc) (auto simp: rpc_next_def rpc_at_set_rpc rpc_at_Some split: list.split sum.split)
qed

text \<open>The state of a network whose node has a table and a store.\<close>

definition udp_node_inv :: "'e reg_env_scheme \<Rightarrow> KademliaID \<Rightarrow> udp_sys \<Rightarrow> bool" where
  "udp_node_inv E i s \<longleftrightarrow> udp_inv E i s \<and> un_rt (us_net s) \<noteq> None \<and> un_ds (us_net s) \<noteq> None"


lemma un_rt_keeps: "net_keeps n n' \<Longrightarrow> un_rt n' = None \<longleftrightarrow> un_rt n = None"
  by (cases "un_rt n"; cases "un_rt n'") (simp_all add: net_keeps_def)

lemma udp_step_pointers:
  assumes "udp_step E U s s'" and "net_ok E (us_net s)" and "udp_fetcher_ok E (ue_fetcher U)"
  shows "un_rt (us_net s') = None \<longleftrightarrow> un_rt (us_net s) = None" and "un_ds (us_net s') = None \<longleftrightarrow> un_ds (us_net s) = None"
proof -
  from assms(1) have "(un_rt (us_net s') = None \<longleftrightarrow> un_rt (us_net s) = None) \<and>
    (un_ds (us_net s') = None \<longleftrightarrow> un_ds (us_net s) = None)"
  proof cases
    case (refresh msg raddr n t)
    with updateRoutingTable_ok [OF assms(2), of "Sender msg"] show ?thesis by (auto dest: un_rt_keeps)
  next
    case (serve msg raddr n r)
    from handle_request_ok(2) [OF assms(2,3) serve(3)] serve(1) show ?thesis by (auto dest: un_rt_keeps)
  qed (auto simp: rpc_register_def rpc_unregister_def un_rt_keeps [OF net_keeps_close(1)] un_rt_keeps [OF net_keeps_timeout(1)])
  then show "un_rt (us_net s') = None \<longleftrightarrow> un_rt (us_net s) = None" and "un_ds (us_net s') = None \<longleftrightarrow> un_ds (us_net s) = None"
    by blast+
qed

lemma udp_node_steps:
  assumes "(udp_step E U)\<^sup>*\<^sup>* s s'" and "udp_fetcher_ok E (ue_fetcher U)" and "udp_node_inv E i s"
  shows "udp_node_inv E i s'"
  using assms(1)
proof (induction rule: rtranclp_induct)
  case (step s1 s2)
  have "net_ok E (us_net s1)" using step.IH by (simp add: udp_node_inv_def udp_inv_def node_inv_def)
  with step udp_step_inv [OF step(2) _ assms(2)] udp_step_pointers [OF step(2) _ assms(2)] show ?case
    by (simp add: udp_node_inv_def)
qed (rule assms(3))

text \<open>A call from its start to its end is a run of the network, and it returns.\<close>

lemma udp_node_inv_pending: "udp_node_inv E i s \<Longrightarrow> pending_inv s"
  by (simp add: udp_node_inv_def udp_inv_def)

lemma sched_okD:
  assumes "sched_ok E U S"
  shows "(udp_step E U)\<^sup>*\<^sup>* s (sc_env S t s)" and "pending_inv s \<Longrightarrow> owner s ch \<noteq> Some (sc_uuid S t s)"
  using assms unfolding sched_ok_def by blast+

lemma interleave_steps: "sched_ok E U S \<Longrightarrow> (udp_step E U)\<^sup>*\<^sup>* (uw_sys w) (uw_sys (interleave S w))"
  by (simp add: interleave_def sched_okD(1))

lemma rpc_advance_ok:
  assumes S: "sched_ok E U S" and F: "udp_fetcher_ok E (ue_fetcher U)" and I: "udp_node_inv E i (uw_sys w)"
    and "rpc_at ch (Suc k) (uw_sys w)"
  shows "udp_node_inv E i (uw_sys (rpc_advance S ch w)) \<and> rpc_at ch k (uw_sys (rpc_advance S ch w))"
proof -
  let ?w1 = "interleave S w"
  note st = interleave_steps [OF S, of w]
  have at: "rpc_at ch (Suc k) (uw_sys ?w1)" using udp_steps_inv [OF st F] I assms(4) by (auto simp: udp_node_inv_def)
  note n = rpc_next_step [OF at]
  from udp_node_steps [OF n(1) F udp_node_steps [OF st F I]] n(2) show ?thesis
    by (simp add: rpc_advance_def Let_def)
qed

lemma rpc_advances_ok:
  assumes "sched_ok E U S" and "udp_fetcher_ok E (ue_fetcher U)"
  shows "udp_node_inv E i (uw_sys w) \<Longrightarrow> rpc_at ch k (uw_sys w) \<Longrightarrow>
    udp_node_inv E i (uw_sys ((rpc_advance S ch ^^ k) w)) \<and> rpc_at ch 0 (uw_sys ((rpc_advance S ch ^^ k) w))"
proof (induction k arbitrary: w)
  case (Suc k)
  from rpc_advance_ok [OF assms Suc.prems] Suc.IH [of "rpc_advance S ch w"] show ?case
    by (simp add: funpow_swap1)
qed simp

lemma sendRPC_returns:
  assumes S: "sched_ok E U S" and F: "udp_fetcher_ok E (ue_fetcher U)" and I: "udp_node_inv E i (uw_sys w)"
    and "call_request (uw_net w) tx call = Some (Inr p)" and "\<forall>ch. owner (uw_sys w) ch \<noteq> Some tx"
  shows "\<exists>r w'. sendRPC S U p w = Some (r, w') \<and> udp_node_inv E i (uw_sys w')"
proof -
  let ?ch = "next_ch (uw_sys w)" let ?s = "rpc_begin U p (uw_sys w)"
  have "udp_node_inv E i ?s" using rpc_begin_step [OF assms(4,5)] by (blast intro: udp_node_steps [OF _ F I])
  moreover have "rpc_at ?ch 3 ?s" by (simp add: rpc_begin_def rpc_at_set_rpc)
  ultimately obtain w' where w': "w' = (rpc_advance S ?ch ^^ 3) (w\<lparr>uw_sys := ?s\<rparr>)" "udp_node_inv E i (uw_sys w')"
    "rpc_at ?ch 0 (uw_sys w')"
    using rpc_advances_ok [OF S F, of i "w\<lparr>uw_sys := ?s\<rparr>" ?ch 3] by simp
  then obtain q r where "rpcs (uw_sys w') ?ch = Some (q, Left r)"
    by (auto simp: rpc_at_def split: option.splits elim: rpc_rank.elims)
  with w'(1,2) show ?thesis by (auto simp: sendRPC_def Let_def)
qed

lemma udp_call_returns:
  assumes S: "sched_ok E U S" and F: "udp_fetcher_ok E (ue_fetcher U)" and I: "udp_node_inv E i (uw_sys w)"
    and "\<And>n tx. call_request n tx call \<noteq> None"
  shows "\<exists>r w'. udp_call S U call w = Some (r, w') \<and> udp_node_inv E i (uw_sys w')"
proof -
  let ?w = "interleave S w" let ?tx = "sc_uuid S (uw_time ?w) (uw_sys ?w)"
  have I1: "udp_node_inv E i (uw_sys ?w)" by (rule udp_node_steps [OF interleave_steps [OF S] F I])
  have fresh: "\<forall>ch. owner (uw_sys ?w) ch \<noteq> Some ?tx"
    using sched_okD(2) [OF S udp_node_inv_pending [OF I1]] by blast
  obtain r where r: "call_request (uw_net ?w) ?tx call = Some r" using assms(4) by fastforce
  show ?thesis
  proof (cases r)
    case (Inl e)
    with r I1 show ?thesis by (simp add: udp_call_def)
  next
    case (Inr p)
    with sendRPC_returns [OF S F I1 _ fresh] r show ?thesis by (simp add: udp_call_def)
  qed
qed


section \<open>The contract\<close>

definition udp_valid :: "'e reg_env_scheme \<Rightarrow> udp_env \<Rightarrow> udp_sched \<Rightarrow> KademliaID \<Rightarrow> udp_world \<Rightarrow> bool" where
  "udp_valid E U S i w \<longleftrightarrow> sched_ok E U S \<and> udp_fetcher_ok E (ue_fetcher U) \<and> udp_node_inv E i (uw_sys w)"

lemma udp_validD:
  assumes "udp_valid E U S i w"
  shows "udp_node_inv E i (uw_sys w)" and "udp_fetcher_ok E (ue_fetcher U)" and "sched_ok E U S"
    and "\<exists>rt. un_rt (uw_net w) = Some rt \<and> rt_wf rt" and "\<exists>d. un_ds (uw_net w) = Some d \<and> data_ok E d"
  using assms by (auto simp: udp_valid_def udp_node_inv_def udp_inv_def node_inv_def net_ok_def)

lemma udp_call_valid:
  assumes "udp_valid E U S i w" and "\<And>n tx. call_request n tx call \<noteq> None"
  shows "\<exists>r w'. udp_call S U call w = Some (r, w') \<and> udp_valid E U S i w'"
  using udp_call_returns [OF udp_validD(3,2,1) [OF assms(1)] assms(2)] assms(1) by (auto simp: udp_valid_def)

lemma requests_return:
  "call_request n tx (SendPingMessage (Some c)) \<noteq> None" "call_request n tx (SendFindContactMessage t (Some c)) \<noteq> None"
  "call_request n tx (SendFindDataMessage t c') \<noteq> None" "call_request n tx (SendStoreMessage c' k d) \<noteq> None"
  by (simp_all add: SendPing_request_def SendFindContact_request_def SendFindData_request_def SendStore_request_def
      split: option.split)

lemma uw_put_ds:
  assumes "udp_valid E U S i w" and "net_keeps (uw_net w) n" and "data_ok E d"
  shows "udp_valid E U S i (uw_put (n\<lparr>un_ds := Some d\<rparr>) w)"
proof -
  let ?s = "(uw_sys w)\<lparr>us_net := n\<lparr>un_ds := Some d\<rparr>\<rparr>"
  have I: "udp_node_inv E i (uw_sys w)" using assms(1) by (rule udp_validD)
  then have "udp_inv E i (uw_sys w)" by (simp add: udp_node_inv_def)
  then have "udp_inv E i ?s"
    by (rule udp_inv_frame [where t = None]) (use assms(2,3) in \<open>simp_all add: mset_opt_def\<close>)
  moreover have "un_rt n \<noteq> None" using I un_rt_keeps [OF assms(2)] by (simp add: udp_node_inv_def)
  ultimately show ?thesis using assms(1) by (simp add: udp_valid_def udp_node_inv_def uw_put_def)
qed

lemma uw_put_rt:
  assumes "udp_valid E U S i w" and "RoutingTable_AddContact (the (un_rt (uw_net w))) c = Some rt"
  shows "udp_valid E U S i (uw_put ((uw_net w)\<lparr>un_rt := Some rt\<rparr>) w)"
proof -
  obtain rt0 where rt0: "un_rt (uw_net w) = Some rt0" using udp_validD(4) [OF assms(1)] by blast
  let ?q = "\<lparr>tbl = rt0, tasks = evictions (uw_sys w)\<rparr>"
  have "evict_step ?q (?q\<lparr>tbl := rt\<rparr>)" using assms(2) rt0 by (intro evict_step.add) simp
  from udp_step.evict [OF rt0 this, of E U]
  have st: "udp_step E U (uw_sys w) ((uw_sys w)\<lparr>us_net := (uw_net w)\<lparr>un_rt := Some rt\<rparr>\<rparr>)" by simp
  have "udp_node_inv E i ((uw_sys w)\<lparr>us_net := (uw_net w)\<lparr>un_rt := Some rt\<rparr>\<rparr>)"
    by (rule udp_node_steps [OF r_into_rtranclp [of "udp_step E U", OF st] udp_validD(2,1) [OF assms(1)]])
  with assms(1) show ?thesis by (simp add: udp_valid_def uw_put_def)
qed

lemma udp_Validate_ok:
  assumes "data_ok E d" and F: "udp_fetcher_ok E (ue_fetcher U)"
    and "DataStore_Validate E (udp_ds U d) k v n = (r, ds, n1)"
  shows "data_ok E (ds_data ds) \<and> net_keeps n n1"
proof -
  let ?J = "\<lambda>st. data_ok E (fst st) \<and> net_keeps n (snd st)"
  have J: "fetcher_inv ?J (recordFetcher (udp_ds U d))"
    using udp_fetcher_okD(1,2) [OF F] net_keeps_trans by (auto simp: fetcher_inv_def udp_ds_def)
  have start: "?J (ds_data (udp_ds U d), n)" using assms(1) by (simp add: udp_ds_def)
  from assms(3) consider "ds = udp_ds U d" "n1 = n"
    | lp where "validateLatestPointerWithExisting E (udp_ds U d) lp
        (existing_pointer E (gm_get (ds_data (udp_ds U d)) k)) False n = (r, ds, n1)"
    by (auto simp: DataStore_Validate_def split: sum.splits option.splits)
  then show ?thesis
  proof cases
    case (2 lp)
    from validate_state_inv [where J = ?J, OF 2 start _ J] show ?thesis by simp
  qed (use start in simp)
qed

interpretation udp: kad_sound E "udp_node E U S (NewKademlia self net rt ds a)" "udp_valid E U S i" "\<lambda>_. True"
  for E :: "'e reg_env_scheme" and U S self net rt ds a i
proof
  fix w w' :: udp_world and c :: Contact and t k :: KademliaID and d :: bytes and rt' :: RoutingTable and ps
  let ?N = "udp_node E U S (NewKademlia self net rt ds a)"
  show "0 < op_alpha ?N" "mset (op_arrival ?N w ps) = mset ps" by (simp_all add: udp_node_def)
  show "value_ok E k d" if "op_ds_Validate ?N k d w = (Inr (), w')"
    using that by (auto simp: udp_node_def intro: Validate_value_ok split: prod.splits)
  assume v: "udp_valid E U S i w"
  obtain rt0 e where r: "un_rt (uw_net w) = Some rt0" "rt_wf rt0" "un_ds (uw_net w) = Some e" "data_ok E e"
    using udp_validD(4,5) [OF v] by blast
  note F = udp_validD(2) [OF v]
  show "rt_wf (op_rt ?N w)" using r by (simp add: udp_node_def)
  show "udp_valid E U S i (op_set_rt ?N rt' w)" if "RoutingTable_AddContact (op_rt ?N w) c = Some rt'"
    using uw_put_rt [OF v] that by (simp add: udp_node_def)
  show "\<exists>r w'. op_FindContact ?N t c w = Some (r, w') \<and> udp_valid E U S i w'"
    and "\<exists>r w'. op_FindData ?N t c w = Some (r, w') \<and> udp_valid E U S i w'"
    and "\<exists>r w'. op_SendStore ?N c k d w = Some (r, w') \<and> udp_valid E U S i w'"
    and "\<exists>r w'. op_SendPing ?N (Some c) w = Some (r, w') \<and> udp_valid E U S i w'"
    using udp_call_valid [OF v requests_return(2), of "Some t" c] udp_call_valid [OF v requests_return(3), of "Some t" "Some c"]
      udp_call_valid [OF v requests_return(4), of "Some c" "Some k" "Some d"] udp_call_valid [OF v requests_return(1), of c]
    by (force simp: udp_node_def)+
  show "udp_valid E U S i (snd (op_ds_Validate ?N k d w))"
    using udp_Validate_ok [OF r(4) F, of k d "uw_net w"] uw_put_ds [OF v] r(3)
    by (auto simp: udp_node_def uw_ds_def split: prod.split)
  show store: "\<exists>r w'. op_ds_Store ?N k d w = Some (r, w') \<and> udp_valid E U S i w'"
    using udp_Store_ok [OF r(4) F, of k d "uw_net w"] uw_put_ds [OF v] r(3)
    by (auto simp: udp_node_def uw_ds_def)
  show "\<exists>r w'. op_ds_Store ?N k d w = Some (r, w') \<and> udp_valid E U S i w'" by (rule store)
  show "value_ok E k d" if "op_ds_Get ?N w k = Some d"
    using that r(3,4) by (auto simp: udp_node_def uw_ds_def udp_ds_def DataStore_Get_def data_ok_def)
qed simp


section \<open>Operations one after the other\<close>

fun udp_run :: "'e reg_env_scheme \<Rightarrow> udp_env \<Rightarrow> udp_sched \<Rightarrow> Kademlia \<Rightarrow> node_op list \<Rightarrow> udp_world \<Rightarrow> udp_world option" where
  "udp_run E U S K [] w = Some w"
| "udp_run E U S K (op # ops) w = Option.bind (node_step E (udp_node E U S K) op w) (udp_run E U S K ops)"

text \<open>A new network with an empty table and an empty store.\<close>

lemma udp_start_node:
  assumes "un_pending n = gm_empty" and "un_rt n = Some (NewRoutingTable self)" and "un_ds n = Some gm_empty"
    and "ID self \<noteq> None"
  shows "udp_node_inv E (cid self) (udp_start n)"
proof -
  have "data_ok E gm_empty" by (simp add: data_ok_def gm.invar_empty gm.get_empty)
  with assms have "net_ok E n" by (simp add: net_ok_def rt_wf_New)
  with assms have "udp_inv E (cid self) (udp_start n)"
    using evict_inv_start [OF assms(4)] by (intro udp_start_inv) auto
  with assms show ?thesis by (simp add: udp_node_inv_def udp_start_def)
qed

text \<open>A schedule on which nothing else happens.\<close>

definition quiet_uuid :: "nat \<Rightarrow> udp_sys \<Rightarrow> uuid" where
  "quiet_uuid t s = Suc (sum_list (map (\<lambda>ch. case owner s ch of None \<Rightarrow> 0 | Some tx \<Rightarrow> tx) [0..<next_ch s]))"

definition quiet_sched :: udp_sched where
  "quiet_sched = \<lparr>sc_env = (\<lambda>t s. s), sc_uuid = quiet_uuid, sc_written = (\<lambda>t. True), sc_order = (\<lambda>t c. 0)\<rparr>"

lemma quiet_sched_ok: "sched_ok E U quiet_sched"
proof -
  have "owner s ch \<noteq> Some (quiet_uuid t s)" if "pending_inv s" for t s ch
  proof
    assume o: "owner s ch = Some (quiet_uuid t s)"
    then have "ch < next_ch s" using pending_invD(1) [OF that, of ch] by (force simp: owner_def not_less [symmetric])
    then have "quiet_uuid t s \<in> set (map (\<lambda>ch. case owner s ch of None \<Rightarrow> 0 | Some tx \<Rightarrow> tx) [0..<next_ch s])"
      using o by (force simp: image_iff)
    from member_le_sum_list [OF this] show False by (simp add: quiet_uuid_def)
  qed
  then show ?thesis by (simp add: sched_ok_def quiet_sched_def)
qed

section \<open>Properties\<close>


text \<open>A node that knows one other, which never answers.\<close>

definition demo_udp_world :: udp_world where
  "demo_udp_world = \<lparr>uw_sys = udp_start (demo_udp\<lparr>un_ds := Some gm_empty\<rparr>), uw_time = 0\<rparr>"

lemma demo_udp_valid: "udp_valid E demo_udp_env quiet_sched (cid (peer [])) demo_udp_world"
proof -
  have "udp_fetcher_ok E (ue_fetcher demo_udp_env)" by (simp add: demo_udp_env_def)
  moreover have "udp_node_inv E (cid (peer [])) (udp_start (demo_udp\<lparr>un_ds := Some gm_empty\<rparr>))"
    by (rule udp_start_node) (simp_all add: demo_udp_simps)
  ultimately show ?thesis using quiet_sched_ok by (simp add: udp_valid_def demo_udp_world_def)
qed


end
