(* ===== verification/Node_UDP.thy ===== *)
theory Node_UDP
  imports Node_Session Kad_UDP_Node
begin

text \<open>
  The program as \<^verbatim>\<open>src/cmd/node/main.go\<close> runs it: the node \<^verbatim>\<open>createNode\<close> makes, its datagram
  network, and its command line.  The node's resolver decides which owners its store sees, so its
  environment and its schedule may depend on it.
\<close>

section \<open>The session of a created node\<close>

text \<open>Deleting from the store behind the pointer; the settings of the store do not matter for it.\<close>

definition udp_delete :: "udp_env \<Rightarrow> KademliaID \<Rightarrow> udp_world \<Rightarrow> bool \<times> udp_world" where
  "udp_delete U k w =
     (case DataStore_Delete (uw_ds U w) k of
        (ds, deleted) \<Rightarrow> (deleted, uw_put ((uw_net w)\<lparr>un_ds := Some (ds_data ds)\<rparr>) w))"

definition no_owner :: DNSResolver where
  "no_owner d = Inl ErrDomainNotFound"

definition runCLI ::
  "'e key_env_scheme \<Rightarrow> (DNSResolver \<Rightarrow> udp_env) \<Rightarrow> (DNSResolver \<Rightarrow> udp_sched) \<Rightarrow> created_node \<Rightarrow> udp_world CLI" where
  "runCLI E U S n =
     NewCLI (Some (\<lambda>ow. udp_node E (U ow) (S ow) (NewKademlia (cn_me n) (Some 0) (Some 0) (Some 0) 0)))
       (udp_delete (U no_owner)) True True"

definition session_start :: "created_node \<Rightarrow> udp_world cli_state" where
  "session_start n = \<lparr>cs_world = \<lparr>uw_sys = udp_start (cn_network n), uw_time = 0\<rparr>, cs_dns = cn_resolver n,
     cs_keys = cn_keys n, cs_files = []\<rparr>"

text \<open>What the surroundings promise: private keys from seeds have their length; schedules and fetchers as for a node.\<close>

definition deploy_ok ::
  "'e key_env_scheme \<Rightarrow> (DNSResolver \<Rightarrow> udp_env) \<Rightarrow> (DNSResolver \<Rightarrow> udp_sched) \<Rightarrow> bool" where
  "deploy_ok E U S \<longleftrightarrow> seeds_ok E \<and> (\<forall>ow. sched_ok E (U ow) (S ow) \<and> udp_fetcher_ok E (ue_fetcher (U ow)))"

definition session_valid ::
  "'e key_env_scheme \<Rightarrow> (DNSResolver \<Rightarrow> udp_env) \<Rightarrow> (DNSResolver \<Rightarrow> udp_sched) \<Rightarrow> created_node \<Rightarrow> udp_world \<Rightarrow> bool" where
  "session_valid E U S n w \<longleftrightarrow> (ID (cn_me n) \<noteq> None \<and> deploy_ok E U S) \<and> udp_node_inv E (cid (cn_me n)) (uw_sys w)"

lemma udp_valid_deploy: "deploy_ok E U S \<Longrightarrow> udp_valid E (U ow) (S ow) i w = udp_node_inv E i (uw_sys w)"
  by (simp add: udp_valid_def deploy_ok_def)

lemma udp_delete_valid:
  assumes "udp_valid E U S i w"
  shows "udp_valid E U S i (snd (udp_delete U' k w))"
proof -
  obtain d where d: "un_ds (uw_net w) = Some d" "data_ok E d" using udp_validD(5) [OF assms] by blast
  have "data_ok E (gm_del k d)" using d(2) by (auto simp: data_ok_def gm.get_del gm.invar_del split: if_splits)
  with d uw_put_ds [OF assms net_keeps_refl] show ?thesis
    by (simp add: udp_delete_def DataStore_Delete_def uw_ds_def udp_ds_def)
qed

interpretation session: cli_node E "runCLI E U S n"
    "\<lambda>ow. udp_node E (U ow) (S ow) (NewKademlia (cn_me n) (Some 0) (Some 0) (Some 0) 0)" "session_valid E U S n"
  for E :: "'e key_env_scheme" and U S n
proof (rule cli_node.intro)
  fix ow :: DNSResolver and w :: udp_world and k :: KademliaID
  let ?N = "udp_node E (U ow) (S ow) (NewKademlia (cn_me n) (Some 0) (Some 0) (Some 0) 0)"
  show "cli_Kad (runCLI E U S n) = Some (\<lambda>ow. udp_node E (U ow) (S ow) (NewKademlia (cn_me n) (Some 0) (Some 0) (Some 0) 0))"
    by (simp add: runCLI_def NewCLI_def)
  have "kad_store E ?N (\<lambda>w. udp_node_inv E (cid (cn_me n)) (uw_sys w)) (\<lambda>_. True)" if "deploy_ok E U S"
    using udp.kad_store_axioms [where E = E and U = "U ow" and S = "S ow" and i = "cid (cn_me n)"]
    unfolding udp_valid_deploy [OF that, abs_def] .
  then show "kad_store E ?N (session_valid E U S n) (\<lambda>_. True)"
    unfolding session_valid_def [abs_def]
    by (intro kad_store_guarded) (simp_all add: udp_node_def)
  show "ID (op_Me ?N) \<noteq> None" if "session_valid E U S n w" using that by (simp add: session_valid_def udp_node_def)
  show "session_valid E U S n (snd (cli_Delete (runCLI E U S n) k w))" if "session_valid E U S n w"
  proof -
    have d: "deploy_ok E U S" using that by (simp add: session_valid_def)
    from udp_delete_valid [of E "U ow" "S ow" "cid (cn_me n)" w "U no_owner" k] that show ?thesis
      unfolding udp_valid_deploy [OF d] by (simp add: session_valid_def runCLI_def NewCLI_def)
  qed
  show "seeds_ok E" if "session_valid E U S n w" using that by (simp add: session_valid_def deploy_ok_def)
qed

lemma load_keys_sized:
  assumes "seeds_ok E"
  shows "keys_sized ks \<Longrightarrow> keys_sized (snd (load_keys E ds r ks))"
proof (induction ds arbitrary: r ks)
  case (Cons d ds)
  obtain x ks1 where l: "KeyManager_Load E d ks = (x, ks1)" by (cases "KeyManager_Load E d ks")
  have "keys_sized ks1" using Load_sized(1) [OF assms Cons.prems, of d] l by simp
  with Cons.IH l show ?case by (simp split: sum.split)
qed simp

lemma created_network:
  assumes "createNode E U0 txt bound made listed d localIP ip port keysDir = Inr n"
  shows "un_rt (cn_network n) = Some (NewRoutingTable (cn_me n))" and "un_conn (cn_network n) = Some True"
    and "un_pending (cn_network n) = gm_empty" and "un_ds (cn_network n) = Some gm_empty" and "ID (cn_me n) \<noteq> None"
    and "seeds_ok E \<Longrightarrow> keys_sized (cn_keys n)"
proof -
  define addr where "addr = localIP @ '':'' @ dec_int port"
  define self where "self = NewContact (Some (NewKademliaIDFromAddress (sha256 E) addr)) addr"
  define net0 where "net0 = NewUDPNetwork self (Some (NewRoutingTable self)) (Some (ds_data (NewDataStore :: unit DataStore)))"
  define km where "km = (case NewKeyManager made keysDir of Inr km \<Rightarrow> km | Inl _ \<Rightarrow> \<lparr>km_baseDir = [], km_keys = gm_empty\<rparr>)"
  define ls where "ls = Listen U0 bound net0 (ip @ '':'' @ dec_int port)"
  note created = assms [unfolded createNode_def Let_def, folded addr_def, folded self_def, folded net0_def, folded ls_def]
  obtain net where net0: "ls = (Inr (), net)"
    using created by (cases ls) (auto split: sum.splits prod.splits)
  have n: "cn_me n = self" "cn_network n = net"
    "cn_keys n = snd (load_keys E (KeyManager_ListDomains E listed (km, d)) (SetKeyManager (NewNodeDNSResolver txt) True) (km, d))"
    using created net0 by (auto simp: km_def split: sum.splits prod.splits)
  show "ID (cn_me n) \<noteq> None" by (simp add: n(1) self_def NewContact_def)
  show "un_rt (cn_network n) = Some (NewRoutingTable (cn_me n))" "un_conn (cn_network n) = Some True"
    "un_pending (cn_network n) = gm_empty" "un_ds (cn_network n) = Some gm_empty"
    using net0 by (auto simp: n(1,2) ls_def net0_def Listen_def NewUDPNetwork_def NewDataStore_def split: if_splits)
  have "keys_sized (km, d)"
    by (auto simp: km_def NewKeyManager_def keys_sized_def gm.get_empty split: sum.split)
  then show "seeds_ok E \<Longrightarrow> keys_sized (cn_keys n)" unfolding n(3) by (rule load_keys_sized [rotated])
qed

lemma created_session_ok:
  assumes "createNode E U0 txt bound made listed d localIP ip port keysDir = Inr n" and "deploy_ok E U S"
  shows "session_ok (session_valid E U S n) (session_start n)"
proof -
  note net = created_network [OF assms(1)]
  have "udp_node_inv E (cid (cn_me n)) (udp_start (cn_network n))"
    by (rule udp_start_node [OF net(3,1,4,5)])
  with net(5,6) assms(2) show ?thesis
    by (simp add: session_ok_def session_valid_def session_start_def deploy_ok_def)
qed

section \<open>An answer without a sender\<close>

text \<open>
  The packets carry a PONG for the first call of the node, from a sender without identifier; the
  schedule delivers one whenever that call can take it.
\<close>

definition nameless_pong :: RPCMessage where
  "nameless_pong = new_message Pong 1 no_contact"

definition pong_env :: udp_env where
  "pong_env = demo_udp_env\<lparr>ue_unmarshal := \<lambda>_. Some nameless_pong\<rparr>"

definition deliver_pong :: "udp_sys \<Rightarrow> udp_sys" where
  "deliver_pong s =
     (if un_conn (us_net s) = Some True \<and> gm_get (un_pending (us_net s)) 1 = Some 0 \<and> chans s 0 = []
      then s\<lparr>chans := (chans s)(0 := [nameless_pong])\<rparr> else s)"

definition pong_sched :: udp_sched where
  "pong_sched = quiet_sched\<lparr>sc_env := \<lambda>t. deliver_pong\<rparr>"

lemma deliver_pong_steps: "(udp_step E pong_env)\<^sup>*\<^sup>* s (deliver_pong s)"
proof (cases "un_conn (us_net s) = Some True \<and> gm_get (un_pending (us_net s)) 1 = Some 0 \<and> chans s 0 = []")
  case True
  have m: "ue_unmarshal pong_env [] = Some nameless_pong" "ID (Sender nameless_pong) = None" "TransactionID nameless_pong = 1"
    by (simp_all add: pong_env_def nameless_pong_def new_message_def no_contact_def)
  have "(udp_step E pong_env)\<^sup>*\<^sup>* s (s\<lparr>handlers := handlers s + {#H_Send nameless_pong 0#}\<rparr>)"
    using response_arrives [OF _ m(1,2), of s 0 E] True m(3) by simp
  moreover have "udp_step E pong_env (s\<lparr>handlers := handlers s + {#H_Send nameless_pong 0#}\<rparr>) (deliver_pong s)"
    using udp_step.deliver [of nameless_pong 0 "s\<lparr>handlers := handlers s + {#H_Send nameless_pong 0#}\<rparr>" E pong_env] True
    by (simp add: deliver_pong_def)
  ultimately show ?thesis by (rule rtranclp.rtrancl_into_rtrancl)
next
  case False
  then show ?thesis by (simp only: deliver_pong_def if_False rtranclp.rtrancl_refl)
qed

lemma pong_sched_simps [simp]:
  "sc_env pong_sched t s = deliver_pong s" "sc_uuid pong_sched = quiet_uuid" "sc_written pong_sched t = True"
  by (simp_all add: pong_sched_def quiet_sched_def)

lemma pong_deploy_ok:
  assumes "seeds_ok E"
  shows "deploy_ok E (\<lambda>ow. pong_env) (\<lambda>ow. pong_sched)"
proof -
  have "owner s ch \<noteq> Some (quiet_uuid t s)" if "pending_inv s" for t s ch
    using sched_okD(2) [OF quiet_sched_ok that, of ch t] by (simp add: quiet_sched_def)
  then have "sched_ok E pong_env pong_sched" by (simp add: sched_ok_def deliver_pong_steps)
  moreover have "ue_fetcher pong_env = None" by (simp add: pong_env_def demo_udp_env_def)
  ultimately show ?thesis using assms by (simp add: deploy_ok_def)
qed

text \<open>The first call of a new node returns this answer: written, received, left.\<close>

lemma pong_call:
  assumes "un_conn n = Some True" and "un_pending n = gm_empty"
  shows "\<exists>w'. udp_call pong_sched pong_env (SendPingMessage (Some c)) \<lparr>uw_sys = udp_start n, uw_time = 0\<rparr> =
    Some (Inr nameless_pong, w')"
proof -
  define p where "p = (Address c, new_message Ping 1 (un_me n), rpc_timeout n)"
  define s1 where "s1 = set_rpc 0 p Registered ((udp_start n)\<lparr>us_net := rpc_register n 1 0, next_ch := 1\<rparr>)"
  note eval = rpc_advance_def interleave_def deliver_pong_def rpc_next_def rpc_write_def rpc_register_def assms
    s1_def udp_start_def set_rpc_def gm.get_set
  have a1: "rpc_advance pong_sched 0 \<lparr>uw_sys = s1, uw_time = 1\<rparr> =
      \<lparr>uw_sys = set_rpc 0 p Waiting (s1\<lparr>chans := (\<lambda>_. [])(0 := [nameless_pong])\<rparr>), uw_time = 2\<rparr>"
    by (simp add: eval)
  have a2: "rpc_advance pong_sched 0 \<lparr>uw_sys = set_rpc 0 p Waiting (s1\<lparr>chans := (\<lambda>_. [])(0 := [nameless_pong])\<rparr>), uw_time = 2\<rparr> =
      \<lparr>uw_sys = set_rpc 0 p (Leaving (Inr nameless_pong)) s1, uw_time = 3\<rparr>"
    by (simp add: eval fun_upd_idem)
  have a3: "\<exists>s2. rpc_advance pong_sched 0 \<lparr>uw_sys = set_rpc 0 p (Leaving (Inr nameless_pong)) s1, uw_time = 3\<rparr> =
      \<lparr>uw_sys = s2, uw_time = 4\<rparr> \<and> rpcs s2 0 = Some (p, Left (Inr nameless_pong))"
    by (simp add: eval)
  have b: "rpc_begin pong_env p (udp_start n) = s1"
    by (simp add: rpc_begin_def s1_def p_def pong_env_def demo_udp_env_def udp_start_def new_message_def)
  have d: "interleave pong_sched \<lparr>uw_sys = udp_start n, uw_time = 0\<rparr> = \<lparr>uw_sys = udp_start n, uw_time = 1\<rparr>"
    by (simp add: interleave_def deliver_pong_def udp_start_def assms gm.get_empty)
  have u: "quiet_uuid t (udp_start n) = 1" "us_net (udp_start n) = n" "next_ch (udp_start n) = 0" for t
    by (simp_all add: quiet_uuid_def udp_start_def)
  have r: "call_request n 1 (SendPingMessage (Some c)) = Some (Inr p)" by (simp add: SendPing_request_def p_def)
  have "(rpc_advance pong_sched 0 ^^ 3) w = rpc_advance pong_sched 0 (rpc_advance pong_sched 0 (rpc_advance pong_sched 0 w))" for w
    by (simp add: numeral_3_eq_3)
  then have "\<exists>w'. sendRPC pong_sched pong_env p \<lparr>uw_sys = udp_start n, uw_time = 1\<rparr> = Some (Inr nameless_pong, w')"
    using a3 by (auto simp: sendRPC_def Let_def b u a1 a2 simp del: One_nat_def)
  then show ?thesis using r by (simp add: udp_call_def Let_def d u del: One_nat_def)
qed

section \<open>Properties\<close>


text \<open>A node on its own, with the demo settings.\<close>

lemma demo_created:
  "\<exists>n. createNode demo_key_env demo_udp_env (\<lambda>d. None) True True True [] ''10.0.0.1'' ''0.0.0.0'' 8000 [] = Inr n"
  by (simp add: createNode_def Listen_def demo_udp_env_def NewKeyManager_def Let_def split: prod.split)

lemma demo_seeds: "seeds_ok demo_key_env"
  by (simp add: seeds_ok_def demo_key_env_def demo_env_def reg_env.defs SeedSize_def PrivateKeySize_def)

lemma demo_deploy: "deploy_ok demo_key_env (\<lambda>ow. demo_udp_env) (\<lambda>ow. quiet_sched)"
  using demo_seeds quiet_sched_ok by (simp add: deploy_ok_def) (simp add: demo_udp_env_def)

lemma demo_host_ok: "host_ok demo_host"
  by (simp add: host_ok_def demo_host_def)

lemma demo_lines:
  "splitCommandArgs (TrimSpace ''put hello'') = [''put'', ''hello'']" "map ascii_upper ''put'' = ''PUT''"
  "splitCommandArgs (TrimSpace ''show ds'') = [''show'', ''ds'']" "map ascii_upper ''show'' = ''SHOW''"
  "splitCommandArgs (TrimSpace ''install a.se pkg latest'') = [''install'', ''a.se'', ''pkg'', ''latest'']"
  "map ascii_upper ''install'' = ''INSTALL''"
  by code_simp+

lemma demo_plain: "plain_line E ''put hello''" "plain_line E ''show ds''" "plain_line E ''install a.se pkg latest''"
  by (simp_all only: plain_line_def demo_lines list.case ToUpper_def) (simp_all add: is_ascii_def demo_lines)




end
