(* ===== verification/Sim_Experiment.thy ===== *)
theory Sim_Experiment
  imports Kad_Sim_Node
begin

text \<open>
  \<^verbatim>\<open>src/cmd/experiment/main.go\<close>: networks of simulated nodes, built from a seed, in which random nodes look up random
  identifiers.  Go's random generators are parameters: the value of each draw by the seed, the number of the draw and the bound.
  Parsing a floating point number is a parameter too.  A function returns \<open>None\<close> where the code panics.
\<close>

section \<open>The surroundings\<close>

datatype float64 = NaN | Inf bool | Finite rat

text \<open>
  \<open>xh_order\<close> and \<open>xh_refresh\<close>: the order in which answers arrive, and the random bytes of the refreshed
  buckets of a joining node; \<open>xh_depth\<close>: the depth of the stack; \<open>xh_Round\<close>: \<^verbatim>\<open>int64(math.Round(loss*100000))\<close>.
\<close>

record exp_host =
  xh_Intn :: "64 word \<Rightarrow> nat \<Rightarrow> nat \<Rightarrow> nat"
  xh_Float64 :: "64 word \<Rightarrow> nat \<Rightarrow> rat"
  xh_order :: "nat \<Rightarrow> Contact \<Rightarrow> nat"
  xh_refresh :: "nat \<Rightarrow> int \<Rightarrow> (nat \<Rightarrow> nat) \<times> (nat \<Rightarrow> byte)"
  xh_depth :: nat
  xh_ParseFloat :: "string \<Rightarrow> float64 option"
  xh_Round :: "float64 \<Rightarrow> 64 word"

text \<open>\<^verbatim>\<open>Intn\<close> panics for a bound that is not positive; its values are below the bound.\<close>

definition rng_Intn :: "exp_host \<Rightarrow> 64 word \<Rightarrow> nat \<Rightarrow> int \<Rightarrow> nat option" where
  "rng_Intn H seed k n = (if n \<le> 0 then None else Some (xh_Intn H seed k (nat n)))"

definition intn_ok :: "exp_host \<Rightarrow> bool" where
  "intn_ok H \<longleftrightarrow> (\<forall>seed k n. 0 < n \<longrightarrow> xh_Intn H seed k n < n)"

section \<open>Arguments\<close>

text \<open>The comma-separated lists: blanks around an element and empty elements are ignored, the first error ends the parse.\<close>

fun parse_list :: "(string \<Rightarrow> 'a option) \<Rightarrow> string list \<Rightarrow> 'a list option" where
  "parse_list f [] = Some []"
| "parse_list f (p # ps) =
     (let p = TrimSpace p in
      if p \<noteq> [] then
        (case f p of
           None \<Rightarrow> None
         | Some v \<Rightarrow> map_option (\<lambda>vs. v # vs) (parse_list f ps))
      else parse_list f ps)"

definition parse_int :: "string \<Rightarrow> int option" where
  "parse_int s = (case Atoi s of (v, ok) \<Rightarrow> if ok then Some v else None)"

definition parseInts :: "string \<Rightarrow> int list option" where
  "parseInts s = parse_list parse_int (Split s (CHR '',''))"

definition parseInt64s :: "string \<Rightarrow> 64 word list option" where
  "parseInt64s s = parse_list (\<lambda>p. map_option word_of_int (parse_int p)) (Split s (CHR '',''))"

definition parseFloats :: "exp_host \<Rightarrow> string \<Rightarrow> float64 list option" where
  "parseFloats H s = parse_list (xh_ParseFloat H) (Split s (CHR '',''))"

record config =
  cfg_mode :: string
  cfg_sizes :: "int list"
  cfg_lossRates :: "float64 list"
  cfg_seeds :: "64 word list"
  cfg_lookups :: int
  cfg_alpha :: int
  cfg_relNodes :: int

datatype config_error =
    ErrNoSeed | ErrLookups int | ErrAlpha int | ErrMode string | ErrNoSize | ErrSize int
  | ErrRelNodes int | ErrNoLoss | ErrLoss float64 | ErrParseSeeds | ErrParseSizes | ErrParseLoss | ErrOutput

text \<open>\<^verbatim>\<open>l < 0.0 || l > 1.0\<close>, which is false of NaN.\<close>

definition bad_loss :: "float64 \<Rightarrow> bool" where
  "bad_loss l = (case l of NaN \<Rightarrow> False | Inf positive \<Rightarrow> True | Finite r \<Rightarrow> r < 0 \<or> r > 1)"

definition validateConfig :: "'e unicode_env_scheme \<Rightarrow> config \<Rightarrow> config_error + unit" where
  "validateConfig E cfg =
     (if length (cfg_seeds cfg) = 0 then Inl ErrNoSeed
      else if cfg_lookups cfg \<le> 0 then Inl (ErrLookups (cfg_lookups cfg))
      else if cfg_alpha cfg \<le> 0 then Inl (ErrAlpha (cfg_alpha cfg))
      else
        (let mode = ToLower E (cfg_mode cfg) in
         if mode \<noteq> ''scalability'' \<and> mode \<noteq> ''reliability'' \<and> mode \<noteq> ''all'' then Inl (ErrMode (cfg_mode cfg))
         else
           err_bind
             (if mode = ''scalability'' \<or> mode = ''all'' then
                (if length (cfg_sizes cfg) = 0 then Inl ErrNoSize
                 else (case find (\<lambda>n. n \<le> 0) (cfg_sizes cfg) of Some n \<Rightarrow> Inl (ErrSize n) | None \<Rightarrow> Inr ()))
              else Inr ())
             (\<lambda>_. if mode = ''reliability'' \<or> mode = ''all'' then
                (if cfg_relNodes cfg \<le> 0 then Inl (ErrRelNodes (cfg_relNodes cfg))
                 else if length (cfg_lossRates cfg) = 0 then Inl ErrNoLoss
                 else (case find bad_loss (cfg_lossRates cfg) of Some l \<Rightarrow> Inl (ErrLoss l) | None \<Rightarrow> Inr ()))
              else Inr ())))"

section \<open>Networks\<close>

text \<open>Node \<open>i\<close> has the address \<open>i\<close> for its network object, its table and its store.\<close>

definition node_addr :: "exp_host \<Rightarrow> 64 word \<Rightarrow> nat \<Rightarrow> string" where
  "node_addr H seed i =
     ''10.'' @ dec (xh_Intn H seed (4 * i) 250 + 1) @ ''.'' @ dec (xh_Intn H seed (4 * i + 1) 250 + 1) @ ''.'' @
     dec (xh_Intn H seed (4 * i + 2) 250 + 1) @ '':'' @ dec (xh_Intn H seed (4 * i + 3) 50000 + 1024)"

definition node_contact :: "'e crypto_env_scheme \<Rightarrow> exp_host \<Rightarrow> 64 word \<Rightarrow> nat \<Rightarrow> Contact" where
  "node_contact E H seed i =
     (let addr = node_addr H seed i in NewContact (Some (NewKademliaIDFromAddress (sha256 E) addr)) addr)"

definition exp_node :: "'e crypto_env_scheme \<Rightarrow> exp_host \<Rightarrow> 64 word \<Rightarrow> int \<Rightarrow> nat \<Rightarrow> Kademlia" where
  "exp_node E H seed alpha i = NewKademlia (node_contact E H seed i) (Some i) (Some i) (Some i) alpha"

text \<open>Before the loop: the hub; the objects of the nodes are put at their addresses in the loop.\<close>

definition empty_config :: "'e crypto_env_scheme \<Rightarrow> exp_host \<Rightarrow> 64 word \<Rightarrow> sim_config" where
  "empty_config E H seed =
     \<lparr>cf_nets = (\<lambda>i. \<lparr>sn_me = node_contact E H seed i, sn_rt = Some i, sn_ds = Some i, sn_hub = True\<rparr>),
      cf_maxValSize = (\<lambda>_. DefaultMaxValSize), cf_resolver = (\<lambda>_. None), cf_fetcher = (\<lambda>_. None),
      cf_rolls = xh_Float64 H seed, cf_order = xh_order H\<rparr>"

definition empty_world :: "'e crypto_env_scheme \<Rightarrow> exp_host \<Rightarrow> 64 word \<Rightarrow> sim_world" where
  "empty_world E H seed =
     \<lparr>hub = NewSimulatedHub, tables = (\<lambda>i. NewRoutingTable (node_contact E H seed i)), stores = (\<lambda>_. gm_empty), overflow = False\<rparr>"

fun make_nodes ::
  "'e crypto_env_scheme \<Rightarrow> exp_host \<Rightarrow> 64 word \<Rightarrow> int \<Rightarrow> nat list \<Rightarrow> sim_config \<times> sim_world \<Rightarrow> sim_config \<times> sim_world" where
  "make_nodes E H seed alpha [] cw = cw"
| "make_nodes E H seed alpha (i # is) (C, w) =
     (let w1 = w\<lparr>tables := (tables w)(i := NewRoutingTable (node_contact E H seed i)),
                 stores := (stores w)(i := ds_data (NewDataStore :: unit DataStore)),
                 hub := NewSimulatedNetwork C i (hub w)\<rparr> in
      make_nodes E H seed alpha is (NewKademlia_fetcher (exp_node E H seed alpha i) C, w1))"

text \<open>Every node but the first joins through the first; errors are ignored.\<close>

fun join_nodes ::
  "'e reg_env_scheme \<Rightarrow> exp_host \<Rightarrow> sim_config \<Rightarrow> 64 word \<Rightarrow> int \<Rightarrow> nat list \<Rightarrow> sim_world \<Rightarrow> sim_world option" where
  "join_nodes E H C seed alpha [] w = Some w"
| "join_nodes E H C seed alpha (i # is) w =
     Option.bind (Join (sim_node E C (xh_depth H) (exp_node E H seed alpha i)) (xh_refresh H i)
         (Me (exp_node E H seed alpha 0)) w)
       (\<lambda>(_, w1). join_nodes E H C seed alpha is w1)"

definition buildNetwork ::
  "'e reg_env_scheme \<Rightarrow> exp_host \<Rightarrow> int \<Rightarrow> 64 word \<Rightarrow> int \<Rightarrow> (sim_config \<times> Kademlia list \<times> sim_world) option" where
  "buildNetwork E H n seed alpha =
     (if n < 0 then None
      else
        (let (C, w) = make_nodes E H seed alpha [0..<nat n] (empty_config E H seed, empty_world E H seed) in
         map_option (\<lambda>w1. (C, map (exp_node E H seed alpha) [0..<nat n], w1))
           (join_nodes E H C seed alpha [1..<nat n] w)))"

section \<open>Experiments\<close>

definition randomID :: "exp_host \<Rightarrow> 64 word \<Rightarrow> nat \<Rightarrow> KademliaID" where
  "randomID H seed k = mk_id (map (\<lambda>i. word_of_nat (xh_Intn H seed (k + i) 256)) [0..<IDLength])"

text \<open>A trial draws once for the node and \<open>IDLength\<close> times for the target.\<close>

fun run_trials ::
  "'e reg_env_scheme \<Rightarrow> exp_host \<Rightarrow> sim_config \<Rightarrow> Kademlia list \<Rightarrow> int \<Rightarrow> 64 word \<Rightarrow> nat list \<Rightarrow> sim_world \<Rightarrow> sim_world option" where
  "run_trials E H C ns n seed [] w = Some w"
| "run_trials E H C ns n seed (trial # ts) w =
     Option.bind (rng_Intn H seed (Suc IDLength * trial) n) (\<lambda>qIdx.
       if length ns \<le> qIdx then None
       else Option.bind (LookupContactByID (sim_node E C (xh_depth H) (ns ! qIdx)) (Some (randomID H seed (Suc IDLength * trial + 1))) w)
         (\<lambda>(_, w1). run_trials E H C ns n seed ts w1))"

text \<open>
  The packet loss \<^verbatim>\<open>SetPacketLoss\<close> gives the hub: a loss of NaN is kept and compares false with everything, so
  that no packet is lost; it is the rate 0 here.
\<close>

definition hub_loss :: "float64 \<Rightarrow> rat" where
  "hub_loss l = (case l of NaN \<Rightarrow> 0 | Inf positive \<Rightarrow> if positive then 1 else 0 | Finite r \<Rightarrow> r)"

text \<open>One network of an experiment; \<open>l\<close> is the loss that is set once it is built, if any.\<close>

definition run_network ::
  "'e reg_env_scheme \<Rightarrow> exp_host \<Rightarrow> int \<Rightarrow> int \<Rightarrow> int \<Rightarrow> float64 option \<Rightarrow> 64 word \<Rightarrow> 64 word \<Rightarrow> (sim_config \<times> sim_world) option" where
  "run_network E H lookups alpha n l seed qseed =
     Option.bind (buildNetwork E H n seed alpha) (\<lambda>(C, ns, w).
       let w1 = (case l of None \<Rightarrow> w | Some loss \<Rightarrow> w\<lparr>hub := SetPacketLoss (hub w) (hub_loss loss)\<rparr>) in
       map_option (\<lambda>w2. (C, w2)) (run_trials E H C ns n qseed [0..<nat lookups] w1))"

definition runScalability ::
  "'e reg_env_scheme \<Rightarrow> exp_host \<Rightarrow> int list \<Rightarrow> 64 word list \<Rightarrow> int \<Rightarrow> int \<Rightarrow> (sim_config \<times> sim_world) list option" where
  "runScalability E H sizes seeds lookups alpha =
     those (concat (map (\<lambda>n. map (\<lambda>seed. run_network E H lookups alpha n None seed (seed + word_of_int n * 1000)) seeds) sizes))"

definition runReliability ::
  "'e reg_env_scheme \<Rightarrow> exp_host \<Rightarrow> int \<Rightarrow> float64 list \<Rightarrow> 64 word list \<Rightarrow> int \<Rightarrow> int \<Rightarrow> (sim_config \<times> sim_world) list option" where
  "runReliability E H n losses seeds lookups alpha =
     those (concat (map (\<lambda>l. map (\<lambda>seed. run_network E H lookups alpha n (Some l) seed (seed + xh_Round H l)) seeds) losses))"

text \<open>\<^verbatim>\<open>main\<close> after its flags are parsed; \<open>out_ok\<close>: the log file can be opened.\<close>

record exp_flags =
  xf_mode :: string
  xf_sizes :: string
  xf_loss :: string
  xf_seeds :: string
  xf_lookups :: int
  xf_alpha :: int
  xf_relNodes :: int

definition exp_config :: "'e unicode_env_scheme \<Rightarrow> exp_host \<Rightarrow> exp_flags \<Rightarrow> config_error + config" where
  "exp_config E H f =
     (let modeLower = ToLower E (xf_mode f) in
      case parseInt64s (xf_seeds f) of
        None \<Rightarrow> Inl ErrParseSeeds
      | Some seeds \<Rightarrow>
          (case (if modeLower = ''scalability'' \<or> modeLower = ''all'' then parseInts (xf_sizes f) else Some []) of
             None \<Rightarrow> Inl ErrParseSizes
           | Some sizes \<Rightarrow>
               (case (if modeLower = ''reliability'' \<or> modeLower = ''all'' then parseFloats H (xf_loss f) else Some []) of
                  None \<Rightarrow> Inl ErrParseLoss
                | Some losses \<Rightarrow>
                    (let cfg = \<lparr>cfg_mode = xf_mode f, cfg_sizes = sizes, cfg_lossRates = losses, cfg_seeds = seeds,
                       cfg_lookups = xf_lookups f, cfg_alpha = xf_alpha f, cfg_relNodes = xf_relNodes f\<rparr> in
                     err_bind (validateConfig E cfg) (\<lambda>_. Inr cfg)))))"

definition run_config ::
  "'e reg_env_scheme \<Rightarrow> exp_host \<Rightarrow> config \<Rightarrow> (sim_config \<times> sim_world) list option" where
  "run_config E H cfg =
     (let m = ToLower E (cfg_mode cfg);
          scalability = runScalability E H (cfg_sizes cfg) (cfg_seeds cfg) (cfg_lookups cfg) (cfg_alpha cfg);
          reliability = runReliability E H (cfg_relNodes cfg) (cfg_lossRates cfg) (cfg_seeds cfg) (cfg_lookups cfg) (cfg_alpha cfg) in
      if m = ''scalability'' then scalability
      else if m = ''reliability'' then reliability
      else if m = ''all'' then Option.bind scalability (\<lambda>rs. map_option ((@) rs) reliability)
      else Some [])"

definition experiment_main ::
  "'e reg_env_scheme \<Rightarrow> exp_host \<Rightarrow> bool \<Rightarrow> exp_flags \<Rightarrow> (config_error + (sim_config \<times> sim_world) list) option" where
  "experiment_main E H out_ok f =
     (case exp_config E H f of
        Inl e \<Rightarrow> Some (Inl e)
      | Inr cfg \<Rightarrow> if \<not> out_ok then Some (Inl ErrOutput) else map_option Inr (run_config E H cfg))"

section \<open>Every experiment runs to its end\<close>

lemma sim_sound_hub: "sim_sound E C w \<Longrightarrow> hub_balanced h \<Longrightarrow> sim_sound E C (w\<lparr>hub := h\<rparr>)"
  by (simp add: sim_sound_def sim_inv_def tables_wf_def)

lemma node_contact_id: "ID (node_contact E H seed i) \<noteq> None"
  by (simp add: node_contact_def NewContact_def Let_def)

lemma data_ok_empty: "data_ok E gm_empty"
  by (simp add: data_ok_def gm_empty_def gm_wf_def gm_get_def)

lemma empty_sound: "sim_sound E (empty_config E H seed) (empty_world E H seed)"
  by (simp add: sim_sound_def sim_inv_def tables_wf_def empty_config_def empty_world_def cfg_ok_def hub_balanced_def
      NewSimulatedHub_def stores_sound_def data_ok_empty rt_wf_New node_contact_id)

lemma make_nodes_sound:
  "sim_sound E C w \<Longrightarrow> case make_nodes E H seed alpha is (C, w) of (C1, w1) \<Rightarrow> sim_sound E C1 w1"
proof (induction "is" arbitrary: C w)
  case (Cons i "is")
  let ?C = "NewKademlia_fetcher (exp_node E H seed alpha i) C"
  let ?w = "w\<lparr>tables := (tables w)(i := NewRoutingTable (node_contact E H seed i)),
     stores := (stores w)(i := ds_data (NewDataStore :: unit DataStore)), hub := NewSimulatedNetwork C i (hub w)\<rparr>"
  have c: "cfg_ok ?C" using Cons.prems NewKademlia_simps(1)
    by (auto simp: sim_sound_def cfg_ok_def NewKademlia_fetcher_def exp_node_def NewKademlia_def Let_def
      defaultAlpha_def split: option.splits if_splits)
  have h: "hub_balanced (NewSimulatedNetwork C i (hub w))"
    using Cons.prems by (simp add: sim_sound_def sim_inv_def NewSimulatedNetwork_def Register_def hub_balanced_def)
  have "sim_sound E ?C ?w"
    using Cons.prems c h by (simp add: sim_sound_def sim_inv_def tables_wf_def stores_sound_def data_ok_empty
      NewDataStore_def rt_wf_New node_contact_id)
  from Cons.IH [OF this] show ?case by (simp add: Let_def)
qed simp

lemma join_nodes_sound:
  "sim_sound E C w \<Longrightarrow> \<exists>w1. join_nodes E H C seed alpha is w = Some w1 \<and> sim_sound E C w1"
proof (induction "is" arbitrary: w)
  case (Cons i "is")
  obtain r w1 where "Join (sim_node E C (xh_depth H) (exp_node E H seed alpha i)) (xh_refresh H i)
      (Me (exp_node E H seed alpha 0)) w = Some (r, w1)" "sim_sound E C w1"
    using sound.Join_ok [OF Cons.prems] unfolding exp_node_def by blast
  with Cons.IH show ?case by simp
qed simp

lemma buildNetwork_sound:
  assumes "0 \<le> n"
  shows "\<exists>C w. buildNetwork E H n seed alpha = Some (C, map (exp_node E H seed alpha) [0..<nat n], w) \<and> sim_sound E C w"
proof -
  obtain C w where m: "make_nodes E H seed alpha [0..<nat n] (empty_config E H seed, empty_world E H seed) = (C, w)"
    by fastforce
  then have "sim_sound E C w" using make_nodes_sound [OF empty_sound [of E H seed], of H seed alpha "[0..<nat n]"] by simp
  from join_nodes_sound [OF this, of H seed alpha "[1..<nat n]"] m assms show ?thesis
    by (auto simp: buildNetwork_def)
qed

lemma run_trials_sound:
  assumes "intn_ok H" and "0 < n" and "sim_sound E C w"
  shows "\<exists>w1. run_trials E H C (map (exp_node E H seed alpha) [0..<nat n]) n q ts w = Some w1 \<and> sim_sound E C w1"
  using assms(3)
proof (induction ts arbitrary: w)
  case (Cons t ts)
  let ?q = "xh_Intn H q (Suc IDLength * t) (nat n)"
  have q: "?q < nat n" using assms(1,2) by (simp add: intn_ok_def)
  obtain cs w1 where "LookupContactByID (sim_node E C (xh_depth H) (exp_node E H seed alpha ?q))
      (Some (randomID H q (Suc IDLength * t + 1))) w = Some (cs, w1)" "sim_sound E C w1"
    using sound.LookupContactByID_total [OF Cons.prems] unfolding exp_node_def by blast
  with Cons.IH [of w1] q assms(2) show ?case by (simp add: rng_Intn_def)
qed simp

lemma run_network_sound:
  assumes "intn_ok H" and "0 < n"
  shows "\<exists>C w. run_network E H lookups alpha n l seed q = Some (C, w) \<and> sim_sound E C w"
proof -
  obtain C w where b: "buildNetwork E H n seed alpha = Some (C, map (exp_node E H seed alpha) [0..<nat n], w)" "sim_sound E C w"
    using buildNetwork_sound [of n] assms(2) by fastforce
  let ?w = "case l of None \<Rightarrow> w | Some loss \<Rightarrow> w\<lparr>hub := SetPacketLoss (hub w) (hub_loss loss)\<rparr>"
  have "hub_balanced (SetPacketLoss (hub w) r)" for r
    using b(2) by (simp add: SetPacketLoss_def hub_balanced_def sim_sound_def sim_inv_def)
  then have "sim_sound E C ?w" using b(2) sim_sound_hub [OF b(2)] by (cases l) simp_all
  from run_trials_sound [OF assms this, of seed alpha q "[0..<nat lookups]"] b(1) show ?thesis
    by (auto simp: run_network_def Let_def)
qed

lemma those_all: "(\<And>x. x \<in> set xs \<Longrightarrow> \<exists>y. x = Some y \<and> P y) \<Longrightarrow> \<exists>ys. those xs = Some ys \<and> length ys = length xs \<and> list_all P ys"
proof (induction xs)
  case (Cons x xs)
  obtain y where "x = Some y" "P y" using Cons.prems by auto
  moreover obtain ys where "those xs = Some ys" "length ys = length xs" "list_all P ys" using Cons.IH Cons.prems by auto
  ultimately show ?case by simp
qed simp

lemma runs_ok:
  assumes "\<And>a b. a \<in> set as \<Longrightarrow> b \<in> set bs \<Longrightarrow> \<exists>y. f a b = Some y \<and> P y"
  shows "\<exists>ys. those (concat (map (\<lambda>a. map (f a) bs) as)) = Some ys \<and> length ys = length as * length bs \<and> list_all P ys"
proof -
  have "length (concat (map (\<lambda>a. map (f a) bs) as)) = length as * length bs" by (induction as) auto
  with those_all [of "concat (map (\<lambda>a. map (f a) bs) as)" P] assms show ?thesis by fastforce
qed

lemma validateConfig_ok:
  assumes "validateConfig E cfg = Inr u"
  shows "cfg_seeds cfg \<noteq> []" and "0 < cfg_lookups cfg" and "0 < cfg_alpha cfg"
    and "ToLower E (cfg_mode cfg) \<in> {''scalability'', ''reliability'', ''all''}"
    and "ToLower E (cfg_mode cfg) \<noteq> ''reliability'' \<Longrightarrow> cfg_sizes cfg \<noteq> [] \<and> (\<forall>n \<in> set (cfg_sizes cfg). 0 < n)"
    and "ToLower E (cfg_mode cfg) \<noteq> ''scalability'' \<Longrightarrow> 0 < cfg_relNodes cfg \<and> cfg_lossRates cfg \<noteq> [] \<and>
      (\<forall>l \<in> set (cfg_lossRates cfg). \<not> bad_loss l)"
  using assms
  by (auto simp: validateConfig_def Let_def err_bind_def find_None_iff not_le split: if_splits sum.splits option.splits)

section \<open>Properties\<close>


definition demo_exp :: exp_host where
  "demo_exp = \<lparr>xh_Intn = (\<lambda>seed k n. k mod n), xh_Float64 = (\<lambda>seed k. 0), xh_order = (\<lambda>k c. 0),
     xh_refresh = (\<lambda>i b. (\<lambda>j. 0, \<lambda>j. 0)), xh_depth = 1, xh_ParseFloat = (\<lambda>s. Some (Finite (1 / 2))), xh_Round = (\<lambda>l. 50000)\<rparr>"

definition demo_flags :: exp_flags where
  "demo_flags = \<lparr>xf_mode = ''Reliability'', xf_sizes = [], xf_loss = ''0.5'', xf_seeds = ''101, 202'', xf_lookups = 5, xf_alpha = 3,
     xf_relNodes = 4\<rparr>"


end
